(* ===== verification/Prelude.thy ===== *)
theory Prelude
  imports Main "HOL-Library.Word"
begin

text \<open>
  Shared vocabulary of the development: the type synonyms of the model, the fact collections
  used by the component proofs, the error-or-value results, generic lemmas on keyed rows
  (a database table is the list of its rows), and the fixed-width arithmetic of Rust's
  \<open>i32\<close>, \<open>i64\<close> and \<open>u64\<close>.
\<close>

section \<open>Types and fact collections\<close>

type_synonym u8 = "8 word"
type_synonym u64 = "64 word"
type_synonym bytes = "u8 list"

text \<open>A \<open>uuid::Uuid\<close> is a 128-bit value; a timestamp is a number of microseconds, the
  resolution of \<open>timestamptz\<close>.\<close>

type_synonym uuid = "128 word"
type_synonym timestamp = int

named_theorems stmt_defs "definitions of the SQL statements and of the transactions built on them"
named_theorems ok_iff "a computation returns a value exactly when \<dots>"
named_theorems frame "fields and tables an operation leaves alone"

section \<open>Keyed rows\<close>

definition update_where :: "('r \<Rightarrow> bool) \<Rightarrow> ('r \<Rightarrow> 'r) \<Rightarrow> 'r list \<Rightarrow> 'r list" where
  "update_where P f rows = map (\<lambda>r. if P r then f r else r) rows"

definition rows_affected :: "('r \<Rightarrow> bool) \<Rightarrow> 'r list \<Rightarrow> nat" where
  "rows_affected P rows = length (filter P rows)"

lemma update_where_simps [simp]:
  "update_where P f [] = []"
  "update_where P f (r # rs) = (if P r then f r else r) # update_where P f rs"
  by (simp_all add: update_where_def)

lemma set_update_where: "set (update_where P f rows) = (\<lambda>r. if P r then f r else r) ` set rows"
  by (simp add: update_where_def)

lemma length_update_where [simp]: "length (update_where P f rows) = length rows"
  by (simp add: update_where_def)

lemma update_where_id: "(\<And>r. r \<in> set rows \<Longrightarrow> \<not> P r) \<Longrightarrow> update_where P f rows = rows"
  by (simp add: update_where_def map_idI)

lemma rows_affected_0 [simp]: "rows_affected P rows = 0 \<longleftrightarrow> (\<forall>r\<in>set rows. \<not> P r)"
  by (auto simp: rows_affected_def filter_empty_conv)

lemma rows_affected_pos: "0 < rows_affected P rows \<longleftrightarrow> (\<exists>r\<in>set rows. P r)"
  by (auto simp: rows_affected_def filter_empty_conv)

lemma find_in_set: "List.find P rows = Some r \<Longrightarrow> r \<in> set rows \<and> P r"
  by (induction rows) (auto split: if_splits)

lemma find_none_iff: "List.find P rows = None \<longleftrightarrow> (\<forall>r\<in>set rows. \<not> P r)"
  by (induction rows) auto

text \<open>The interface of a table row: its key column, and an update that never writes it.\<close>

locale keyed_update =
  fixes key :: "'r \<Rightarrow> 'k" and upd :: "'r \<Rightarrow> 'r"
  assumes key_upd: "key (upd r) = key r"
begin

lemma keys_update_where: "map key (update_where P upd rows) = map key rows"
  by (simp add: update_where_def key_upd)

lemma distinct_keys_update_where:
  "distinct (map key rows) \<Longrightarrow> distinct (map key (update_where P upd rows))"
  by (simp add: keys_update_where)

lemma set_keys_update_where: "key ` set (update_where P upd rows) = key ` set rows"
  by (metis keys_update_where list.set_map)

end

lemma distinct_keys_unique:
  "distinct (map key rows) \<Longrightarrow> r \<in> set rows \<Longrightarrow> r' \<in> set rows \<Longrightarrow> key r = key r' \<Longrightarrow> r = r'"
  by (meson distinct_map inj_onD)

lemma find_key_eq:
  "distinct (map key rows) \<Longrightarrow> r \<in> set rows \<Longrightarrow> List.find (\<lambda>x. key x = key r) rows = Some r"
  by (induction rows) (auto simp: rev_image_eqI)

lemma rows_affected_key_le1:
  "distinct (map key rows) \<Longrightarrow> rows_affected (\<lambda>r. key r = k \<and> P r) rows \<le> 1"
proof (induction rows)
  case Nil
  then show ?case by (simp add: rows_affected_def)
next
  case (Cons r rows)
  show ?case
  proof (cases "key r = k \<and> P r")
    case True
    with Cons.prems have "\<forall>x\<in>set rows. key x \<noteq> k" by (auto simp: image_iff)
    then have "filter (\<lambda>r. key r = k \<and> P r) rows = []" by (simp add: filter_empty_conv)
    with True show ?thesis by (simp add: rows_affected_def)
  next
    case False
    then have "rows_affected (\<lambda>r. key r = k \<and> P r) (r # rows) =
      rows_affected (\<lambda>r. key r = k \<and> P r) rows" by (auto simp: rows_affected_def)
    with Cons show ?thesis by simp
  qed
qed

lemma rows_affected_key_eq1:
  "distinct (map key rows) \<Longrightarrow> r \<in> set rows \<Longrightarrow> key r = k \<Longrightarrow> P r \<Longrightarrow>
   rows_affected (\<lambda>r. key r = k \<and> P r) rows = 1"
  using rows_affected_key_le1 [of key rows k P] rows_affected_pos [of "\<lambda>r. key r = k \<and> P r" rows]
  by fastforce

section \<open>Fixed-width integers\<close>

definition i32_min :: int where "i32_min = - (2 ^ 31)"
definition i32_max :: int where "i32_max = 2 ^ 31 - 1"
definition i64_min :: int where "i64_min = - (2 ^ 63)"
definition i64_max :: int where "i64_max = 2 ^ 63 - 1"

lemmas int_width_defs = i32_min_def i32_max_def i64_min_def i64_max_def

text \<open>Two's-complement wrap-around of a release build.\<close>

definition i32_wrap :: "int \<Rightarrow> int" where
  "i32_wrap x = (x + 2 ^ 31) mod 2 ^ 32 - 2 ^ 31"

definition i64_wrap :: "int \<Rightarrow> int" where
  "i64_wrap x = (x + 2 ^ 63) mod 2 ^ 64 - 2 ^ 63"

definition is_i32 :: "int \<Rightarrow> bool" where
  "is_i32 x \<longleftrightarrow> i32_min \<le> x \<and> x \<le> i32_max"

definition is_i64 :: "int \<Rightarrow> bool" where
  "is_i64 x \<longleftrightarrow> i64_min \<le> x \<and> x \<le> i64_max"

definition i32_saturating_add :: "int \<Rightarrow> int \<Rightarrow> int" where
  "i32_saturating_add a b = max i32_min (min i32_max (a + b))"

definition i32_saturating_sub :: "int \<Rightarrow> int \<Rightarrow> int" where
  "i32_saturating_sub a b = max i32_min (min i32_max (a - b))"

definition i64_saturating_sub :: "int \<Rightarrow> int \<Rightarrow> int" where
  "i64_saturating_sub a b = max i64_min (min i64_max (a - b))"

lemma i32_wrap_id: "is_i32 x \<Longrightarrow> i32_wrap x = x"
  by (simp add: is_i32_def i32_wrap_def int_width_defs)

lemma i64_wrap_id: "is_i64 x \<Longrightarrow> i64_wrap x = x"
  by (simp add: is_i64_def i64_wrap_def int_width_defs)

lemma is_i32_wrap: "is_i32 (i32_wrap x)"
proof -
  have "0 \<le> (x + 2 ^ 31) mod 2 ^ 32" "(x + 2 ^ 31) mod 2 ^ 32 < (2::int) ^ 32"
    by (rule pos_mod_sign, simp) (rule pos_mod_bound, simp)
  then show ?thesis by (simp add: is_i32_def i32_wrap_def int_width_defs)
qed

lemma is_i64_wrap: "is_i64 (i64_wrap x)"
proof -
  have "0 \<le> (x + 2 ^ 63) mod 2 ^ 64" "(x + 2 ^ 63) mod 2 ^ 64 < (2::int) ^ 64"
    by (rule pos_mod_sign, simp) (rule pos_mod_bound, simp)
  then show ?thesis by (simp add: is_i64_def i64_wrap_def int_width_defs)
qed

text \<open>\<open>i64::abs\<close>: the most negative value has no counterpart and wraps to itself.\<close>

definition i64_abs :: "int \<Rightarrow> int" where
  "i64_abs x = i64_wrap \<bar>x\<bar>"

lemma i64_abs_id: "is_i64 x \<Longrightarrow> x \<noteq> i64_min \<Longrightarrow> i64_abs x = \<bar>x\<bar>"
  unfolding i64_abs_def by (rule i64_wrap_id) (auto simp: is_i64_def int_width_defs)

lemma i64_abs_min: "i64_abs i64_min = i64_min"
  by (simp add: i64_abs_def i64_wrap_def int_width_defs)

lemma u8_less_256: "unat (w :: u8) < 256"
  using unsigned_less [of w] by simp

text \<open>\<open>u64\<close>: checked shift and saturating multiplication.\<close>

definition u64_checked_shl :: "u64 \<Rightarrow> nat \<Rightarrow> u64 option" where
  "u64_checked_shl x n = (if n < 64 then Some (push_bit n x) else None)"

definition u64_saturating_mul :: "u64 \<Rightarrow> u64 \<Rightarrow> u64" where
  "u64_saturating_mul a b = (if unat a * unat b < 2 ^ 64 then a * b else - 1)"

lemma unat_saturating_mul:
  "unat (u64_saturating_mul a b) = min (2 ^ 64 - 1) (unat a * unat b)"
proof -
  have "unat (- 1 :: u64) = 2 ^ 64 - 1" by (simp add: unat_eq_nat_uint uint_word_ariths)
  then show ?thesis by (auto simp: u64_saturating_mul_def unat_word_ariths min_def)
qed

end
