(* ===== verification/Rust_Std.thy ===== *)
theory Rust_Std
  imports Prelude
begin

text \<open>
  The functions of Rust's standard library on \<open>str\<close> that the program calls. A Rust
  string is its UTF-8 bytes, here a HOL \<open>string\<close> (a list of 8-bit characters), so
  \<open>length\<close> is \<open>str::len\<close>. The lemmas give the round trip of decimal printing and
  parsing and the laws of splitting and trimming that the signature code relies on.
\<close>

section \<open>Prefixes, suffixes and splitting\<close>

definition starts_with :: "string \<Rightarrow> string \<Rightarrow> bool" where
  "starts_with s p \<longleftrightarrow> take (length p) s = p"

definition strip_prefix :: "string \<Rightarrow> string \<Rightarrow> string option" where
  "strip_prefix s p = (if starts_with s p then Some (drop (length p) s) else None)"

text \<open>\<open>str::strip_suffix\<close> for a one-byte pattern.\<close>

definition strip_suffix_char :: "string \<Rightarrow> char \<Rightarrow> string option" where
  "strip_suffix_char s c = (if s \<noteq> [] \<and> last s = c then Some (butlast s) else None)"

fun split_char :: "char \<Rightarrow> string \<Rightarrow> string list" where
  "split_char c [] = [[]]"
| "split_char c (x # xs) =
     (if x = c then [] # split_char c xs
      else (case split_char c xs of [] \<Rightarrow> [[x]] | y # ys \<Rightarrow> (x # y) # ys))"

fun split_once :: "char \<Rightarrow> string \<Rightarrow> (string \<times> string) option" where
  "split_once c [] = None"
| "split_once c (x # xs) =
     (if x = c then Some ([], xs)
      else (case split_once c xs of None \<Rightarrow> None | Some (a, b) \<Rightarrow> Some (x # a, b)))"

lemma starts_with_iff: "starts_with s p \<longleftrightarrow> (\<exists>t. s = p @ t)"
  by (metis append_eq_conv_conj append_take_drop_id starts_with_def)

lemma strip_prefix_append [simp]: "strip_prefix (p @ s) p = Some s"
  by (simp add: strip_prefix_def starts_with_def)

lemma strip_prefix_Some_iff: "strip_prefix s p = Some t \<longleftrightarrow> s = p @ t"
  by (auto simp: strip_prefix_def starts_with_iff)

lemma strip_suffix_char_Some_iff: "strip_suffix_char s c = Some t \<longleftrightarrow> s = t @ [c]"
  by (cases s rule: rev_cases) (auto simp: strip_suffix_char_def)

lemma strip_suffix_char_None_iff: "strip_suffix_char s c = None \<longleftrightarrow> (\<nexists>t. s = t @ [c])"
  using strip_suffix_char_Some_iff [of s c] by (cases "strip_suffix_char s c") auto

lemma split_char_nonempty [simp]: "split_char c s \<noteq> []"
  by (induction s) (auto split: list.splits)

lemma split_char_no_sep: "c \<notin> set s \<Longrightarrow> split_char c s = [s]"
  by (induction s) auto

lemma split_char_append:
  "c \<notin> set a \<Longrightarrow> split_char c (a @ c # b) = a # split_char c b"
  by (induction a) auto

lemma split_once_append: "c \<notin> set a \<Longrightarrow> split_once c (a @ c # b) = Some (a, b)"
  by (induction a) auto

lemma split_once_Some_iff:
  "split_once c s = Some (a, b) \<longleftrightarrow> s = a @ c # b \<and> c \<notin> set a"
proof (induction s arbitrary: a)
  case Nil
  then show ?case by simp
next
  case (Cons x xs)
  show ?case
    by (cases a) (auto simp: Cons.IH split_once_append split: option.splits prod.splits)
qed

section \<open>White space\<close>

text \<open>
  \<open>str::trim\<close> and \<open>str::split_whitespace\<close> use the Unicode property
  \<open>White_Space\<close>. On UTF-8 bytes that is: the ASCII characters 9 to 13 and 32, the
  two-byte U+0085 and U+00A0, and the three-byte U+1680, U+2000 to U+200A, U+2028, U+2029,
  U+202F, U+205F and U+3000. \<open>ws_len\<close> is the byte length of a white-space character at
  the front of a string, 0 if there is none.
\<close>

definition byte_at :: "string \<Rightarrow> nat \<Rightarrow> nat" where
  "byte_at s i = (if i < length s then of_char (s ! i) else 0)"

definition ws_ascii :: "string \<Rightarrow> bool" where
  "ws_ascii s \<longleftrightarrow> 9 \<le> byte_at s 0 \<and> byte_at s 0 \<le> 13 \<or> byte_at s 0 = 32"

definition ws_two :: "string \<Rightarrow> bool" where
  "ws_two s \<longleftrightarrow> byte_at s 0 = 0xC2 \<and> (byte_at s 1 = 0x85 \<or> byte_at s 1 = 0xA0)"

definition ws_three :: "string \<Rightarrow> bool" where
  "ws_three s \<longleftrightarrow>
     (let b0 = byte_at s 0; b1 = byte_at s 1; b2 = byte_at s 2 in
      b0 = 0xE1 \<and> b1 = 0x9A \<and> b2 = 0x80 \<or>
      b0 = 0xE2 \<and> b1 = 0x80 \<and> (0x80 \<le> b2 \<and> b2 \<le> 0x8A \<or> b2 = 0xA8 \<or> b2 = 0xA9 \<or> b2 = 0xAF) \<or>
      b0 = 0xE2 \<and> b1 = 0x81 \<and> b2 = 0x9F \<or>
      b0 = 0xE3 \<and> b1 = 0x80 \<and> b2 = 0x80)"

definition ws_len :: "string \<Rightarrow> nat" where
  "ws_len s = (if ws_ascii s then 1 else if ws_two s then 2 else if ws_three s then 3 else 0)"

text \<open>The same at the end of a string: the last one, two or three bytes are one white-space
  character.\<close>

definition ws_len_end :: "string \<Rightarrow> nat" where
  "ws_len_end s =
     (if s \<noteq> [] \<and> ws_len (drop (length s - 1) s) = 1 then 1
      else if 2 \<le> length s \<and> ws_len (drop (length s - 2) s) = 2 then 2
      else if 3 \<le> length s \<and> ws_len (drop (length s - 3) s) = 3 then 3
      else 0)"

lemma byte_at_pos: "0 < byte_at s i \<Longrightarrow> i < length s"
  by (simp add: byte_at_def split: if_splits)

lemma ws_long_enough:
  "ws_ascii s \<Longrightarrow> 0 < length s" "ws_two s \<Longrightarrow> 1 < length s" "ws_three s \<Longrightarrow> 2 < length s"
  by (rule byte_at_pos, auto simp: ws_ascii_def ws_two_def ws_three_def Let_def)+

lemma ws_len_le: "ws_len s \<le> length s"
  using ws_long_enough [of s] by (auto simp: ws_len_def Suc_le_eq)

lemma ws_len_end_le: "ws_len_end s \<le> length s"
  by (auto simp: ws_len_end_def Suc_le_eq)

lemma drop_ws_shorter: "ws_len s \<noteq> 0 \<Longrightarrow> length (drop (ws_len s) s) < length s"
  using ws_len_le [of s] by simp

lemma take_ws_shorter:
  "ws_len_end s \<noteq> 0 \<Longrightarrow> length (take (length s - ws_len_end s) s) < length s"
  using ws_len_end_le [of s] by simp

function trim_start :: "string \<Rightarrow> string" where
  "trim_start s = (if ws_len s = 0 then s else trim_start (drop (ws_len s) s))"
  by pat_completeness auto
termination
  by (relation "measure length") (simp_all only: wf_measure in_measure drop_ws_shorter not_False_eq_True)

function trim_end :: "string \<Rightarrow> string" where
  "trim_end s = (if ws_len_end s = 0 then s else trim_end (take (length s - ws_len_end s) s))"
  by pat_completeness auto
termination
  by (relation "measure length") (simp_all only: wf_measure in_measure take_ws_shorter not_False_eq_True)

declare trim_start.simps [simp del] trim_end.simps [simp del]

definition trim :: "string \<Rightarrow> string" where
  "trim s = trim_end (trim_start s)"

text \<open>\<open>split_whitespace\<close>: the maximal non-empty runs without white space. \<open>acc\<close> is the
  run read so far, reversed.\<close>

definition flush_word :: "string \<Rightarrow> string list" where
  "flush_word acc = (if acc = [] then [] else [rev acc])"

function split_ws_aux :: "string \<Rightarrow> string \<Rightarrow> string list" where
  "split_ws_aux acc s =
     (case s of
        [] \<Rightarrow> flush_word acc
      | x # xs \<Rightarrow>
          if ws_len s = 0 then split_ws_aux (x # acc) xs
          else flush_word acc @ split_ws_aux [] (drop (ws_len s) s))"
  by pat_completeness auto
termination
  by (relation "measure (\<lambda>(acc, s). length s)") auto

declare split_ws_aux.simps [simp del]

definition split_whitespace :: "string \<Rightarrow> string list" where
  "split_whitespace s = split_ws_aux [] s"

lemma split_ws_aux_Nil [simp]: "split_ws_aux acc [] = flush_word acc"
  by (simp add: split_ws_aux.simps)

text \<open>Text whose bytes are all visible ASCII holds no white space.\<close>

definition visible_char :: "char \<Rightarrow> bool" where
  "visible_char c \<longleftrightarrow> 33 \<le> (of_char c :: nat) \<and> (of_char c :: nat) \<le> 126"

definition visible :: "string \<Rightarrow> bool" where
  "visible s = list_all visible_char s"

lemma visible_simps [simp]:
  "visible []" "visible (c # s) \<longleftrightarrow> visible_char c \<and> visible s"
  "visible (s @ t) \<longleftrightarrow> visible s \<and> visible t"
  by (simp_all add: visible_def)

lemma ws_len_visible: "visible s \<Longrightarrow> ws_len s = 0"
  by (cases s) (auto simp: ws_len_def ws_ascii_def ws_two_def ws_three_def byte_at_def
      visible_char_def Let_def)

lemma visible_drop: "visible s \<Longrightarrow> visible (drop n s)"
  by (auto simp: visible_def list_all_iff dest: in_set_dropD)

lemma ws_len_end_visible: "visible s \<Longrightarrow> ws_len_end s = 0"
  by (simp add: ws_len_end_def ws_len_visible visible_drop)

lemma trim_visible [simp]: "visible s \<Longrightarrow> trim s = s"
  by (simp add: trim_def trim_start.simps [of s] trim_end.simps [of s] ws_len_visible
      ws_len_end_visible)

lemma split_ws_aux_visible: "visible s \<Longrightarrow> split_ws_aux acc s = flush_word (rev s @ acc)"
  by (induction s arbitrary: acc) (simp_all add: split_ws_aux.simps [of _ "_ # _"] ws_len_visible)

lemma split_whitespace_visible: "visible s \<Longrightarrow> s \<noteq> [] \<Longrightarrow> split_whitespace s = [s]"
  by (simp add: split_whitespace_def split_ws_aux_visible flush_word_def)

section \<open>Decimal numbers\<close>

definition digit_char :: "nat \<Rightarrow> char" where
  "digit_char d = char_of (48 + d)"

fun show_nat :: "nat \<Rightarrow> string" where
  "show_nat n = (if n < 10 then [digit_char n] else show_nat (n div 10) @ [digit_char (n mod 10)])"

declare show_nat.simps [simp del]

definition show_int :: "int \<Rightarrow> string" where
  "show_int i = (if i < 0 then CHR ''-'' # show_nat (nat (- i)) else show_nat (nat i))"

definition is_digit :: "char \<Rightarrow> bool" where
  "is_digit c \<longleftrightarrow> 48 \<le> (of_char c :: nat) \<and> (of_char c :: nat) \<le> 57"

definition digit_val :: "char \<Rightarrow> nat" where
  "digit_val c = of_char c - 48"

definition digits_val :: "string \<Rightarrow> nat" where
  "digits_val s = foldl (\<lambda>n c. 10 * n + digit_val c) 0 s"

definition parse_digits :: "string \<Rightarrow> nat option" where
  "parse_digits s = (if s \<noteq> [] \<and> list_all is_digit s then Some (digits_val s) else None)"

text \<open>\<open>str::parse::<i64>\<close>: an optional sign, at least one decimal digit, no overflow.\<close>

definition in_i64 :: "int \<Rightarrow> int option" where
  "in_i64 i = (if is_i64 i then Some i else None)"

definition parse_i64 :: "string \<Rightarrow> int option" where
  "parse_i64 s =
     (case s of
        [] \<Rightarrow> None
      | c # cs \<Rightarrow>
          if c = CHR ''-'' then Option.bind (parse_digits cs) (\<lambda>n. in_i64 (- int n))
          else if c = CHR ''+'' then Option.bind (parse_digits cs) (\<lambda>n. in_i64 (int n))
          else Option.bind (parse_digits s) (\<lambda>n. in_i64 (int n)))"

lemma of_char_digit: "d < 10 \<Longrightarrow> (of_char (digit_char d) :: nat) = 48 + d"
  by (simp add: digit_char_def)

lemma is_digit_digit_char: "d < 10 \<Longrightarrow> is_digit (digit_char d)"
  by (simp add: is_digit_def of_char_digit)

lemma digit_val_digit_char: "d < 10 \<Longrightarrow> digit_val (digit_char d) = d"
  by (simp add: digit_val_def of_char_digit)

lemma digits_val_snoc: "digits_val (s @ [c]) = 10 * digits_val s + digit_val c"
  by (simp add: digits_val_def)

lemma show_nat_digits: "show_nat n \<noteq> [] \<and> list_all is_digit (show_nat n) \<and> digits_val (show_nat n) = n"
proof (induction n rule: show_nat.induct)
  case (1 n)
  show ?case
  proof (cases "n < 10")
    case True
    then show ?thesis
      by (simp add: show_nat.simps [of n] is_digit_digit_char digits_val_def digit_val_digit_char)
  next
    case False
    with 1 have "show_nat (n div 10) \<noteq> [] \<and> list_all is_digit (show_nat (n div 10)) \<and>
      digits_val (show_nat (n div 10)) = n div 10" by simp
    with False show ?thesis
      by (simp add: show_nat.simps [of n] is_digit_digit_char digits_val_snoc digit_val_digit_char)
  qed
qed

lemma show_nat_inj: "show_nat m = show_nat n \<Longrightarrow> m = n"
  using show_nat_digits [of m] show_nat_digits [of n] by metis

lemma parse_digits_show [simp]: "parse_digits (show_nat n) = Some n"
  using show_nat_digits [of n] by (simp add: parse_digits_def)

lemma is_digit_visible: "is_digit c \<Longrightarrow> visible_char c"
  by (simp add: is_digit_def visible_char_def)

lemma show_nat_visible: "visible (show_nat n)"
  using show_nat_digits [of n] is_digit_visible by (auto simp: visible_def list_all_iff)

lemma show_int_visible: "visible (show_int i)"
  by (simp add: show_int_def show_nat_visible visible_char_def)

lemma show_nat_sign: "c \<in> set (show_nat n) \<Longrightarrow> c \<noteq> CHR ''-'' \<and> c \<noteq> CHR ''+''"
  using show_nat_digits [of n] by (auto simp: list_all_iff is_digit_def)

lemma parse_show_i64:
  assumes "is_i64 i"
  shows "parse_i64 (show_int i) = Some i"
proof (cases "i < 0")
  case True
  with assms show ?thesis by (simp add: show_int_def parse_i64_def in_i64_def)
next
  case False
  obtain c cs where s: "show_nat (nat i) = c # cs"
    using show_nat_digits [of "nat i"] by (cases "show_nat (nat i)") auto
  then have c: "c \<noteq> CHR ''-'' \<and> c \<noteq> CHR ''+''" using show_nat_sign [of c "nat i"] by simp
  have "parse_digits (c # cs) = Some (nat i)" using parse_digits_show [of "nat i"] by (simp only: s)
  with False s c assms show ?thesis
    by (simp add: show_int_def parse_i64_def in_i64_def)
qed

section \<open>Strings and bytes\<close>

definition as_bytes :: "string \<Rightarrow> bytes" where
  "as_bytes s = map of_char s"

lemma unat_of_char_u8: "unat (of_char c :: u8) = of_char c"
proof -
  have "(of_char c :: u8) = word_of_nat (of_char c)" by (simp only: of_nat_of_char)
  moreover have "(of_char c :: nat) < 256" by simp
  ultimately show ?thesis by (simp add: unat_of_nat)
qed

lemma of_char_u8_inject: "(of_char c :: u8) = of_char d \<longleftrightarrow> c = d"
  by (metis of_char_eq_iff unat_of_char_u8)

lemma as_bytes_inject: "as_bytes s = as_bytes t \<longleftrightarrow> s = t"
proof
  assume "as_bytes s = as_bytes t"
  then show "s = t" unfolding as_bytes_def
    by (metis (mono_tags, lifting) inj_onI map_inj_on of_char_u8_inject)
qed simp

lemma length_as_bytes [simp]: "length (as_bytes s) = length s"
  by (simp add: as_bytes_def)

section \<open>Lossy UTF-8 decoding\<close>

text \<open>
  \<open>String::from_utf8_lossy\<close>: every maximal invalid prefix of a character is replaced by
  U+FFFD. \<open>utf8_char\<close> reads one character at the front: how many bytes are consumed, and
  whether they are valid. The second byte of a character has a range of its own, which excludes
  overlong forms and surrogates; the others are continuation bytes.
\<close>

definition between :: "u8 \<Rightarrow> u8 \<Rightarrow> u8 \<Rightarrow> bool" where
  "between lo hi b \<longleftrightarrow> lo \<le> b \<and> b \<le> hi"

definition second_byte_ok :: "u8 \<Rightarrow> u8 \<Rightarrow> bool" where
  "second_byte_ok b c =
     (if b = 0xE0 then between 0xA0 0xBF c
      else if b = 0xED then between 0x80 0x9F c
      else if b = 0xF0 then between 0x90 0xBF c
      else if b = 0xF4 then between 0x80 0x8F c
      else between 0x80 0xBF c)"

definition utf8_width :: "u8 \<Rightarrow> nat" where
  "utf8_width b =
     (if b < 0x80 then 1 else if between 0xC2 0xDF b then 2 else if between 0xE0 0xEF b then 3
      else if between 0xF0 0xF4 b then 4 else 0)"

fun tail_bytes :: "nat \<Rightarrow> bytes \<Rightarrow> nat" where
  "tail_bytes (Suc n) (c # cs) = (if between 0x80 0xBF c then Suc (tail_bytes n cs) else 0)"
| "tail_bytes n cs = 0"

definition utf8_char :: "u8 \<Rightarrow> bytes \<Rightarrow> nat \<times> bool" where
  "utf8_char b rest =
     (let w = utf8_width b in
      if w \<le> 1 then (1, w = 1)
      else case rest of
        [] \<Rightarrow> (1, False)
      | c # cs \<Rightarrow>
          if second_byte_ok b c
          then let n = tail_bytes (w - 2) cs in (2 + n, n = w - 2)
          else (1, False))"

function utf8_lossy :: "bytes \<Rightarrow> bytes" where
  "utf8_lossy [] = []"
| "utf8_lossy (b # rest) =
     (case utf8_char b rest of (n, valid) \<Rightarrow>
        (if valid then take n (b # rest) else [0xEF, 0xBF, 0xBD]) @ utf8_lossy (drop (n - 1) rest))"
  by pat_completeness auto
termination
  by (relation "measure length") auto

declare utf8_lossy.simps(2) [simp del]

definition from_utf8_lossy :: "bytes \<Rightarrow> string" where
  "from_utf8_lossy bs = map (\<lambda>b. char_of (unat b)) (utf8_lossy bs)"

lemma utf8_lossy_ascii: "list_all (\<lambda>b. b < 0x80) bs \<Longrightarrow> utf8_lossy bs = bs"
  by (induction bs) (simp_all add: utf8_lossy.simps(2) utf8_char_def utf8_width_def)

end
