(* ===== verification/Model.thy ===== *)
theory Model
  imports Rust_Std
begin

text \<open>
  The domain model of \<open>crates/dropless-core/src/model.rs\<close> and the errors of
  \<open>error.rs\<close>: one record per table row with the columns of \<open>migrations/*.sql\<close>, the
  delivery life cycle with its text encoding, and the subscription filter of an endpoint.
  Statuses and circuit states are kept as the text that the database stores. Field names carry
  a prefix per row type (\<open>ev_\<close>, \<open>ep_\<close>, \<open>dl_\<close>, \<dots>) because record fields are
  global in HOL. The lemmas: the status text round trips, and \<open>subscribes_to\<close> is
  equivalent to a declarative reading of the patterns.
\<close>

section \<open>Errors\<close>

text \<open>The database errors the code tells apart (\<open>is_unique_violation\<close>), and the rest.\<close>

datatype sqlx_error = Unique_violation string | Foreign_key_violation string | Other_db_error string

datatype core_error =
  Db sqlx_error
| Http string
| Signing string
| Serde string
| NotFound string
| Invalid string

type_synonym 'a core_result = "core_error + 'a"

text \<open>The \<open>Display\<close> text of an error; \<open>sqlx_text\<close> is the text of the database error.\<close>

fun error_display :: "(sqlx_error \<Rightarrow> string) \<Rightarrow> core_error \<Rightarrow> string" where
  "error_display sqlx_text (Db e) = ''database error: '' @ sqlx_text e"
| "error_display sqlx_text (Http e) = ''http error: '' @ e"
| "error_display sqlx_text (Signing e) = ''signing error: '' @ e"
| "error_display sqlx_text (Serde e) = ''serialization error: '' @ e"
| "error_display sqlx_text (NotFound e) = ''not found: '' @ e"
| "error_display sqlx_text (Invalid e) = ''invalid value: '' @ e"

section \<open>Delivery status\<close>

datatype delivery_status = Pending | InProgress | Succeeded | Failed | Dead

instantiation delivery_status :: enum
begin

definition enum_delivery_status_def:
  "enum_class.enum = [Pending, InProgress, Succeeded, Failed, Dead]"

definition enum_all_delivery_status_def:
  "enum_class.enum_all P \<longleftrightarrow> P Pending \<and> P InProgress \<and> P Succeeded \<and> P Failed \<and> P Dead"

definition enum_ex_delivery_status_def:
  "enum_class.enum_ex P \<longleftrightarrow> P Pending \<or> P InProgress \<or> P Succeeded \<or> P Failed \<or> P Dead"

instance
proof
  show "(UNIV :: delivery_status set) = set enum_class.enum"
    by (auto simp: enum_delivery_status_def intro: delivery_status.exhaust)
  show "distinct (enum_class.enum :: delivery_status list)"
    by (simp add: enum_delivery_status_def)
  fix P :: "delivery_status \<Rightarrow> bool"
  show "enum_class.enum_all P = Ball UNIV P"
    by (metis UNIV_I delivery_status.exhaust enum_all_delivery_status_def)
  show "enum_class.enum_ex P = Bex UNIV P"
    by (metis UNIV_I delivery_status.exhaust enum_ex_delivery_status_def)
qed

end

fun status_as_str :: "delivery_status \<Rightarrow> string" where
  "status_as_str Pending = ''pending''"
| "status_as_str InProgress = ''in_progress''"
| "status_as_str Succeeded = ''succeeded''"
| "status_as_str Failed = ''failed''"
| "status_as_str Dead = ''dead''"

text \<open>\<open>dbg\<close> is the formatter behind \<open>{other:?}\<close>.\<close>

definition status_from_str :: "(string \<Rightarrow> string) \<Rightarrow> string \<Rightarrow> delivery_status core_result" where
  "status_from_str dbg s =
     (if s = ''pending'' then Inr Pending
      else if s = ''in_progress'' then Inr InProgress
      else if s = ''succeeded'' then Inr Succeeded
      else if s = ''failed'' then Inr Failed
      else if s = ''dead'' then Inr Dead
      else Inl (Invalid (''delivery status '' @ dbg s)))"

lemma status_as_str_inject: "status_as_str s = status_as_str t \<longleftrightarrow> s = t"
  by (cases s; cases t) simp_all

lemma status_from_as_str [simp]: "status_from_str dbg (status_as_str s) = Inr s"
  by (cases s) (simp_all add: status_from_str_def)

lemma status_from_str_Inr_iff: "status_from_str dbg t = Inr s \<longleftrightarrow> t = status_as_str s"
  by (cases s) (auto simp: status_from_str_def)

section \<open>Payloads\<close>

text \<open>The shape of \<open>serde_json::Value\<close>; numbers are kept as their text.\<close>

datatype json =
  JNull | JBool bool | JNumber string | JString string | JArray "json list"
| JObject "(string \<times> json) list"

section \<open>Rows\<close>

record consumer =
  co_id :: uuid
  co_tenant_id :: string
  co_uid :: string
  co_name :: "string option"
  co_created_at :: timestamp
  co_updated_at :: timestamp

record event =
  ev_id :: uuid
  ev_tenant_id :: string
  ev_consumer_id :: "uuid option"
  ev_event_type :: string
  ev_payload :: json
  ev_created_at :: timestamp

record endpoint =
  ep_id :: uuid
  ep_tenant_id :: string
  ep_consumer_id :: "uuid option"
  ep_url :: string
  ep_secret :: string
  ep_disabled :: bool
  ep_circuit_state :: string
  ep_circuit_open_until :: "timestamp option"
  ep_consecutive_failures :: int
  ep_event_types :: "string list option"
  ep_created_at :: timestamp
  ep_updated_at :: timestamp

record delivery =
  dl_id :: uuid
  dl_event_id :: uuid
  dl_endpoint_id :: uuid
  dl_tenant_id :: string
  dl_status :: string
  dl_attempt_count :: int
  dl_next_attempt_at :: timestamp
  dl_locked_until :: "timestamp option"
  dl_locked_by :: "string option"
  dl_idempotency_key :: string
  dl_last_error :: "string option"
  dl_created_at :: timestamp
  dl_updated_at :: timestamp

record delivery_attempt =
  da_id :: uuid
  da_delivery_id :: uuid
  da_attempt_number :: int
  da_status_code :: "int option"
  da_response_snippet :: "string option"
  da_error :: "string option"
  da_started_at :: timestamp
  da_finished_at :: timestamp

record dead_letter =
  dd_id :: uuid
  dd_delivery_id :: uuid
  dd_event_id :: uuid
  dd_endpoint_id :: uuid
  dd_reason :: string
  dd_created_at :: timestamp

record api_key =
  ak_id :: uuid
  ak_tenant_id :: string
  ak_key_hash :: string
  ak_created_at :: timestamp

record inbound_source =
  is_id :: uuid
  is_tenant_id :: string
  is_slug :: string
  is_provider :: string
  is_secret :: string
  is_disabled :: bool
  is_created_at :: timestamp
  is_updated_at :: timestamp

record inbound_event =
  ie_id :: uuid
  ie_source_id :: uuid
  ie_tenant_id :: string
  ie_source_event_id :: "string option"
  ie_event_type :: string
  ie_raw_body :: bytes
  ie_event_id :: "uuid option"
  ie_received_at :: timestamp

definition delivery_status_of :: "(string \<Rightarrow> string) \<Rightarrow> delivery \<Rightarrow> delivery_status core_result" where
  "delivery_status_of dbg d = status_from_str dbg (dl_status d)"

section \<open>Event-type subscriptions\<close>

definition matches_pattern :: "string \<Rightarrow> string \<Rightarrow> bool" where
  "matches_pattern event_type p =
     (if p = ''*'' then True
      else case strip_suffix_char p CHR ''*'' of
             Some prefix \<Rightarrow> starts_with event_type prefix
           | None \<Rightarrow> p = event_type)"

definition subscribes_to :: "endpoint \<Rightarrow> string \<Rightarrow> bool" where
  "subscribes_to e event_type =
     (case ep_event_types e of
        None \<Rightarrow> True
      | Some list \<Rightarrow> if list = [] then True else list_ex (matches_pattern event_type) list)"

lemma matches_pattern_iff:
  "matches_pattern t p \<longleftrightarrow> p = t \<or> (\<exists>pre rest. p = pre @ ''*'' \<and> t = pre @ rest)"
proof (cases "strip_suffix_char p CHR ''*''")
  case None
  then have "\<nexists>pre. p = pre @ ''*''" by (simp add: strip_suffix_char_None_iff)
  with None show ?thesis by (auto simp: matches_pattern_def)
next
  case (Some pre)
  then have p: "p = pre @ ''*''" by (simp add: strip_suffix_char_Some_iff)
  show ?thesis
  proof (cases "p = ''*''")
    case True
    then show ?thesis by (simp add: matches_pattern_def)
  next
    case False
    with Some have "matches_pattern t p \<longleftrightarrow> starts_with t pre" by (simp add: matches_pattern_def)
    with p show ?thesis by (auto simp: starts_with_iff)
  qed
qed

text \<open>An endpoint receives an event type exactly when it has no filter (\<open>NULL\<close> or an
  empty list) or one of its patterns is that very type or ends in a star and the text before
  the star is a prefix of the type.\<close>

theorem subscribes_to_spec:
  "subscribes_to e t \<longleftrightarrow>
     (case ep_event_types e of
        None \<Rightarrow> True
      | Some ps \<Rightarrow> ps = [] \<or> (\<exists>p \<in> set ps. p = t \<or> (\<exists>pre rest. p = pre @ ''*'' \<and> t = pre @ rest)))"
  by (auto simp: subscribes_to_def matches_pattern_iff list_ex_iff split: option.splits)

text \<open>The text stored for a delivery status parses back to that status, and no other text
  does: anything else is an \<open>Invalid\<close> error naming the offending text.\<close>

theorem status_text_round_trip:
  "status_from_str dbg t =
     (case List.find (\<lambda>s. status_as_str s = t) enum_class.enum of
        Some s \<Rightarrow> Inr s
      | None \<Rightarrow> Inl (Invalid (''delivery status '' @ dbg t)))"
  by (simp add: status_from_str_def enum_delivery_status_def)

end
