(* ===== verification/Signing.thy ===== *)
theory Signing
  imports Model
begin

text \<open>
  \<open>crates/dropless-core/src/signing.rs\<close>: Svix-compatible signing and verification. The
  cryptographic and encoding crates (\<open>hmac\<close>, \<open>sha2\<close>, \<open>base64\<close>, \<open>hex\<close>) are
  parameters, collected in the record \<open>crypto\<close>; a theorem names what it relies on of
  them. The signed content, the header layout and the token loop of \<open>verify\<close> are the
  program's own and are modelled byte for byte. The theorems: verification accepts a header
  exactly when one of its \<open>v1\<close> tokens decodes to the right tag; a header produced by
  \<open>signature_headers\<close> verifies; the signed content determines id, timestamp and body.
\<close>

record crypto =
  cx_hmac_new :: "bytes \<Rightarrow> string + bytes"      \<comment> \<open>\<open>HmacSha256::new_from_slice\<close>: error text or keyed state\<close>
  cx_hmac_tag :: "bytes \<Rightarrow> bytes \<Rightarrow> bytes"       \<comment> \<open>keyed state, all updates concatenated: the tag\<close>
  cx_b64_encode :: "bytes \<Rightarrow> string"
  cx_b64_decode :: "string \<Rightarrow> string + bytes"
  cx_hex_encode :: "bytes \<Rightarrow> string"
  cx_sha256 :: "bytes \<Rightarrow> bytes"

text \<open>\<open>fill\<close> stands for the 24 bytes drawn by \<open>rand::thread_rng().fill_bytes\<close>.\<close>

definition generate_secret :: "crypto \<Rightarrow> bytes \<Rightarrow> string" where
  "generate_secret X fill = ''whsec_'' @ cx_b64_encode X fill"

record signature_headers =
  sh_id :: string
  sh_timestamp :: string
  sh_signature :: string

definition key_bytes :: "crypto \<Rightarrow> string \<Rightarrow> bytes" where
  "key_bytes X secret =
     (case strip_prefix secret ''whsec_'' of
        Some rest \<Rightarrow> (case cx_b64_decode X rest of Inr k \<Rightarrow> k | Inl _ \<Rightarrow> as_bytes rest)
      | None \<Rightarrow> as_bytes secret)"

text \<open>The five \<open>mac.update\<close> calls feed this text to the MAC.\<close>

definition signed_content :: "string \<Rightarrow> int \<Rightarrow> bytes \<Rightarrow> bytes" where
  "signed_content mid timestamp body =
     as_bytes mid @ as_bytes ''.'' @ as_bytes (show_int timestamp) @ as_bytes ''.'' @ body"

definition sign :: "crypto \<Rightarrow> string \<Rightarrow> string \<Rightarrow> int \<Rightarrow> bytes \<Rightarrow> string core_result" where
  "sign X secret mid timestamp body =
     (case cx_hmac_new X (key_bytes X secret) of
        Inl e \<Rightarrow> Inl (Signing e)
      | Inr mac \<Rightarrow> Inr (cx_b64_encode X (cx_hmac_tag X mac (signed_content mid timestamp body))))"

definition signature_headers_for ::
  "crypto \<Rightarrow> string \<Rightarrow> string \<Rightarrow> int \<Rightarrow> bytes \<Rightarrow> signature_headers core_result" where
  "signature_headers_for X secret mid timestamp body =
     (case sign X secret mid timestamp body of
        Inl e \<Rightarrow> Inl e
      | Inr sig \<Rightarrow> Inr \<lparr>sh_id = mid, sh_timestamp = show_int timestamp, sh_signature = ''v1,'' @ sig\<rparr>)"

text \<open>One pass of the token loop. \<open>verify_slice\<close> succeeds when the tag equals its argument.\<close>

fun verify_tokens ::
  "crypto \<Rightarrow> string \<Rightarrow> string \<Rightarrow> int \<Rightarrow> bytes \<Rightarrow> bytes \<Rightarrow> string list \<Rightarrow> bool core_result" where
  "verify_tokens X secret mid timestamp body expected_bytes [] = Inr False"
| "verify_tokens X secret mid timestamp body expected_bytes (token # tokens) =
     (let continue = verify_tokens X secret mid timestamp body expected_bytes tokens in
      case split_once CHR '','' token of
        None \<Rightarrow> continue
      | Some (version, sig) \<Rightarrow>
          if version \<noteq> ''v1'' then continue
          else case cx_b64_decode X sig of
                 Inl _ \<Rightarrow> continue
               | Inr provided \<Rightarrow>
                   (case cx_hmac_new X (key_bytes X secret) of
                      Inl e \<Rightarrow> Inl (Signing e)
                    | Inr mac \<Rightarrow>
                        if provided = expected_bytes \<and>
                           cx_hmac_tag X mac (signed_content mid timestamp body) = provided
                        then Inr True
                        else continue))"

definition verify ::
  "crypto \<Rightarrow> string \<Rightarrow> string \<Rightarrow> int \<Rightarrow> bytes \<Rightarrow> string \<Rightarrow> bool core_result" where
  "verify X secret mid timestamp body signature_header =
     (case sign X secret mid timestamp body of
        Inl e \<Rightarrow> Inl e
      | Inr expected \<Rightarrow>
          (case cx_b64_decode X expected of
             Inl e \<Rightarrow> Inl (Signing e)
           | Inr expected_bytes \<Rightarrow>
               verify_tokens X secret mid timestamp body expected_bytes
                 (split_whitespace signature_header)))"

section \<open>Verification accepts exactly the right tags\<close>

text \<open>The tag a request must carry.\<close>

definition tag_for :: "crypto \<Rightarrow> bytes \<Rightarrow> string \<Rightarrow> int \<Rightarrow> bytes \<Rightarrow> bytes" where
  "tag_for X mac mid timestamp body = cx_hmac_tag X mac (signed_content mid timestamp body)"

definition good_token :: "crypto \<Rightarrow> bytes \<Rightarrow> string \<Rightarrow> bool" where
  "good_token X tag token =
     (case split_once CHR '','' token of
        Some (version, sig) \<Rightarrow> version = ''v1'' \<and> cx_b64_decode X sig = Inr tag
      | None \<Rightarrow> False)"

lemma good_token_iff:
  "good_token X tag token \<longleftrightarrow>
     (\<exists>sig. split_once CHR '','' token = Some (''v1'', sig) \<and> cx_b64_decode X sig = Inr tag)"
  by (cases "split_once CHR '','' token") (auto simp: good_token_def)

lemma verify_tokens_step:
  assumes mac: "cx_hmac_new X (key_bytes X secret) = Inr mac"
    and tag: "cx_hmac_tag X mac (signed_content mid ts body) = tag"
  shows "verify_tokens X secret mid ts body tag (token # tokens) =
    (if good_token X tag token then Inr True else verify_tokens X secret mid ts body tag tokens)"
proof (cases "\<exists>v sig b. split_once CHR '','' token = Some (v, sig) \<and> cx_b64_decode X sig = Inr b")
  case True
  then obtain v sig b where vs: "split_once CHR '','' token = Some (v, sig)"
    and b: "cx_b64_decode X sig = Inr b" by blast
  show ?thesis
  proof (cases "b = tag")
    case True
    with b have "cx_b64_decode X sig = Inr tag" by simp
    then show ?thesis by (simp add: vs good_token_def mac tag Let_def)
  next
    case False
    then show ?thesis by (simp add: vs b good_token_def mac Let_def)
  qed
next
  case False
  then show ?thesis
    by (simp add: good_token_def Let_def split: option.split prod.split sum.split) blast
qed

lemma verify_tokens_eq:
  assumes "cx_hmac_new X (key_bytes X secret) = Inr mac"
    and "cx_hmac_tag X mac (signed_content mid ts body) = tag"
  shows "verify_tokens X secret mid ts body tag tokens = Inr (list_ex (good_token X tag) tokens)"
  by (induction tokens) (simp_all add: verify_tokens_step [OF assms] del: verify_tokens.simps(2))

text \<open>With a usable key and a base64 codec that decodes what it encodes, the verifier
  accepts a signature header if and only if some white-space separated token of it has the
  form \<open>v1,sig\<close> where \<open>sig\<close> decodes to the HMAC tag of \<open>id.timestamp.body\<close>; tokens
  of another version, without a comma or that do not decode are skipped.\<close>

theorem verify_iff_good_token:
  assumes "cx_hmac_new X (key_bytes X secret) = Inr mac"
    and "\<And>b. cx_b64_decode X (cx_b64_encode X b) = Inr b"
  shows "verify X secret mid ts body header =
    Inr (\<exists>token \<in> set (split_whitespace header). \<exists>sig.
           split_once CHR '','' token = Some (''v1'', sig) \<and>
           cx_b64_decode X sig = Inr (cx_hmac_tag X mac (signed_content mid ts body)))"
proof -
  have "verify X secret mid ts body header =
      Inr (list_ex (good_token X (tag_for X mac mid ts body)) (split_whitespace header))"
    using assms verify_tokens_eq [OF assms(1) tag_for_def [symmetric]]
    by (simp add: verify_def sign_def flip: tag_for_def)
  also have "list_ex (good_token X (tag_for X mac mid ts body)) (split_whitespace header) =
    (\<exists>token \<in> set (split_whitespace header). \<exists>sig.
       split_once CHR '','' token = Some (''v1'', sig) \<and>
       cx_b64_decode X sig = Inr (cx_hmac_tag X mac (signed_content mid ts body)))"
    by (simp add: list_ex_iff good_token_iff tag_for_def)
  finally show ?thesis .
qed

text \<open>An instance of the parameters for the witnesses: hexadecimal text for the codecs, and a
  keyed tag that prefixes the key.\<close>

definition nibble_char :: "nat \<Rightarrow> char" where
  "nibble_char n = char_of (65 + n)"

definition toy_encode :: "bytes \<Rightarrow> string" where
  "toy_encode b = concat (map (\<lambda>w. [nibble_char (unat w div 16), nibble_char (unat w mod 16)]) b)"

definition nibble_val :: "char \<Rightarrow> nat" where
  "nibble_val c = of_char c - 65"

fun toy_decode :: "string \<Rightarrow> string + bytes" where
  "toy_decode [] = Inr []"
| "toy_decode [c] = Inl ''odd length''"
| "toy_decode (c # d # s) =
     (case toy_decode s of
        Inl e \<Rightarrow> Inl e
      | Inr b \<Rightarrow> Inr (word_of_nat (16 * nibble_val c + nibble_val d) # b))"

definition toy_crypto :: crypto where
  "toy_crypto =
     \<lparr>cx_hmac_new = Inr, cx_hmac_tag = (\<lambda>k m. k @ m), cx_b64_encode = toy_encode,
      cx_b64_decode = toy_decode, cx_hex_encode = toy_encode, cx_sha256 = (\<lambda>b. b)\<rparr>"

lemma nibble_val_char: "n < 16 \<Longrightarrow> nibble_val (nibble_char n) = n"
  by (simp add: nibble_val_def nibble_char_def)

lemma nibble_char_neq: "n < 16 \<Longrightarrow> (of_char c :: nat) < 65 \<or> 80 < (of_char c :: nat) \<Longrightarrow> nibble_char n \<noteq> c"
  by (auto simp: nibble_char_def)

lemma toy_decode_encode: "toy_decode (toy_encode b) = Inr b"
proof (induction b)
  case Nil
  then show ?case by (simp add: toy_encode_def)
next
  case (Cons w b)
  have "unat w < 256" by (rule u8_less_256)
  then have "nibble_val (nibble_char (unat w div 16)) = unat w div 16"
    and "nibble_val (nibble_char (unat w mod 16)) = unat w mod 16"
    by (auto intro!: nibble_val_char)
  then have "(word_of_nat (16 * nibble_val (nibble_char (unat w div 16)) +
      nibble_val (nibble_char (unat w mod 16))) :: u8) = w" by simp
  with Cons show ?case by (simp add: toy_encode_def)
qed

lemma toy_encode_visible: "visible (toy_encode b)"
proof (induction b)
  case (Cons w b)
  have "unat w < 256" by (rule u8_less_256)
  then have "unat w div 16 < 16" by simp
  then have "visible_char (nibble_char (unat w div 16))" "visible_char (nibble_char (unat w mod 16))"
    by (auto simp: visible_char_def nibble_char_def)
  with Cons show ?case by (simp add: toy_encode_def)
qed (simp add: toy_encode_def)

lemma toy_crypto_simps [simp]:
  "cx_hmac_new toy_crypto = Inr" "cx_hmac_tag toy_crypto k m = k @ m"
  "cx_b64_encode toy_crypto = toy_encode" "cx_b64_decode toy_crypto = toy_decode"
  "cx_hex_encode toy_crypto = toy_encode" "cx_sha256 toy_crypto b = b"
  by (simp_all add: toy_crypto_def)

theorem verify_iff_good_token_witness:
  "verify toy_crypto ''k'' ''m'' 1 [] ''v0,x v1'' = Inr False"
proof -
  have "split_whitespace ''v0,x v1'' = [''v0,x'', ''v1'']" by code_simp
  then show ?thesis
    using verify_iff_good_token [of toy_crypto "''k''" "key_bytes toy_crypto ''k''" "''m''" 1 "[]" "''v0,x v1''"]
    by (auto simp: toy_decode_encode)
qed

section \<open>Sign, then verify\<close>

text \<open>C30. Round trip: the headers built for a request verify against the same secret, id,
  timestamp and body. Relied on of the crates: HMAC accepts the key, and base64 text is visible
  ASCII that decodes to what was encoded.\<close>

theorem sign_then_verify:
  assumes "cx_hmac_new X (key_bytes X secret) = Inr mac"
    and "\<And>b. cx_b64_decode X (cx_b64_encode X b) = Inr b"
    and "\<And>b. visible (cx_b64_encode X b)"
  shows "\<exists>h. signature_headers_for X secret mid ts body = Inr h \<and> sh_id h = mid \<and>
    sh_timestamp h = show_int ts \<and> verify X secret mid ts body (sh_signature h) = Inr True"
proof -
  let ?sig = "cx_b64_encode X (tag_for X mac mid ts body)"
  have "visible (''v1,'' @ ?sig)" using assms(3) by (simp add: visible_char_def)
  then have w: "split_whitespace (''v1,'' @ ?sig) = [''v1,'' @ ?sig]"
    by (rule split_whitespace_visible) simp
  have "good_token X (tag_for X mac mid ts body) (''v1,'' @ ?sig)"
    using assms(2) split_once_append [of "CHR '',''" "''v1''" ?sig] by (simp add: good_token_def)
  then have "verify X secret mid ts body (''v1,'' @ ?sig) = Inr True"
    using verify_tokens_eq [OF assms(1) tag_for_def [symmetric], of mid ts body "[''v1,'' @ ?sig]"]
      assms(1,2) w
    by (simp add: verify_def sign_def flip: tag_for_def)
  then show ?thesis
    using assms(1) by (simp add: signature_headers_for_def sign_def tag_for_def)
qed

theorem sign_then_verify_witness:
  "\<exists>h. signature_headers_for toy_crypto ''topsecret'' ''msg_1'' 1700000000 [123, 125] = Inr h \<and>
     verify toy_crypto ''topsecret'' ''msg_1'' 1700000000 [123, 125] (sh_signature h) = Inr True"
  using sign_then_verify [of toy_crypto "''topsecret''" "key_bytes toy_crypto ''topsecret''"
      "''msg_1''" 1700000000 "[123, 125]"]
  by (auto simp: toy_decode_encode toy_encode_visible)

section \<open>The signed content is unambiguous\<close>

lemma split_at_dot:
  "d \<notin> set a \<Longrightarrow> d \<notin> set a' \<Longrightarrow> a @ d # b = a' @ d # b' \<Longrightarrow> a = a' \<and> b = b'"
  by (induction a arbitrary: a') (auto simp: Cons_eq_append_conv append_eq_Cons_conv)

lemma dot_notin_as_bytes: "CHR ''.'' \<notin> set s \<Longrightarrow> (46::u8) \<notin> set (as_bytes s)"
proof -
  have "(46::u8) = of_char CHR ''.''" by simp
  moreover assume "CHR ''.'' \<notin> set s"
  ultimately show ?thesis by (simp only: as_bytes_def set_map image_iff of_char_u8_inject) blast
qed

lemma show_int_no_dot: "CHR ''.'' \<notin> set (show_int i)"
  using show_nat_digits [of "nat i"] show_nat_digits [of "nat (- i)"]
  by (auto simp: show_int_def list_all_iff is_digit_def)

text \<open>No two requests share a signed content: for ids without a dot (the delivery ids are
  UUIDs) the bytes that are signed determine the id, the timestamp and the body, so a signature
  for one message is never a signature for another.\<close>

theorem signed_content_injective:
  assumes "CHR ''.'' \<notin> set mid" "CHR ''.'' \<notin> set mid'" "is_i64 ts" "is_i64 ts'"
    and "signed_content mid ts body = signed_content mid' ts' body'"
  shows "mid = mid' \<and> ts = ts' \<and> body = body'"
proof -
  have eq: "as_bytes mid @ 46 # (as_bytes (show_int ts) @ 46 # body) =
      as_bytes mid' @ 46 # (as_bytes (show_int ts') @ 46 # body')"
    using assms(5) by (simp add: signed_content_def as_bytes_def)
  from split_at_dot [OF dot_notin_as_bytes [OF assms(1)] dot_notin_as_bytes [OF assms(2)] eq]
  have mid: "mid = mid'" and
    eq2: "as_bytes (show_int ts) @ 46 # body = as_bytes (show_int ts') @ 46 # body'"
    by (auto simp: as_bytes_inject)
  from split_at_dot [OF dot_notin_as_bytes dot_notin_as_bytes eq2] show_int_no_dot
  have "show_int ts = show_int ts'" and "body = body'" by (auto simp: as_bytes_inject)
  moreover from this have "ts = ts'"
    by (metis assms(3,4) option.inject parse_show_i64)
  ultimately show ?thesis using mid by simp
qed

theorem signed_content_injective_witness:
  "signed_content ''a'' 1 [46, 49] \<noteq> signed_content ''a'' 11 [49]"
proof
  assume eq: "signed_content ''a'' 1 [46, 49] = signed_content ''a'' 11 [49]"
  have i: "is_i64 1" "is_i64 11" by (simp_all add: is_i64_def int_width_defs)
  have d: "CHR ''.'' \<notin> set ''a''" by simp
  from signed_content_injective [OF d d i eq] have "(1::int) = 11" by (rule conjunct2 [THEN conjunct1])
  then show False by simp
qed

end
