(* ===== verification/Circuit.thy ===== *)
theory Circuit
  imports Model
begin

text \<open>
  \<open>crates/dropless-core/src/circuit.rs\<close>: the decision logic of the per-endpoint circuit
  breaker, on the columns persisted with the endpoint. A \<open>chrono::Duration\<close> is its number
  of microseconds.
\<close>

record circuit_policy =
  cp_failure_threshold :: int
  cp_open_duration :: int

definition circuit_policy_default :: circuit_policy where
  "circuit_policy_default = \<lparr>cp_failure_threshold = 5, cp_open_duration = 30 * 1000000\<rparr>"

datatype gate = Allow | Skip timestamp | Probe

record circuit_update =
  cu_state :: string
  cu_open_until :: "timestamp option"
  cu_consecutive_failures :: int

definition skip_or_probe :: "timestamp option \<Rightarrow> timestamp \<Rightarrow> gate" where
  "skip_or_probe open_until now =
     (case open_until of Some until \<Rightarrow> if now < until then Skip until else Probe | None \<Rightarrow> Probe)"

definition gate_at :: "endpoint \<Rightarrow> timestamp \<Rightarrow> gate" where
  "gate_at e now =
     (if ep_circuit_state e = ''open'' then skip_or_probe (ep_circuit_open_until e) now
      else if ep_circuit_state e = ''half_open'' then skip_or_probe (ep_circuit_open_until e) now
      else Allow)"

definition on_success :: circuit_update where
  "on_success = \<lparr>cu_state = ''closed'', cu_open_until = None, cu_consecutive_failures = 0\<rparr>"

definition on_failure :: "endpoint \<Rightarrow> circuit_policy \<Rightarrow> timestamp \<Rightarrow> circuit_update" where
  "on_failure e policy now =
     (let failures = i32_saturating_add (ep_consecutive_failures e) 1 in
      if failures \<ge> cp_failure_threshold policy
      then \<lparr>cu_state = ''open'', cu_open_until = Some (now + cp_open_duration policy),
            cu_consecutive_failures = failures\<rparr>
      else \<lparr>cu_state = ''closed'', cu_open_until = None, cu_consecutive_failures = failures\<rparr>)"

text \<open>Writing an update into the endpoint row (the row function of \<open>store::update_circuit\<close>).\<close>

definition set_circuit :: "timestamp \<Rightarrow> string \<Rightarrow> timestamp option \<Rightarrow> int \<Rightarrow> endpoint \<Rightarrow> endpoint" where
  "set_circuit now st until failures e =
     e\<lparr>ep_circuit_state := st, ep_circuit_open_until := until,
       ep_consecutive_failures := failures, ep_updated_at := now\<rparr>"

definition apply_circuit_update :: "timestamp \<Rightarrow> circuit_update \<Rightarrow> endpoint \<Rightarrow> endpoint" where
  "apply_circuit_update now u e =
     set_circuit now (cu_state u) (cu_open_until u) (cu_consecutive_failures u) e"

lemma set_circuit_simps [simp]:
  "ep_id (set_circuit now st u n e) = ep_id e"
  "ep_tenant_id (set_circuit now st u n e) = ep_tenant_id e"
  "ep_consumer_id (set_circuit now st u n e) = ep_consumer_id e"
  "ep_secret (set_circuit now st u n e) = ep_secret e"
  "ep_url (set_circuit now st u n e) = ep_url e"
  "ep_disabled (set_circuit now st u n e) = ep_disabled e"
  "ep_event_types (set_circuit now st u n e) = ep_event_types e"
  "ep_circuit_state (set_circuit now st u n e) = st"
  "ep_circuit_open_until (set_circuit now st u n e) = u"
  "ep_consecutive_failures (set_circuit now st u n e) = n"
  by (simp_all add: set_circuit_def)

section \<open>Runs of outcomes\<close>

text \<open>The outcomes of a sequence of attempts on one endpoint, applied one after the other.\<close>

fun run_failures :: "circuit_policy \<Rightarrow> timestamp list \<Rightarrow> endpoint \<Rightarrow> endpoint" where
  "run_failures pol [] e = e"
| "run_failures pol (t # ts) e =
     run_failures pol ts (apply_circuit_update t (on_failure e pol t) e)"

lemma run_failures_snoc:
  "run_failures pol (ts @ [t]) e =
     (let e' = run_failures pol ts e in apply_circuit_update t (on_failure e' pol t) e')"
  by (induction ts arbitrary: e) (simp_all add: Let_def)

lemma failures_on_failure:
  "cu_consecutive_failures (on_failure e pol t) = i32_saturating_add (ep_consecutive_failures e) 1"
  by (simp add: on_failure_def Let_def)

lemma run_failures_count:
  assumes "ep_consecutive_failures e = 0"
  shows "ep_consecutive_failures (run_failures pol ts e) = min i32_max (int (length ts))"
proof (induction ts rule: rev_induct)
  case Nil
  then show ?case using assms by (simp add: int_width_defs)
next
  case (snoc t ts)
  then show ?case
    by (auto simp: run_failures_snoc Let_def apply_circuit_update_def failures_on_failure
        i32_saturating_add_def int_width_defs)
qed

text \<open>C34. From a fresh endpoint, after any number of consecutive failures the breaker lets
  deliveries through exactly while fewer than \<open>failure_threshold\<close> failures have happened;
  from the threshold on it skips every delivery until \<open>open_duration\<close> after the last
  failure and then offers a single probe; one success closes it again.\<close>

theorem breaker_opens_at_threshold:
  assumes "ep_consecutive_failures e = 0" "0 < cp_failure_threshold pol" "is_i32 (cp_failure_threshold pol)"
    and "e' = run_failures pol (ts @ [t]) e"
  shows "gate_at e' now =
      (if int (length ts) + 1 < cp_failure_threshold pol then Allow
       else if now < t + cp_open_duration pol then Skip (t + cp_open_duration pol)
       else Probe)
    \<and> gate_at (apply_circuit_update now on_success e') now' = Allow"
proof -
  let ?f = "run_failures pol ts e"
  have n: "i32_saturating_add (ep_consecutive_failures ?f) 1 = min i32_max (int (length ts) + 1)"
    using run_failures_count [OF assms(1), of pol ts]
    by (auto simp: i32_saturating_add_def int_width_defs)
  have "min i32_max (int (length ts) + 1) \<ge> cp_failure_threshold pol \<longleftrightarrow>
        int (length ts) + 1 \<ge> cp_failure_threshold pol"
    using assms(3) by (auto simp: is_i32_def)
  with n show ?thesis
    by (simp add: assms(4) run_failures_snoc Let_def apply_circuit_update_def on_failure_def
        on_success_def gate_at_def skip_or_probe_def)
qed

definition sample_endpoint :: endpoint where
  "sample_endpoint =
     \<lparr>ep_id = 7, ep_tenant_id = ''t1'', ep_consumer_id = None, ep_url = ''http://x'',
      ep_secret = ''topsecret'', ep_disabled = False, ep_circuit_state = ''closed'',
      ep_circuit_open_until = None, ep_consecutive_failures = 0, ep_event_types = None,
      ep_created_at = 0, ep_updated_at = 0\<rparr>"

theorem breaker_opens_at_threshold_witness:
  "gate_at (run_failures circuit_policy_default [1, 2, 3, 4, 5] sample_endpoint) 6 = Skip 30000005"
proof -
  have "int (length [1, 2, 3, 4 :: int]) + 1 = 5" by simp
  then show ?thesis
    using breaker_opens_at_threshold [of sample_endpoint circuit_policy_default _ "[1, 2, 3, 4]" 5 6]
    by (simp add: sample_endpoint_def circuit_policy_default_def is_i32_def int_width_defs)
qed

end
