(* ===== verification/Store.thy ===== *)
theory Store
  imports Complex_Main Circuit
begin

text \<open>
  \<open>crates/dropless-core/src/store.rs\<close> over the schema of \<open>migrations/*.sql\<close>. The
  database is a record of tables, a table the list of its rows in insertion order. Every
  statement is a function \<open>db \<Rightarrow> error or (result, db)\<close>: an \<open>INSERT\<close> checks the primary
  key, the unique constraints and the foreign keys of the schema and fails with the database
  error otherwise; an \<open>UPDATE \<dots> WHERE\<close> rewrites the rows that satisfy its condition, where
  a comparison with \<open>NULL\<close> is not true; a \<open>SELECT \<dots> ORDER BY\<close> sorts stably.
  \<open>now()\<close>, the value of \<open>Uuid::now_v7()\<close> and the text of an id (\<open>Uuid::to_string\<close>)
  are arguments, named \<open>now\<close>, \<open>fresh\<close> and \<open>ushow\<close>. Losing the connection, and a
  statement the server refuses for a reason outside the schema (such as a NUL byte in a text
  of a request), is a fault of the callers' \<open>sql\<close> and \<open>tsql\<close> (theory \<open>Effects\<close>).
\<close>

section \<open>Tables and statements\<close>

record db =
  t_endpoints :: "endpoint list"
  t_events :: "event list"
  t_deliveries :: "delivery list"
  t_attempts :: "delivery_attempt list"
  t_dead_letters :: "dead_letter list"
  t_api_keys :: "api_key list"
  t_sources :: "inbound_source list"
  t_inbound :: "inbound_event list"
  t_consumers :: "consumer list"

definition empty_db :: db where
  "empty_db = \<lparr>t_endpoints = [], t_events = [], t_deliveries = [], t_attempts = [],
     t_dead_letters = [], t_api_keys = [], t_sources = [], t_inbound = [], t_consumers = []\<rparr>"

type_synonym 'a stmt = "db \<Rightarrow> ('a \<times> db) core_result"

definition unique_violation :: "string \<Rightarrow> 'a core_result" where
  "unique_violation c = Inl (Db (Unique_violation c))"

definition fk_violation :: "string \<Rightarrow> 'a core_result" where
  "fk_violation c = Inl (Db (Foreign_key_violation c))"

definition has_key :: "('r \<Rightarrow> 'k) \<Rightarrow> 'k \<Rightarrow> 'r list \<Rightarrow> bool" where
  "has_key key k rows = list_ex (\<lambda>r. key r = k) rows"

text \<open>A nullable foreign key: \<open>NULL\<close> references nothing.\<close>

definition has_key_opt :: "('r \<Rightarrow> 'k) \<Rightarrow> 'k option \<Rightarrow> 'r list \<Rightarrow> bool" where
  "has_key_opt key k rows = (case k of None \<Rightarrow> True | Some k' \<Rightarrow> has_key key k' rows)"

definition coalesce :: "'a option \<Rightarrow> 'a \<Rightarrow> 'a" where
  "coalesce x y = (case x of Some v \<Rightarrow> v | None \<Rightarrow> y)"

definition coalesce_opt :: "'a option \<Rightarrow> 'a option \<Rightarrow> 'a option" where
  "coalesce_opt x y = (case x of Some v \<Rightarrow> Some v | None \<Rightarrow> y)"

definition limit_offset :: "int \<Rightarrow> int \<Rightarrow> 'r list \<Rightarrow> 'r list core_result" where
  "limit_offset limit offset rows =
     (if limit < 0 then Inl (Db (Other_db_error ''LIMIT must not be negative''))
      else if offset < 0 then Inl (Db (Other_db_error ''OFFSET must not be negative''))
      else Inr (take (nat limit) (drop (nat offset) rows)))"

lemma has_key_iff [simp]: "has_key key k rows \<longleftrightarrow> k \<in> key ` set rows"
  by (auto simp: has_key_def list_ex_iff)

section \<open>Endpoints and consumers\<close>

definition create_endpoint ::
  "timestamp \<Rightarrow> uuid \<Rightarrow> string \<Rightarrow> uuid option \<Rightarrow> string \<Rightarrow> string \<Rightarrow> string list option \<Rightarrow> endpoint stmt" where
  "create_endpoint now fresh tenant_id consumer_id url secret event_types db =
     (let row = \<lparr>ep_id = fresh, ep_tenant_id = tenant_id, ep_consumer_id = consumer_id, ep_url = url,
                 ep_secret = secret, ep_disabled = False, ep_circuit_state = ''closed'',
                 ep_circuit_open_until = None, ep_consecutive_failures = 0,
                 ep_event_types = event_types, ep_created_at = now, ep_updated_at = now\<rparr> in
      if has_key ep_id fresh (t_endpoints db) then unique_violation ''endpoints_pkey''
      else if \<not> has_key_opt co_id consumer_id (t_consumers db)
      then fk_violation ''endpoints_consumer_id_fkey''
      else Inr (row, db\<lparr>t_endpoints := t_endpoints db @ [row]\<rparr>))"

definition active_endpoints_for_scope :: "string \<Rightarrow> uuid option \<Rightarrow> endpoint list stmt" where
  "active_endpoints_for_scope tenant_id consumer_id db =
     Inr (sort_key ep_created_at
            (filter (\<lambda>e. ep_tenant_id e = tenant_id \<and> \<not> ep_disabled e \<and> ep_consumer_id e = consumer_id)
               (t_endpoints db)), db)"

definition list_endpoints :: "string \<Rightarrow> endpoint list stmt" where
  "list_endpoints tenant_id db =
     Inr (sort_key ep_created_at (filter (\<lambda>e. ep_tenant_id e = tenant_id) (t_endpoints db)), db)"

definition list_endpoints_for_consumer :: "uuid \<Rightarrow> endpoint list stmt" where
  "list_endpoints_for_consumer consumer_id db =
     Inr (sort_key ep_created_at (filter (\<lambda>e. ep_consumer_id e = Some consumer_id) (t_endpoints db)), db)"

record consumer_summary =
  cs_id :: uuid
  cs_tenant_id :: string
  cs_uid :: string
  cs_name :: "string option"
  cs_endpoints :: int
  cs_events :: int
  cs_created_at :: timestamp

text \<open>\<open>ON CONFLICT (tenant_id, uid) DO UPDATE\<close>: the conflicting row is relabelled and returned.\<close>

definition relabel_consumer :: "timestamp \<Rightarrow> string option \<Rightarrow> consumer \<Rightarrow> consumer" where
  "relabel_consumer now name c =
     c\<lparr>co_name := coalesce_opt name (co_name c), co_updated_at := now\<rparr>"

definition create_consumer ::
  "timestamp \<Rightarrow> uuid \<Rightarrow> string \<Rightarrow> string \<Rightarrow> string option \<Rightarrow> consumer stmt" where
  "create_consumer now fresh tenant_id uid name db =
     (let row = \<lparr>co_id = fresh, co_tenant_id = tenant_id, co_uid = uid, co_name = name,
                 co_created_at = now, co_updated_at = now\<rparr>;
          clash = (\<lambda>c. co_tenant_id c = tenant_id \<and> co_uid c = uid) in
      case List.find clash (t_consumers db) of
        Some c \<Rightarrow>
          Inr (relabel_consumer now name c,
               db\<lparr>t_consumers := update_where clash (relabel_consumer now name) (t_consumers db)\<rparr>)
      | None \<Rightarrow>
          if has_key co_id fresh (t_consumers db) then unique_violation ''consumers_pkey''
          else Inr (row, db\<lparr>t_consumers := t_consumers db @ [row]\<rparr>))"

definition get_consumer :: "string \<Rightarrow> string \<Rightarrow> consumer option stmt" where
  "get_consumer tenant_id uid db =
     Inr (List.find (\<lambda>c. co_tenant_id c = tenant_id \<and> co_uid c = uid) (t_consumers db), db)"

definition list_consumers :: "string \<Rightarrow> consumer_summary list stmt" where
  "list_consumers tenant_id db =
     Inr (map (\<lambda>c. \<lparr>cs_id = co_id c, cs_tenant_id = co_tenant_id c, cs_uid = co_uid c, cs_name = co_name c,
                    cs_endpoints = int (rows_affected (\<lambda>e. ep_consumer_id e = Some (co_id c)) (t_endpoints db)),
                    cs_events = int (rows_affected (\<lambda>e. ev_consumer_id e = Some (co_id c)) (t_events db)),
                    cs_created_at = co_created_at c\<rparr>)
            (sort_key (\<lambda>c. - co_created_at c) (filter (\<lambda>c. co_tenant_id c = tenant_id) (t_consumers db))), db)"

definition patch_endpoint ::
  "timestamp \<Rightarrow> string option \<Rightarrow> bool option \<Rightarrow> string list option \<Rightarrow> endpoint \<Rightarrow> endpoint" where
  "patch_endpoint now url disabled event_types e =
     e\<lparr>ep_url := coalesce url (ep_url e), ep_disabled := coalesce disabled (ep_disabled e),
       ep_event_types := coalesce_opt event_types (ep_event_types e), ep_updated_at := now\<rparr>"

definition update_endpoint ::
  "timestamp \<Rightarrow> uuid \<Rightarrow> string \<Rightarrow> string option \<Rightarrow> bool option \<Rightarrow> string list option \<Rightarrow> endpoint option stmt" where
  "update_endpoint now eid tenant_id url disabled event_types db =
     (let P = (\<lambda>e. ep_id e = eid \<and> ep_tenant_id e = tenant_id) in
      Inr (map_option (patch_endpoint now url disabled event_types) (List.find P (t_endpoints db)),
           db\<lparr>t_endpoints := update_where P (patch_endpoint now url disabled event_types) (t_endpoints db)\<rparr>))"

section \<open>The inbound gateway\<close>

definition create_inbound_source ::
  "timestamp \<Rightarrow> uuid \<Rightarrow> string \<Rightarrow> string \<Rightarrow> string \<Rightarrow> string \<Rightarrow> inbound_source stmt" where
  "create_inbound_source now fresh tenant_id slug provider secret db =
     (let row = \<lparr>is_id = fresh, is_tenant_id = tenant_id, is_slug = slug, is_provider = provider,
                 is_secret = secret, is_disabled = False, is_created_at = now, is_updated_at = now\<rparr> in
      if has_key is_id fresh (t_sources db) then unique_violation ''inbound_sources_pkey''
      else if has_key is_slug slug (t_sources db) then unique_violation ''inbound_sources_slug_key''
      else Inr (row, db\<lparr>t_sources := t_sources db @ [row]\<rparr>))"

definition get_inbound_source_by_slug :: "string \<Rightarrow> inbound_source option stmt" where
  "get_inbound_source_by_slug slug db = Inr (List.find (\<lambda>s. is_slug s = slug) (t_sources db), db)"

definition list_inbound_sources :: "string \<Rightarrow> inbound_source list stmt" where
  "list_inbound_sources tenant_id db =
     Inr (sort_key is_created_at (filter (\<lambda>s. is_tenant_id s = tenant_id) (t_sources db)), db)"

text \<open>\<open>ON CONFLICT (source_id, source_event_id) WHERE source_event_id IS NOT NULL DO NOTHING\<close>.\<close>

definition dedup_clash :: "uuid \<Rightarrow> string option \<Rightarrow> inbound_event \<Rightarrow> bool" where
  "dedup_clash source_id source_event_id i \<longleftrightarrow>
     source_event_id \<noteq> None \<and> ie_source_id i = source_id \<and> ie_source_event_id i = source_event_id"

definition insert_inbound_event ::
  "timestamp \<Rightarrow> uuid \<Rightarrow> uuid \<Rightarrow> string \<Rightarrow> string option \<Rightarrow> string \<Rightarrow> bytes \<Rightarrow> uuid option stmt" where
  "insert_inbound_event now iid source_id tenant_id source_event_id event_type raw_body db =
     (let row = \<lparr>ie_id = iid, ie_source_id = source_id, ie_tenant_id = tenant_id,
                 ie_source_event_id = source_event_id, ie_event_type = event_type,
                 ie_raw_body = raw_body, ie_event_id = None, ie_received_at = now\<rparr> in
      if list_ex (dedup_clash source_id source_event_id) (t_inbound db) then Inr (None, db)
      else if has_key ie_id iid (t_inbound db) then unique_violation ''inbound_events_pkey''
      else if \<not> has_key is_id source_id (t_sources db) then fk_violation ''inbound_events_source_id_fkey''
      else Inr (Some iid, db\<lparr>t_inbound := t_inbound db @ [row]\<rparr>))"

definition link_inbound_event :: "uuid \<Rightarrow> uuid \<Rightarrow> unit stmt" where
  "link_inbound_event inbound_id event_id db =
     (if has_key ie_id inbound_id (t_inbound db) \<and> \<not> has_key ev_id event_id (t_events db)
      then fk_violation ''inbound_events_event_id_fkey''
      else Inr ((), db\<lparr>t_inbound := update_where (\<lambda>i. ie_id i = inbound_id)
                         (\<lambda>i. i\<lparr>ie_event_id := Some event_id\<rparr>) (t_inbound db)\<rparr>))"

section \<open>Events and deliveries\<close>

definition insert_event ::
  "timestamp \<Rightarrow> uuid \<Rightarrow> string \<Rightarrow> uuid option \<Rightarrow> string \<Rightarrow> json \<Rightarrow> event stmt" where
  "insert_event now eid tenant_id consumer_id event_type payload db =
     (let row = \<lparr>ev_id = eid, ev_tenant_id = tenant_id, ev_consumer_id = consumer_id,
                 ev_event_type = event_type, ev_payload = payload, ev_created_at = now\<rparr> in
      if has_key ev_id eid (t_events db) then unique_violation ''events_pkey''
      else if \<not> has_key_opt co_id consumer_id (t_consumers db)
      then fk_violation ''events_consumer_id_fkey''
      else Inr (row, db\<lparr>t_events := t_events db @ [row]\<rparr>))"

definition new_delivery ::
  "(uuid \<Rightarrow> string) \<Rightarrow> timestamp \<Rightarrow> uuid \<Rightarrow> uuid \<Rightarrow> uuid \<Rightarrow> string \<Rightarrow> delivery" where
  "new_delivery ushow now did event_id endpoint_id tenant_id =
     \<lparr>dl_id = did, dl_event_id = event_id, dl_endpoint_id = endpoint_id, dl_tenant_id = tenant_id,
      dl_status = ''pending'', dl_attempt_count = 0, dl_next_attempt_at = now, dl_locked_until = None,
      dl_locked_by = None, dl_idempotency_key = ushow did, dl_last_error = None, dl_created_at = now,
      dl_updated_at = now\<rparr>"

definition insert_delivery ::
  "(uuid \<Rightarrow> string) \<Rightarrow> timestamp \<Rightarrow> uuid \<Rightarrow> uuid \<Rightarrow> uuid \<Rightarrow> string \<Rightarrow> unit stmt" where
  "insert_delivery ushow now did event_id endpoint_id tenant_id db =
     (if has_key dl_id did (t_deliveries db) then unique_violation ''deliveries_pkey''
      else if list_ex (\<lambda>d. dl_event_id d = event_id \<and> dl_endpoint_id d = endpoint_id) (t_deliveries db)
      then unique_violation ''deliveries_event_id_endpoint_id_key''
      else if \<not> has_key ev_id event_id (t_events db) then fk_violation ''deliveries_event_id_fkey''
      else if \<not> has_key ep_id endpoint_id (t_endpoints db) then fk_violation ''deliveries_endpoint_id_fkey''
      else Inr ((), db\<lparr>t_deliveries :=
                         t_deliveries db @ [new_delivery ushow now did event_id endpoint_id tenant_id]\<rparr>))"

definition list_events :: "string \<Rightarrow> int \<Rightarrow> int \<Rightarrow> event list stmt" where
  "list_events tenant_id limit offset db =
     map_sum id (\<lambda>rows. (rows, db))
       (limit_offset limit offset
          (sort_key (\<lambda>e. - ev_created_at e) (filter (\<lambda>e. ev_tenant_id e = tenant_id) (t_events db))))"

definition list_events_for_consumer :: "uuid \<Rightarrow> int \<Rightarrow> int \<Rightarrow> event list stmt" where
  "list_events_for_consumer consumer_id limit offset db =
     map_sum id (\<lambda>rows. (rows, db))
       (limit_offset limit offset
          (sort_key (\<lambda>e. - ev_created_at e)
             (filter (\<lambda>e. ev_consumer_id e = Some consumer_id) (t_events db))))"

definition get_event :: "uuid \<Rightarrow> event option stmt" where
  "get_event eid db = Inr (List.find (\<lambda>e. ev_id e = eid) (t_events db), db)"

definition get_endpoint :: "uuid \<Rightarrow> endpoint option stmt" where
  "get_endpoint eid db = Inr (List.find (\<lambda>e. ep_id e = eid) (t_endpoints db), db)"

definition get_delivery :: "uuid \<Rightarrow> delivery option stmt" where
  "get_delivery did db = Inr (List.find (\<lambda>d. dl_id d = did) (t_deliveries db), db)"

definition deliveries_for_event :: "uuid \<Rightarrow> delivery list stmt" where
  "deliveries_for_event event_id db =
     Inr (sort_key dl_created_at (filter (\<lambda>d. dl_event_id d = event_id) (t_deliveries db)), db)"

definition attempts_for_delivery :: "uuid \<Rightarrow> delivery_attempt list stmt" where
  "attempts_for_delivery delivery_id db =
     Inr (sort_key da_attempt_number (filter (\<lambda>a. da_delivery_id a = delivery_id) (t_attempts db)), db)"

section \<open>Claiming\<close>

definition due :: "timestamp \<Rightarrow> delivery \<Rightarrow> bool" where
  "due now d \<longleftrightarrow>
     dl_status d \<in> {''pending'', ''failed''} \<and> dl_next_attempt_at d \<le> now \<or>
     dl_status d = ''in_progress'' \<and> (case dl_locked_until d of Some u \<Rightarrow> u < now | None \<Rightarrow> False)"

definition seconds :: "int \<Rightarrow> int" where
  "seconds s = s * 1000000"

definition claim_row :: "timestamp \<Rightarrow> string \<Rightarrow> int \<Rightarrow> delivery \<Rightarrow> delivery" where
  "claim_row now worker_id lock_secs d =
     d\<lparr>dl_status := ''in_progress'', dl_locked_by := Some worker_id,
       dl_locked_until := Some (now + seconds lock_secs), dl_updated_at := now\<rparr>"

text \<open>The subquery: due rows that no other transaction holds locked (\<open>SKIP LOCKED\<close>), in
  \<open>next_attempt_at\<close> order, at most \<open>batch\<close> of them. \<open>row_locked\<close> tells which rows other
  transactions hold at that moment.\<close>

definition claimable :: "timestamp \<Rightarrow> (uuid \<Rightarrow> bool) \<Rightarrow> int \<Rightarrow> delivery list \<Rightarrow> delivery list" where
  "claimable now row_locked batch rows =
     take (nat batch)
       (sort_key dl_next_attempt_at (filter (\<lambda>d. due now d \<and> \<not> row_locked (dl_id d)) rows))"

definition claim_due_deliveries ::
  "timestamp \<Rightarrow> (uuid \<Rightarrow> bool) \<Rightarrow> string \<Rightarrow> int \<Rightarrow> int \<Rightarrow> delivery list stmt" where
  "claim_due_deliveries now row_locked worker_id batch lock_secs db =
     (if batch < 0 then Inl (Db (Other_db_error ''LIMIT must not be negative''))
      else
        let ids = map dl_id (claimable now row_locked batch (t_deliveries db));
            P = (\<lambda>d. List.member ids (dl_id d));
            rows = update_where P (claim_row now worker_id lock_secs) (t_deliveries db)
        in Inr (filter P rows, db\<lparr>t_deliveries := rows\<rparr>))"

section \<open>Outcomes\<close>

text \<open>A \<open>text\<close> column cannot hold a NUL byte (\<open>migrations/0003_inbound_raw_bytea.sql\<close>): the
  server refuses the parameter before it runs the statement. The response snippet is the one
  text that comes from outside unchecked, so the \<open>INSERT\<close> of the attempt has the check.\<close>

definition text_ok :: "string \<Rightarrow> bool" where
  "text_ok s \<longleftrightarrow> \<not> List.member s CHR 0x00"

definition text_ok_opt :: "string option \<Rightarrow> bool" where
  "text_ok_opt s = (case s of None \<Rightarrow> True | Some s' \<Rightarrow> text_ok s')"

definition invalid_text :: "'a core_result" where
  "invalid_text = Inl (Db (Other_db_error ''invalid byte sequence for encoding UTF8: 0x00''))"

definition record_attempt ::
  "uuid \<Rightarrow> uuid \<Rightarrow> int \<Rightarrow> int option \<Rightarrow> string option \<Rightarrow> string option \<Rightarrow> timestamp \<Rightarrow> timestamp \<Rightarrow> unit stmt" where
  "record_attempt fresh delivery_id attempt_number status_code response_snippet err started_at finished_at db =
     (let row = \<lparr>da_id = fresh, da_delivery_id = delivery_id, da_attempt_number = attempt_number,
                 da_status_code = status_code, da_response_snippet = response_snippet, da_error = err,
                 da_started_at = started_at, da_finished_at = finished_at\<rparr> in
      if \<not> text_ok_opt response_snippet \<or> \<not> text_ok_opt err then invalid_text
      else if has_key da_id fresh (t_attempts db) then unique_violation ''delivery_attempts_pkey''
      else if \<not> has_key dl_id delivery_id (t_deliveries db)
      then fk_violation ''delivery_attempts_delivery_id_fkey''
      else Inr ((), db\<lparr>t_attempts := t_attempts db @ [row]\<rparr>))"

text \<open>The ownership guard \<open>locked_by = worker AND locked_until > now()\<close> and the write under it.\<close>

definition holds_lease :: "timestamp \<Rightarrow> string \<Rightarrow> delivery \<Rightarrow> bool" where
  "holds_lease now worker_id d \<longleftrightarrow>
     dl_locked_by d = Some worker_id \<and> (case dl_locked_until d of Some u \<Rightarrow> u > now | None \<Rightarrow> False)"

definition lease_update ::
  "timestamp \<Rightarrow> uuid \<Rightarrow> string \<Rightarrow> (delivery \<Rightarrow> delivery) \<Rightarrow> db \<Rightarrow> nat \<times> db" where
  "lease_update now did worker_id f db =
     (let P = (\<lambda>d. dl_id d = did \<and> holds_lease now worker_id d) in
      (rows_affected P (t_deliveries db),
       db\<lparr>t_deliveries := update_where P f (t_deliveries db)\<rparr>))"

definition succeeded_row :: "timestamp \<Rightarrow> int \<Rightarrow> delivery \<Rightarrow> delivery" where
  "succeeded_row now attempt_count d =
     d\<lparr>dl_status := ''succeeded'', dl_attempt_count := attempt_count, dl_locked_by := None,
       dl_locked_until := None, dl_last_error := None, dl_updated_at := now\<rparr>"

definition mark_succeeded :: "timestamp \<Rightarrow> uuid \<Rightarrow> string \<Rightarrow> int \<Rightarrow> bool stmt" where
  "mark_succeeded now did worker_id attempt_count db =
     (let (n, db') = lease_update now did worker_id (succeeded_row now attempt_count) db
      in Inr (n = 1, db'))"

definition failed_row :: "timestamp \<Rightarrow> int \<Rightarrow> timestamp \<Rightarrow> string \<Rightarrow> delivery \<Rightarrow> delivery" where
  "failed_row now attempt_count next_attempt_at err d =
     d\<lparr>dl_status := ''failed'', dl_attempt_count := attempt_count, dl_next_attempt_at := next_attempt_at,
       dl_last_error := Some err, dl_locked_by := None, dl_locked_until := None, dl_updated_at := now\<rparr>"

definition mark_failed ::
  "timestamp \<Rightarrow> uuid \<Rightarrow> string \<Rightarrow> int \<Rightarrow> timestamp \<Rightarrow> string \<Rightarrow> bool stmt" where
  "mark_failed now did worker_id attempt_count next_attempt_at err db =
     (let (n, db') = lease_update now did worker_id (failed_row now attempt_count next_attempt_at err) db
      in Inr (n = 1, db'))"

definition deferred_row :: "timestamp \<Rightarrow> timestamp \<Rightarrow> delivery \<Rightarrow> delivery" where
  "deferred_row now next_attempt_at d =
     d\<lparr>dl_status := ''failed'', dl_next_attempt_at := next_attempt_at, dl_locked_by := None,
       dl_locked_until := None, dl_updated_at := now\<rparr>"

definition defer_delivery :: "timestamp \<Rightarrow> uuid \<Rightarrow> string \<Rightarrow> timestamp \<Rightarrow> bool stmt" where
  "defer_delivery now did worker_id next_attempt_at db =
     (let (n, db') = lease_update now did worker_id (deferred_row now next_attempt_at) db
      in Inr (n = 1, db'))"

definition dead_row :: "timestamp \<Rightarrow> string \<Rightarrow> delivery \<Rightarrow> delivery" where
  "dead_row now reason d =
     d\<lparr>dl_status := ''dead'', dl_last_error := Some reason, dl_locked_by := None,
       dl_locked_until := None, dl_updated_at := now\<rparr>"

definition mark_dead_on :: "timestamp \<Rightarrow> uuid \<Rightarrow> delivery \<Rightarrow> string \<Rightarrow> string \<Rightarrow> bool stmt" where
  "mark_dead_on now fresh delivery worker_id reason db =
     (let (n, db') = lease_update now (dl_id delivery) worker_id (dead_row now reason) db;
          row = \<lparr>dd_id = fresh, dd_delivery_id = dl_id delivery, dd_event_id = dl_event_id delivery,
                 dd_endpoint_id = dl_endpoint_id delivery, dd_reason = reason, dd_created_at = now\<rparr> in
      if n = 0 then Inr (False, db')
      else if has_key dd_id fresh (t_dead_letters db') then unique_violation ''dead_letters_pkey''
      else if \<not> has_key dl_id (dl_id delivery) (t_deliveries db')
      then fk_violation ''dead_letters_delivery_id_fkey''
      else Inr (True, db'\<lparr>t_dead_letters := t_dead_letters db' @ [row]\<rparr>))"

definition update_circuit ::
  "timestamp \<Rightarrow> uuid \<Rightarrow> string \<Rightarrow> timestamp option \<Rightarrow> int \<Rightarrow> unit stmt" where
  "update_circuit now endpoint_id st open_until consecutive_failures db =
     Inr ((), db\<lparr>t_endpoints := update_where (\<lambda>e. ep_id e = endpoint_id)
                  (set_circuit now st open_until consecutive_failures) (t_endpoints db)\<rparr>)"

definition probe_free :: "timestamp \<Rightarrow> endpoint \<Rightarrow> bool" where
  "probe_free now e \<longleftrightarrow>
     ep_circuit_state e \<in> {''open'', ''half_open''} \<and>
     (case ep_circuit_open_until e of None \<Rightarrow> True | Some u \<Rightarrow> u \<le> now)"

definition half_open_row :: "timestamp \<Rightarrow> int \<Rightarrow> endpoint \<Rightarrow> endpoint" where
  "half_open_row now lease_secs e =
     e\<lparr>ep_circuit_state := ''half_open'', ep_circuit_open_until := Some (now + seconds lease_secs),
       ep_updated_at := now\<rparr>"

definition try_acquire_probe :: "timestamp \<Rightarrow> uuid \<Rightarrow> int \<Rightarrow> bool stmt" where
  "try_acquire_probe now endpoint_id lease_secs db =
     (let P = (\<lambda>e. ep_id e = endpoint_id \<and> probe_free now e) in
      Inr (rows_affected P (t_endpoints db) = 1,
           db\<lparr>t_endpoints := update_where P (half_open_row now lease_secs) (t_endpoints db)\<rparr>))"

definition replay_row :: "timestamp \<Rightarrow> delivery \<Rightarrow> delivery" where
  "replay_row now d =
     d\<lparr>dl_status := ''pending'', dl_next_attempt_at := now, dl_locked_by := None,
       dl_locked_until := None, dl_updated_at := now\<rparr>"

definition reset_for_replay :: "timestamp \<Rightarrow> uuid \<Rightarrow> bool stmt" where
  "reset_for_replay now delivery_id db =
     (let P = (\<lambda>d. dl_id d = delivery_id) in
      Inr (rows_affected P (t_deliveries db) > 0,
           db\<lparr>t_deliveries := update_where P (replay_row now) (t_deliveries db)\<rparr>))"

section \<open>Counters, API keys\<close>

definition status_counts :: "(string \<times> int) list stmt" where
  "status_counts db =
     Inr (map (\<lambda>s. (s, int (rows_affected (\<lambda>d. dl_status d = s) (t_deliveries db))))
            (remdups (map dl_status (t_deliveries db))), db)"

definition total_events :: "int stmt" where
  "total_events db = Inr (int (length (t_events db)), db)"

definition tenant_for_api_key :: "string \<Rightarrow> string option stmt" where
  "tenant_for_api_key key_hash db =
     Inr (map_option ak_tenant_id (List.find (\<lambda>k. ak_key_hash k = key_hash) (t_api_keys db)), db)"

definition insert_api_key :: "timestamp \<Rightarrow> uuid \<Rightarrow> string \<Rightarrow> string \<Rightarrow> unit stmt" where
  "insert_api_key now fresh tenant_id key_hash db =
     (let row = \<lparr>ak_id = fresh, ak_tenant_id = tenant_id, ak_key_hash = key_hash, ak_created_at = now\<rparr> in
      if has_key ak_key_hash key_hash (t_api_keys db) then Inr ((), db)
      else if has_key ak_id fresh (t_api_keys db) then unique_violation ''api_keys_pkey''
      else Inr ((), db\<lparr>t_api_keys := t_api_keys db @ [row]\<rparr>))"

text \<open>\<open>delivery_status\<close>: the parsed status.\<close>

definition parsed_status :: "(string \<Rightarrow> string) \<Rightarrow> delivery \<Rightarrow> delivery_status core_result" where
  "parsed_status dbg d = delivery_status_of dbg d"

section \<open>Operator queries\<close>

record tenant_stat =
  ts_tenant_id :: string
  ts_endpoints :: int
  ts_events :: int
  ts_succeeded :: int
  ts_failed :: int
  ts_dead :: int

definition tenant_stat_of :: "db \<Rightarrow> string \<Rightarrow> tenant_stat" where
  "tenant_stat_of db t =
     (let with_status = (\<lambda>s. int (rows_affected (\<lambda>d. dl_tenant_id d = t \<and> dl_status d = s) (t_deliveries db))) in
      \<lparr>ts_tenant_id = t,
       ts_endpoints = int (rows_affected (\<lambda>e. ep_tenant_id e = t) (t_endpoints db)),
       ts_events = int (rows_affected (\<lambda>e. ev_tenant_id e = t) (t_events db)),
       ts_succeeded = with_status ''succeeded'', ts_failed = with_status ''failed'', ts_dead = with_status ''dead''\<rparr>)"

text \<open>\<open>ORDER BY events DESC, tenant_id\<close>; \<open>collate\<close> is the position of a text in the
  collation of the database.\<close>

definition admin_tenant_stats :: "(string \<Rightarrow> real) \<Rightarrow> tenant_stat list stmt" where
  "admin_tenant_stats collate db =
     Inr (sort_key (\<lambda>s. - ts_events s)
            (map (tenant_stat_of db) (sort_key collate (remdups (map ak_tenant_id (t_api_keys db))))), db)"

record recent_failure =
  rf_tenant_id :: string
  rf_event_type :: string
  rf_endpoint_url :: string
  rf_status :: string
  rf_attempt_count :: int
  rf_last_error :: "string option"
  rf_updated_at :: timestamp
  rf_delivery_id :: uuid

definition admin_recent_failures :: "int \<Rightarrow> recent_failure list stmt" where
  "admin_recent_failures limit db =
     map_sum id (\<lambda>rows. (rows, db))
       (limit_offset limit 0
          (sort_key (\<lambda>f. - rf_updated_at f)
             [\<lparr>rf_tenant_id = dl_tenant_id d, rf_event_type = ev_event_type ev, rf_endpoint_url = ep_url e,
               rf_status = dl_status d, rf_attempt_count = dl_attempt_count d, rf_last_error = dl_last_error d,
               rf_updated_at = dl_updated_at d, rf_delivery_id = dl_id d\<rparr>.
              d \<leftarrow> t_deliveries db, dl_status d \<in> {''failed'', ''dead''},
              ev \<leftarrow> t_events db, ev_id ev = dl_event_id d,
              e \<leftarrow> t_endpoints db, ep_id e = dl_endpoint_id d]))"

lemmas read_defs [stmt_defs] = active_endpoints_for_scope_def list_endpoints_def
  list_endpoints_for_consumer_def get_consumer_def list_consumers_def get_inbound_source_by_slug_def
  list_inbound_sources_def get_event_def get_endpoint_def get_delivery_def deliveries_for_event_def
  attempts_for_delivery_def status_counts_def total_events_def tenant_for_api_key_def

lemmas row_defs = claim_row_def succeeded_row_def failed_row_def deferred_row_def dead_row_def
  replay_row_def

end
