(* ===== verification/Retry.thy ===== *)
theory Retry
  imports Prelude
begin

text \<open>
  \<open>crates/dropless-core/src/retry.rs\<close>: the retry policy, the capped exponential ceiling
  and the jittered backoff. A \<open>std::time::Duration\<close> is its number of nanoseconds; the
  \<open>u64\<close> steps keep their width. The random draw \<open>gen_range(0..=hi)\<close> of the
  \<open>rand\<close> crate is a parameter; what is used of it is that the draw does not exceed
  \<open>hi\<close>. The lemmas give the closed form of the ceiling, its monotonicity and cap, and the
  bound of the backoff.
\<close>

type_synonym duration = nat

definition nanos_per_sec :: nat where "nanos_per_sec = 1000000000"
definition nanos_per_milli :: nat where "nanos_per_milli = 1000000"

definition from_secs :: "nat \<Rightarrow> duration" where "from_secs s = s * nanos_per_sec"
definition from_millis :: "u64 \<Rightarrow> duration" where "from_millis m = unat m * nanos_per_milli"

text \<open>\<open>Duration::as_millis() as u64\<close>: the cast keeps the low 64 bits.\<close>

definition as_millis_u64 :: "duration \<Rightarrow> u64" where
  "as_millis_u64 d = word_of_nat (d div nanos_per_milli)"

lemmas duration_defs = nanos_per_sec_def nanos_per_milli_def from_secs_def from_millis_def
  as_millis_u64_def

record retry_policy =
  rp_base :: duration
  rp_max_delay :: duration
  rp_max_attempts :: int

definition retry_policy_default :: retry_policy where
  "retry_policy_default =
     \<lparr>rp_base = from_secs 2, rp_max_delay = from_secs 3600, rp_max_attempts = 16\<rparr>"

definition is_exhausted :: "retry_policy \<Rightarrow> int \<Rightarrow> bool" where
  "is_exhausted p attempt_count \<longleftrightarrow> attempt_count \<ge> rp_max_attempts p"

definition backoff_exp :: "int \<Rightarrow> nat" where
  "backoff_exp attempt = nat (max 0 (min 30 (i32_saturating_sub attempt 1)))"

definition ceiling_delay :: "retry_policy \<Rightarrow> int \<Rightarrow> duration" where
  "ceiling_delay p attempt =
     (let factor = (case u64_checked_shl 1 (backoff_exp attempt) of Some f \<Rightarrow> f | None \<Rightarrow> - 1);
          millis = u64_saturating_mul (as_millis_u64 (rp_base p)) factor
      in min (from_millis millis) (rp_max_delay p))"

definition backoff :: "(u64 \<Rightarrow> u64) \<Rightarrow> retry_policy \<Rightarrow> int \<Rightarrow> duration" where
  "backoff gen_range p attempt =
     (let ceil_ms = as_millis_u64 (ceiling_delay p attempt)
      in if ceil_ms = 0 then 0 else from_millis (gen_range ceil_ms))"

section \<open>The ceiling\<close>

lemma backoff_exp_le: "backoff_exp a \<le> 30"
  by (simp add: backoff_exp_def)

lemma backoff_exp_eq:
  assumes "1 \<le> a" "is_i32 a"
  shows "backoff_exp a = min 30 (nat (a - 1))"
  using assms by (auto simp: backoff_exp_def i32_saturating_sub_def is_i32_def int_width_defs)

lemma backoff_exp_mono: "a \<le> b \<Longrightarrow> backoff_exp a \<le> backoff_exp b"
  unfolding backoff_exp_def i32_saturating_sub_def by (intro nat_mono max.mono min.mono) auto

lemma unat_shift_1: "n \<le> 30 \<Longrightarrow> unat ((2::u64) ^ n) = 2 ^ n"
proof -
  assume "n \<le> 30"
  then have "(2::nat) ^ n < 2 ^ 64" by (intro power_strict_increasing) auto
  moreover have "(2::u64) ^ n = word_of_nat (2 ^ n)" by simp
  ultimately show ?thesis by (simp only: unat_of_nat) simp
qed

lemma unat_millis:
  "unat (u64_saturating_mul (as_millis_u64 b) (2 ^ backoff_exp a)) =
   min (2 ^ 64 - 1) (b div nanos_per_milli mod 2 ^ 64 * 2 ^ backoff_exp a)"
  by (simp add: unat_saturating_mul unat_shift_1 backoff_exp_le as_millis_u64_def unat_of_nat)

lemma ceiling_delay_eq:
  "ceiling_delay p a =
     min (min (2 ^ 64 - 1) (rp_base p div nanos_per_milli mod 2 ^ 64 * 2 ^ backoff_exp a)
            * nanos_per_milli) (rp_max_delay p)"
proof -
  have "u64_checked_shl 1 (backoff_exp a) = Some (2 ^ backoff_exp a)"
    using backoff_exp_le [of a] by (simp add: u64_checked_shl_def push_bit_of_1)
  then show ?thesis
    by (simp add: ceiling_delay_def from_millis_def unat_millis Let_def)
qed

lemma ceiling_le_max: "ceiling_delay p a \<le> rp_max_delay p"
  by (simp add: ceiling_delay_eq)

lemma ceiling_mono: "a \<le> b \<Longrightarrow> ceiling_delay p a \<le> ceiling_delay p b"
  unfolding ceiling_delay_eq
  by (intro min.mono mult_right_mono mult_left_mono power_increasing backoff_exp_mono) auto

text \<open>C35. Backoff ceiling: whenever the base delay is a whole number of milliseconds whose
  largest multiple fits in 64 bits, the ceiling of attempt \<open>a\<close> (1-based) is exactly
  \<open>min (base * 2^min(30, a-1)) max_delay\<close>: it doubles with each attempt and is capped.\<close>

theorem ceiling_closed_form:
  assumes "1 \<le> a" "is_i32 a"
    and "nanos_per_milli dvd rp_base p" "rp_base p div nanos_per_milli < 2 ^ 34"
  shows "ceiling_delay p a = min (rp_base p * 2 ^ min 30 (nat (a - 1))) (rp_max_delay p)"
proof -
  let ?m = "rp_base p div nanos_per_milli" and ?e = "min 30 (nat (a - 1))"
  have e: "backoff_exp a = ?e" using assms(1,2) by (rule backoff_exp_eq)
  have "?m * 2 ^ ?e < 2 ^ 34 * 2 ^ 30"
    using assms(4) by (intro mult_less_le_imp_less power_increasing) auto
  then have lt: "?m * 2 ^ ?e \<le> 2 ^ 64 - 1" by simp
  have "?m mod 2 ^ 64 = ?m" using assms(4) by (intro mod_less) simp
  with lt have "ceiling_delay p a = min (?m * 2 ^ ?e * nanos_per_milli) (rp_max_delay p)"
    by (simp add: ceiling_delay_eq e min_def)
  also have "?m * 2 ^ ?e * nanos_per_milli = rp_base p * 2 ^ ?e"
    using assms(3) by (metis dvd_div_mult_self mult.assoc mult.commute)
  finally show ?thesis .
qed

theorem ceiling_closed_form_witness:
  "ceiling_delay retry_policy_default 3 = 8 * nanos_per_sec \<and>
   ceiling_delay retry_policy_default 40 = from_secs 3600"
  using ceiling_closed_form [of 3 retry_policy_default] ceiling_closed_form [of 40 retry_policy_default]
  by (simp add: retry_policy_default_def duration_defs is_i32_def int_width_defs)

section \<open>The jittered backoff\<close>

lemma as_millis_le: "unat (as_millis_u64 d) * nanos_per_milli \<le> d"
proof -
  have "unat (as_millis_u64 d) \<le> d div nanos_per_milli"
    by (simp add: as_millis_u64_def unat_of_nat)
  then have "unat (as_millis_u64 d) * nanos_per_milli \<le> d div nanos_per_milli * nanos_per_milli"
    by (rule mult_right_mono) simp
  also have "\<dots> \<le> d" by simp
  finally show ?thesis .
qed

text \<open>A retry is never scheduled later than its ceiling, hence never later than
  \<open>max_delay\<close>, whatever the random draw is; and raising the attempt number never lowers
  the ceiling.\<close>

theorem backoff_bounded:
  assumes "\<And>hi. gen_range hi \<le> hi"
  shows "backoff gen_range p a \<le> ceiling_delay p a \<and> ceiling_delay p a \<le> rp_max_delay p \<and>
    ceiling_delay p a \<le> ceiling_delay p (a + 1)"
proof -
  let ?c = "as_millis_u64 (ceiling_delay p a)"
  have "unat (gen_range ?c) * nanos_per_milli \<le> unat ?c * nanos_per_milli"
    using assms [of ?c] by (simp add: word_le_nat_alt)
  also have "\<dots> \<le> ceiling_delay p a" by (rule as_millis_le)
  finally have "backoff gen_range p a \<le> ceiling_delay p a"
    by (simp add: backoff_def Let_def from_millis_def)
  then show ?thesis using ceiling_le_max ceiling_mono [of a "a + 1"] by simp
qed

theorem backoff_bounded_witness:
  "backoff (\<lambda>hi. hi) retry_policy_default 2 \<le> ceiling_delay retry_policy_default 2 \<and>
   ceiling_delay retry_policy_default 2 = from_secs 4"
proof -
  have "backoff (\<lambda>hi. hi) retry_policy_default 2 \<le> ceiling_delay retry_policy_default 2"
    using backoff_bounded [of "\<lambda>hi. hi" retry_policy_default 2] by simp
  moreover have "ceiling_delay retry_policy_default 2 = from_secs 4"
    by (simp add: ceiling_delay_eq retry_policy_default_def duration_defs backoff_exp_def
        i32_saturating_sub_def int_width_defs)
  ultimately show ?thesis by simp
qed

end
