(* ===== verification/Ratelimit.thy ===== *)
theory Ratelimit
  imports Complex_Main Prelude
begin

text \<open>
  \<open>crates/dropless/src/ratelimit.rs\<close>: the per-tenant token bucket. A finite \<open>f64\<close> is the
  real number it denotes, and every floating-point operation is followed by the rounding
  \<open>rnd\<close>, a parameter of the model; an \<open>Instant\<close> is its number of nanoseconds, and
  \<open>saturating_duration_since\<close> is subtraction on \<open>nat\<close>. Shown for every monotone rounding that
  fixes zero and the capacity: tokens stay within the capacity; and with its error, the rate bound,
  for instants in any order (\<open>check\<close> reads the clock before it takes the lock). The sufficiency
  of \<open>retry-after\<close> is stated for exact arithmetic.
\<close>

record limiter =
  rl_rps :: real
  rl_burst :: real
  rl_buckets :: "string \<rightharpoonup> real \<times> nat"

definition limiter_new :: "real \<Rightarrow> real \<Rightarrow> limiter" where
  "limiter_new rps burst = \<lparr>rl_rps = rps, rl_burst = max burst 1, rl_buckets = Map.empty\<rparr>"

definition limiter_enabled :: "limiter \<Rightarrow> bool" where
  "limiter_enabled l \<longleftrightarrow> rl_rps l > 0"

definition bucket_of :: "limiter \<Rightarrow> string \<Rightarrow> nat \<Rightarrow> real \<times> nat" where
  "bucket_of l key now = (case rl_buckets l key of Some b \<Rightarrow> b | None \<Rightarrow> (rl_burst l, now))"

text \<open>\<open>Duration::as_secs_f64\<close>: whole seconds plus the fraction.\<close>

definition as_secs_f64 :: "(real \<Rightarrow> real) \<Rightarrow> nat \<Rightarrow> real" where
  "as_secs_f64 rnd d = rnd (rnd (real (d div 10 ^ 9)) + rnd (real (d mod 10 ^ 9) / 10 ^ 9))"

definition refill :: "(real \<Rightarrow> real) \<Rightarrow> limiter \<Rightarrow> string \<Rightarrow> nat \<Rightarrow> real" where
  "refill rnd l key now =
     (case bucket_of l key now of (tokens, since) \<Rightarrow>
        let elapsed = as_secs_f64 rnd (now - since)
        in min (rnd (tokens + rnd (elapsed * rl_rps l))) (rl_burst l))"

text \<open>The refusal carries the seconds to wait.\<close>

definition check_at :: "(real \<Rightarrow> real) \<Rightarrow> limiter \<Rightarrow> string \<Rightarrow> nat \<Rightarrow> int option \<times> limiter" where
  "check_at rnd l key now =
     (if rl_rps l \<le> 0 then (None, l)
      else let tokens = refill rnd l key now in
        if tokens \<ge> 1
        then (None, l\<lparr>rl_buckets := (rl_buckets l)(key \<mapsto> (rnd (tokens - 1), now))\<rparr>)
        else (Some (max \<lceil>rnd (rnd (1 - tokens) / rl_rps l)\<rceil> 1),
              l\<lparr>rl_buckets := (rl_buckets l)(key \<mapsto> (tokens, now))\<rparr>))"

text \<open>Exact arithmetic, as a rounding.\<close>

definition exact :: "real \<Rightarrow> real" where
  "exact x = x"

lemma exact_id: "exact x = x"
  by (simp add: exact_def)

lemma div_mod_real:
  assumes "0 < n"
  shows "real (d div n) + real (d mod n) / real n = real d / real n"
proof -
  have "real d = real (d div n) * real n + real (d mod n)" by (metis div_mult_mod_eq of_nat_add of_nat_mult)
  then show ?thesis using assms by (simp add: add_divide_distrib)
qed

lemma as_secs_exact [simp]: "as_secs_f64 exact d = real d / 10 ^ 9"
  using div_mod_real [of "10 ^ 9" d] by (simp only: as_secs_f64_def exact_id of_nat_power of_nat_numeral) simp

lemma exact_mono: "mono exact"
  by (simp add: exact_def mono_def)

section \<open>Capacity\<close>

definition limiter_ok :: "limiter \<Rightarrow> bool" where
  "limiter_ok l \<longleftrightarrow> 1 \<le> rl_burst l \<and> (\<forall>key tokens since. rl_buckets l key = Some (tokens, since) \<longrightarrow>
     0 \<le> tokens \<and> tokens \<le> rl_burst l)"

lemma limiter_okD: "limiter_ok l \<Longrightarrow> rl_buckets l key = Some (t, since) \<Longrightarrow> 0 \<le> t \<and> t \<le> rl_burst l"
  unfolding limiter_ok_def by blast

lemma limiter_ok_put:
  "limiter_ok l \<Longrightarrow> 0 \<le> t \<Longrightarrow> t \<le> rl_burst l \<Longrightarrow> limiter_ok (l\<lparr>rl_buckets := (rl_buckets l)(key \<mapsto> (t, now))\<rparr>)"
  by (auto simp: limiter_ok_def)

lemma refill_bounds:
  assumes "limiter_ok l" "0 < rl_rps l" "mono rnd" "rnd 0 = 0"
  shows "0 \<le> refill rnd l key now" "refill rnd l key now \<le> rl_burst l"
proof -
  obtain tokens since where b: "bucket_of l key now = (tokens, since)" by (rule prod.exhaust)
  have pos: "0 \<le> rnd x" if "0 \<le> x" for x using monoD [OF assms(3) that] assms(4) by simp
  have "0 \<le> tokens"
    using assms(1) b by (auto simp: bucket_of_def limiter_ok_def split: option.splits)
  moreover have "0 \<le> as_secs_f64 rnd (now - since)"
    unfolding as_secs_f64_def by (intro pos add_nonneg_nonneg) auto
  then have "0 \<le> rnd (as_secs_f64 rnd (now - since) * rl_rps l)"
    using assms(2) by (intro pos mult_nonneg_nonneg) auto
  ultimately show "0 \<le> refill rnd l key now"
    using assms(1) pos by (simp add: refill_def b Let_def limiter_ok_def)
  show "refill rnd l key now \<le> rl_burst l" by (simp add: refill_def b Let_def)
qed

lemma check_keeps_ok:
  assumes "limiter_ok l" "mono rnd" "rnd 0 = 0" "rnd (rl_burst l) = rl_burst l"
    and "check_at rnd l key now = (r, l')"
  shows "limiter_ok l'"
proof (cases "rl_rps l \<le> 0")
  case True
  then show ?thesis using assms(1,5) by (simp add: check_at_def)
next
  case False
  let ?t = "refill rnd l key now"
  have b: "0 \<le> ?t" "?t \<le> rl_burst l" using refill_bounds [OF assms(1) _ assms(2,3)] False by auto
  have "0 \<le> rnd (?t - 1) \<and> rnd (?t - 1) \<le> rl_burst l" if "1 \<le> ?t"
    using monoD [OF assms(2), of 0 "?t - 1"] monoD [OF assms(2), of "?t - 1" "rl_burst l"] that b assms(3,4) by simp
  then show ?thesis
    using False assms(1,5) b by (auto simp: check_at_def Let_def split: if_splits intro!: limiter_ok_put)
qed

lemma check_at_other:
  "k \<noteq> key \<Longrightarrow> check_at rnd l k now = (r, l') \<Longrightarrow> rl_buckets l' key = rl_buckets l key \<and>
     rl_rps l' = rl_rps l \<and> rl_burst l' = rl_burst l"
  by (auto simp: check_at_def Let_def split: if_splits)

text \<open>Capacity: for every monotone rounding that fixes zero and the capacity, no check ever
  leaves a bucket with a negative number of tokens or more tokens than the capacity, and a
  check for one tenant leaves the buckets of all other tenants alone.\<close>

theorem buckets_stay_within_capacity:
  assumes "limiter_ok l" "mono rnd" "rnd 0 = 0" "rnd (rl_burst l) = rl_burst l"
    and "check_at rnd l key now = (r, l')"
  shows "limiter_ok l' \<and> (\<forall>other. other \<noteq> key \<longrightarrow> rl_buckets l' other = rl_buckets l other)"
proof -
  have "rl_buckets l' other = rl_buckets l other" if "other \<noteq> key" for other
    using check_at_other [OF that [symmetric] assms(5)] by simp
  then show ?thesis using check_keeps_ok [OF assms] by blast
qed

lemma limiter_new_ok: "limiter_ok (limiter_new rps burst)"
  by (simp add: limiter_ok_def limiter_new_def)

theorem buckets_stay_within_capacity_witness:
  "limiter_ok (snd (check_at exact (limiter_new 1 3) ''t1'' 0))"
  using buckets_stay_within_capacity [OF limiter_new_ok exact_mono exact_id exact_id surjective_pairing, of 1 3 "''t1''" 0] by blast

section \<open>The rate\<close>

fun run_checks :: "(real \<Rightarrow> real) \<Rightarrow> limiter \<Rightarrow> string \<Rightarrow> (string \<times> nat) list \<Rightarrow> nat" where
  "run_checks rnd l key [] = 0"
| "run_checks rnd l key ((k, now) # rest) =
     (case check_at rnd l k now of (r, l') \<Rightarrow>
        (if k = key \<and> r = None then 1 else 0) + run_checks rnd l' key rest)"

text \<open>The time the bucket of a tenant is credited for, in nanoseconds: from each of its requests to the
  next, as far as the clock went forward. (A request that read its clock first may get the lock
  second; then the bucket's instant goes back, and the time is credited again.)\<close>

fun credited :: "string \<Rightarrow> nat option \<Rightarrow> (string \<times> nat) list \<Rightarrow> nat" where
  "credited key since [] = 0"
| "credited key since ((k, now) # rest) =
     (if k = key then (case since of None \<Rightarrow> 0 | Some s \<Rightarrow> now - s) + credited key (Some now) rest
      else credited key since rest)"

text \<open>A rounding whose error is at most \<open>u\<close> relative to the value plus \<open>u\<close>.\<close>

definition rounding_within :: "real \<Rightarrow> (real \<Rightarrow> real) \<Rightarrow> bool" where
  "rounding_within u rnd \<longleftrightarrow> 0 \<le> u \<and> mono rnd \<and> rnd 0 = 0 \<and> (\<forall>x\<ge>0. rnd x \<le> x + u * (x + 1))"

text \<open>What the roundings of one check can add to a bucket.\<close>

definition rounding_slack :: "real \<Rightarrow> real \<Rightarrow> real \<Rightarrow> real" where
  "rounding_slack u rps burst =
     2 * u * burst + u + (1 + u) * (rps * (1 + u) * (2 * u * (1 + u) + u) + u)"

lemma rounding_withinD:
  assumes "rounding_within u rnd"
  shows "0 \<le> u" "mono rnd" "rnd 0 = 0" "0 \<le> x \<Longrightarrow> rnd x \<le> (1 + u) * x + u" "0 \<le> x \<Longrightarrow> 0 \<le> rnd x"
  using assms monoD [of rnd 0 x] by (auto simp: rounding_within_def algebra_simps)

lemma as_secs_within:
  assumes "rounding_within u rnd"
  shows "as_secs_f64 rnd d \<le> (1 + u) ^ 2 * (real d / 10 ^ 9) + (2 * u * (1 + u) + u)" "0 \<le> as_secs_f64 rnd d"
proof -
  note r = rounding_withinD [OF assms]
  let ?a = "real (d div 10 ^ 9)" and ?b = "real (d mod 10 ^ 9) / 10 ^ 9"
  have ab: "?a + ?b = real d / 10 ^ 9" using div_mod_real [of "10 ^ 9" d] by simp
  have pos: "0 \<le> rnd ?a + rnd ?b" using r(5) by (intro add_nonneg_nonneg) auto
  have "rnd ?a + rnd ?b \<le> ((1 + u) * ?a + u) + ((1 + u) * ?b + u)" by (intro add_mono r(4)) simp_all
  also have "\<dots> = (1 + u) * (?a + ?b) + 2 * u" by (simp add: algebra_simps)
  finally have "rnd ?a + rnd ?b \<le> (1 + u) * (real d / 10 ^ 9) + 2 * u" unfolding ab .
  then have "(1 + u) * (rnd ?a + rnd ?b) \<le> (1 + u) * ((1 + u) * (real d / 10 ^ 9) + 2 * u)"
    using r(1) by (intro mult_left_mono) auto
  then show "as_secs_f64 rnd d \<le> (1 + u) ^ 2 * (real d / 10 ^ 9) + (2 * u * (1 + u) + u)"
    using r(4) [OF pos] unfolding as_secs_f64_def by (simp add: algebra_simps power2_eq_square)
  show "0 \<le> as_secs_f64 rnd d" unfolding as_secs_f64_def by (rule r(5) [OF pos])
qed

lemma credit_within:
  assumes "rounding_within u rnd" "0 < rps" "0 \<le> tokens" "tokens \<le> burst"
  shows "rnd (tokens + rnd (as_secs_f64 rnd d * rps)) \<le>
    tokens + (1 + u) ^ 4 * rps * (real d / 10 ^ 9) + (rounding_slack u rps burst - u * burst)"
proof -
  note r = rounding_withinD [OF assms(1)] and e = as_secs_within [OF assms(1), of d]
  let ?T = "real d / 10 ^ 9" and ?c = "2 * u * (1 + u) + u" and ?g = "rnd (as_secs_f64 rnd d * rps)"
  have pos: "0 \<le> as_secs_f64 rnd d * rps" using e(2) assms(2) by simp
  have "as_secs_f64 rnd d * rps \<le> ((1 + u) ^ 2 * ?T + ?c) * rps" using e(1) assms(2) by (intro mult_right_mono) auto
  then have "(1 + u) * (as_secs_f64 rnd d * rps) \<le> (1 + u) * (((1 + u) ^ 2 * ?T + ?c) * rps)"
    using r(1) by (intro mult_left_mono) auto
  then have g: "?g \<le> (1 + u) * (((1 + u) ^ 2 * ?T + ?c) * rps) + u" using r(4) [OF pos] by linarith
  have "rnd (tokens + ?g) \<le> (1 + u) * (tokens + ?g) + u" using r(4,5) pos assms(3) by simp
  moreover have "(1 + u) * ?g \<le> (1 + u) * ((1 + u) * (((1 + u) ^ 2 * ?T + ?c) * rps) + u)"
    using g r(1) by (intro mult_left_mono) auto
  moreover have "u * tokens \<le> u * burst" using assms(4) r(1) by (intro mult_left_mono) auto
  ultimately have "rnd (tokens + ?g) \<le> tokens + u * burst + (1 + u) * ((1 + u) * (((1 + u) ^ 2 * ?T + ?c) * rps) + u) + u"
    by (simp add: algebra_simps)
  also have "\<dots> = tokens + (1 + u) ^ 4 * rps * ?T + (rounding_slack u rps burst - u * burst)"
    unfolding rounding_slack_def by (simp add: algebra_simps power2_eq_square power4_eq_xxxx)
  finally show ?thesis .
qed

text \<open>One check of the tenant: what is left and what was let through.\<close>

lemma check_at_credit:
  assumes "rounding_within u rnd" "check_at rnd l key now = (r, l')" "limiter_ok l" "0 < rl_rps l"
  obtains tokens' where "rl_buckets l' key = Some (tokens', now)" "rl_rps l' = rl_rps l" "rl_burst l' = rl_burst l"
    "tokens' + (if r = None then 1 else 0) \<le> refill rnd l key now + u * rl_burst l"
proof -
  note rw = rounding_withinD [OF assms(1)]
  let ?t = "refill rnd l key now"
  have b: "0 \<le> ?t" "?t \<le> rl_burst l" using refill_bounds [OF assms(3,4) rw(2,3)] by auto
  have cap: "u * ?t \<le> u * rl_burst l" "0 \<le> u * rl_burst l"
    using b rw(1) by (auto intro: mult_left_mono)
  show ?thesis
  proof (cases "1 \<le> ?t")
    case True
    then have "rnd (?t - 1) + 1 \<le> ?t + u * rl_burst l" using rw(4) [of "?t - 1"] cap by (simp add: algebra_simps)
    then show ?thesis using that [of "rnd (?t - 1)"] assms(2,4) True by (auto simp: check_at_def Let_def)
  next
    case False
    then show ?thesis using that [of ?t] assms(2,4) cap by (auto simp: check_at_def Let_def)
  qed
qed

lemma slack_parts:
  assumes "0 \<le> u" "0 < rps" "0 \<le> burst"
  shows "u * burst \<le> rounding_slack u rps burst"
  using assms unfolding rounding_slack_def by (simp add: add_nonneg_nonneg)

definition checks_of :: "string \<Rightarrow> (string \<times> nat) list \<Rightarrow> nat" where
  "checks_of key reqs = length (filter (\<lambda>(k, now). k = key) reqs)"

lemma run_checks_bound:
  assumes "rounding_within u rnd" "rl_buckets l key = Some (tokens, since)" "0 < rl_rps l" "limiter_ok l"
    and "rnd (rl_burst l) = rl_burst l"
  shows "real (run_checks rnd l key reqs) \<le> tokens +
    (1 + u) ^ 4 * rl_rps l * (real (credited key (Some since) reqs) / 10 ^ 9) +
    real (checks_of key reqs) * rounding_slack u (rl_rps l) (rl_burst l)"
  using assms
proof (induction reqs arbitrary: l tokens since)
  case Nil
  then show ?case using limiter_okD [OF Nil.prems(4,2)] by (simp add: checks_of_def)
next
  case (Cons kt reqs)
  note r = rounding_withinD [OF Cons.prems(1)]
  obtain k now where kt: "kt = (k, now)" by (cases kt)
  obtain res l1 where c: "check_at rnd l k now = (res, l1)" by (rule prod.exhaust)
  have ok1: "limiter_ok l1" using check_keeps_ok [OF Cons.prems(4) r(2,3) Cons.prems(5) c] .
  let ?s = "rounding_slack u (rl_rps l) (rl_burst l)" and ?rate = "(1 + u) ^ 4 * rl_rps l"
  show ?case
  proof (cases "k = key")
    case True
    obtain tokens' where t': "rl_buckets l1 key = Some (tokens', now)" "rl_rps l1 = rl_rps l" "rl_burst l1 = rl_burst l"
      "tokens' + (if res = None then 1 else 0) \<le> refill rnd l key now + u * rl_burst l"
      using check_at_credit [OF Cons.prems(1) c [unfolded True] Cons.prems(4,3)] by metis
    have "refill rnd l key now \<le> rnd (tokens + rnd (as_secs_f64 rnd (now - since) * rl_rps l))"
      using Cons.prems(2) by (simp add: refill_def bucket_of_def Let_def)
    also have "\<dots> \<le> tokens + ?rate * (real (now - since) / 10 ^ 9) + (?s - u * rl_burst l)"
      using credit_within [OF Cons.prems(1,3)] limiter_okD [OF Cons.prems(4,2)] by blast
    finally have step: "tokens' + (if res = None then 1 else 0) \<le> tokens + ?rate * (real (now - since) / 10 ^ 9) + ?s"
      using t'(4) by linarith
    have "real (run_checks rnd l1 key reqs) \<le> tokens' + ?rate * (real (credited key (Some now) reqs) / 10 ^ 9) +
        real (checks_of key reqs) * ?s"
      using Cons.IH [OF Cons.prems(1) t'(1) _ ok1] Cons.prems(3,5) t'(2,3) by simp
    moreover have "?rate * (real (credited key (Some since) (kt # reqs)) / 10 ^ 9) =
        ?rate * (real (now - since) / 10 ^ 9) + ?rate * (real (credited key (Some now) reqs) / 10 ^ 9)"
      by (simp add: kt True add_divide_distrib distrib_left)
    moreover have "real (checks_of key (kt # reqs)) * ?s = ?s + real (checks_of key reqs) * ?s"
      by (simp add: checks_of_def kt True distrib_right)
    moreover have "real (run_checks rnd l key (kt # reqs)) = (if res = None then 1 else 0) + real (run_checks rnd l1 key reqs)"
      by (simp add: kt True c [unfolded True])
    ultimately show ?thesis using step by linarith
  next
    case False
    note o = check_at_other [OF False c]
    have "real (run_checks rnd l1 key reqs) \<le> tokens + ?rate * (real (credited key (Some since) reqs) / 10 ^ 9) +
        real (checks_of key reqs) * ?s"
      using Cons.IH [OF Cons.prems(1) _ _ ok1, of tokens since] Cons.prems o by simp
    then show ?thesis using False by (simp add: kt c checks_of_def)
  qed
qed

lemma window_bound:
  assumes "rounding_within u rnd" "0 < rl_rps l" "limiter_ok l" "rnd (rl_burst l) = rl_burst l"
  shows "real (run_checks rnd l key reqs) \<le> rl_burst l +
    (1 + u) ^ 4 * rl_rps l * (real (credited key None reqs) / 10 ^ 9) +
    real (checks_of key reqs) * rounding_slack u (rl_rps l) (rl_burst l)"
  using assms
proof (induction reqs arbitrary: l)
  case Nil
  then show ?case by (simp add: checks_of_def limiter_ok_def)
next
  case (Cons kt reqs)
  note r = rounding_withinD [OF Cons.prems(1)]
  obtain k now where kt: "kt = (k, now)" by (cases kt)
  obtain res l1 where c: "check_at rnd l k now = (res, l1)" by (rule prod.exhaust)
  have ok1: "limiter_ok l1" using check_keeps_ok [OF Cons.prems(3) r(2,3) Cons.prems(4) c] .
  show ?case
  proof (cases "k = key")
    case True
    obtain tokens' where t': "rl_buckets l1 key = Some (tokens', now)" "rl_rps l1 = rl_rps l" "rl_burst l1 = rl_burst l"
      "tokens' + (if res = None then 1 else 0) \<le> refill rnd l key now + u * rl_burst l"
      using check_at_credit [OF Cons.prems(1) c [unfolded True] Cons.prems(3,2)] by metis
    have "refill rnd l key now \<le> rl_burst l" using refill_bounds [OF Cons.prems(3,2) r(2,3)] by blast
    moreover have "u * rl_burst l \<le> rounding_slack u (rl_rps l) (rl_burst l)"
      using r(1) Cons.prems(2,3) by (intro slack_parts) (auto simp: limiter_ok_def)
    moreover have "real (run_checks rnd l key (kt # reqs)) = (if res = None then 1 else 0) + real (run_checks rnd l1 key reqs)"
      by (simp add: kt True c [unfolded True])
    ultimately show ?thesis
      using t'(4) run_checks_bound [OF Cons.prems(1) t'(1) _ ok1, of reqs] Cons.prems(2,4) t'(2,3)
      by (simp add: kt True checks_of_def distrib_right)
  next
    case False
    note o = check_at_other [OF False c]
    show ?thesis using Cons.IH [OF Cons.prems(1) _ ok1] Cons.prems(2,4) o False by (simp add: kt c checks_of_def)
  qed
qed

lemma credited_some: "sorted (s # map snd reqs) \<Longrightarrow> (\<And>t. t \<in> set (s # map snd reqs) \<Longrightarrow> t \<le> final) \<Longrightarrow>
    credited key (Some s) reqs \<le> final - s"
proof (induction reqs arbitrary: s)
  case (Cons kt reqs)
  obtain k now where kt: "kt = (k, now)" by (cases kt)
  have "credited key (Some now) reqs \<le> final - now" "credited key (Some s) reqs \<le> final - s"
    using Cons by (auto simp: kt)
  moreover have "s \<le> now" "now \<le> final" using Cons.prems by (auto simp: kt)
  ultimately show ?case by (auto simp: kt)
qed simp

lemma credited_in_order:
  "sorted (map snd reqs) \<Longrightarrow> (\<And>t. t \<in> set (map snd reqs) \<Longrightarrow> start \<le> t \<and> t \<le> final) \<Longrightarrow>
    credited key None reqs \<le> final - start"
proof (induction reqs)
  case (Cons kt reqs)
  obtain k now where kt: "kt = (k, now)" by (cases kt)
  have "credited key (Some now) reqs \<le> final - now" using Cons.prems by (intro credited_some) (auto simp: kt)
  moreover have "start \<le> now" using Cons.prems by (auto simp: kt)
  ultimately have "credited key (Some now) reqs \<le> final - start" by linarith
  moreover have "credited key None reqs \<le> final - start" using Cons by (auto simp: kt)
  ultimately show ?case by (simp add: kt)
qed simp

text \<open>C37. The rate is bounded, over any window of the life of a limiter with a positive rate: whatever
  state within the capacity earlier checks have left, among any sequence of checks of any tenants, in the order in which they get the
  lock and with the instants they read before it, a tenant gets at most \<open>burst\<close> requests through
  plus \<open>rps\<close> for every second its bucket is credited for from its first to its last request of the
  window, up to a fixed rounding error for each of its checks. When the instants are in order, the
  credited time is at most the length of the window. The rounding is any monotone one that fixes
  zero and the capacity and errs by at most \<open>u\<close> relative to the value plus \<open>u\<close>: for \<open>f64\<close> short of
  overflow, \<open>u = 2^-53\<close>; for exact arithmetic, \<open>u = 0\<close> and the error terms vanish.\<close>

theorem rate_is_bounded:
  assumes "rounding_within u rnd" "0 < rl_rps l" "limiter_ok l" "rnd (rl_burst l) = rl_burst l"
  shows "real (run_checks rnd l key reqs) \<le> rl_burst l +
      (1 + u) ^ 4 * rl_rps l * (real (credited key None reqs) / 10 ^ 9) +
      real (checks_of key reqs) * rounding_slack u (rl_rps l) (rl_burst l) \<and>
    rounding_slack 0 (rl_rps l) (rl_burst l) = 0 \<and>
    (\<forall>start final. sorted (map snd reqs) \<and> (\<forall>t\<in>set (map snd reqs). start \<le> t \<and> t \<le> final) \<longrightarrow>
       credited key None reqs \<le> final - start)"
  using window_bound [OF assms] credited_in_order by (fastforce simp: rounding_slack_def)

text \<open>A bucket that was empty and has been idle for an hour allows its burst of two, not more.\<close>

theorem rate_is_bounded_witness:
  "run_checks exact \<lparr>rl_rps = 1, rl_burst = 2, rl_buckets = [''a'' \<mapsto> (0, 5)]\<rparr> ''a''
     [(''a'', 3600 * 10 ^ 9), (''b'', 7), (''a'', 3600 * 10 ^ 9), (''a'', 3599 * 10 ^ 9)] \<le> 2"
proof -
  have "rounding_within 0 exact" by (simp add: rounding_within_def exact_mono exact_id)
  from rate_is_bounded [OF this, of "\<lparr>rl_rps = 1, rl_burst = 2, rl_buckets = [''a'' \<mapsto> (0, 5)]\<rparr>" "''a''"
      "[(''a'', 3600 * 10 ^ 9), (''b'', 7), (''a'', 3600 * 10 ^ 9), (''a'', 3599 * 10 ^ 9)]"]
  show ?thesis by (simp add: limiter_ok_def exact_id rounding_slack_def)
qed

text \<open>Waiting as told suffices: in exact arithmetic, a tenant that was refused with
  \<open>retry-after\<close> of \<open>s\<close> seconds (always at least one) and asks again \<open>s\<close> seconds later
  is let through.\<close>

theorem retry_after_suffices:
  assumes "check_at exact l key now = (Some s, l')" "1 \<le> rl_burst l"
  shows "1 \<le> s \<and> fst (check_at exact l' key (now + nat s * 10 ^ 9)) = None"
proof -
  let ?t = "refill exact l key now"
  have rps: "0 < rl_rps l" and s: "s = max \<lceil>(1 - ?t) / rl_rps l\<rceil> 1"
    and l': "l' = l\<lparr>rl_buckets := (rl_buckets l)(key \<mapsto> (?t, now))\<rparr>"
    using assms(1) by (auto simp: check_at_def exact_id Let_def split: if_splits)
  have "(1 - ?t) / rl_rps l \<le> real_of_int s" unfolding s by linarith
  then have "1 \<le> ?t + real_of_int s * rl_rps l" using rps by (simp add: field_simps)
  moreover have "real (nat s) = real_of_int s" using s by simp
  ultimately have "1 \<le> refill exact l' key (now + nat s * 10 ^ 9)"
    using assms(2) by (simp add: refill_def bucket_of_def l' exact_id Let_def)
  then show ?thesis using s by (simp add: check_at_def Let_def)
qed

definition limiter_empty :: limiter where
  "limiter_empty = \<lparr>rl_rps = 1, rl_burst = 2, rl_buckets = [''a'' \<mapsto> (0, 5)]\<rparr>"

theorem retry_after_suffices_witness:
  "fst (check_at exact (snd (check_at exact limiter_empty ''a'' 5)) ''a'' 1000000005) = None"
proof -
  have "check_at exact limiter_empty ''a'' 5 = (Some 1, snd (check_at exact limiter_empty ''a'' 5))"
    by (simp add: check_at_def refill_def bucket_of_def limiter_empty_def exact_id)
  from retry_after_suffices [OF this] show ?thesis by (simp add: limiter_empty_def)
qed

end
