(* ===== verification/Effects.thy ===== *)
theory Effects
  imports Store Retry Ratelimit
begin

text \<open>
  How the asynchronous code reaches the outside world. A program is a function on a
  \<open>world\<close>: the committed database, the private view of the transaction that is open,
  the log of HTTP requests handed to the client, and an environment that answers one
  interaction after the other. Each answer says what the other tasks and processes have
  committed meanwhile, the clock, the next random id, the random draws, which rows other
  transactions hold locked, the reply of an HTTP receiver, and whether the connection to the
  database fails: before the statement takes effect, or after it took effect but before the
  caller hears of it. A statement on the pool commits on its own (\<open>sql\<close>); a transaction
  works on its private view (\<open>tsql\<close>) and reaches the committed database only at
  \<open>commit\<close>; leaving the scope of the transaction drops it, which rolls it back.
  Transactions are serialised: others commit before \<open>BEGIN\<close> or after the end of the
  transaction. \<open>await\<close> is \<open>.await?\<close>: an error leaves the function at once.
  The theory ends with a weakest-precondition calculus for these programs.
\<close>

section \<open>Worlds and programs\<close>

datatype fault = No_fault | Lost_before | Lost_after

datatype http_result = Response int "string option" | Send_error string

record http_request =
  rq_url :: string
  rq_headers :: "(string \<times> string) list"
  rq_body :: bytes

record answer =
  an_others :: "db \<Rightarrow> db"
  an_fault :: fault
  an_now :: timestamp
  an_uuid :: uuid
  an_rand :: "u64 \<Rightarrow> u64"
  an_locked :: "uuid \<Rightarrow> bool"
  an_http :: http_result
  an_flag :: bool
  an_fill :: bytes
  an_instant :: nat
  an_checks :: "limiter \<Rightarrow> limiter"

record world =
  w_db :: db
  w_tx :: "(timestamp \<times> db) option"
  w_env :: "nat \<Rightarrow> answer"
  w_pos :: nat
  w_sent :: "http_request list"
  w_limiter :: limiter
  w_pings :: nat

type_synonym 'a io = "world \<Rightarrow> 'a core_result \<times> world"

definition answer_now :: "world \<Rightarrow> answer" where
  "answer_now w = w_env w (w_pos w)"

definition tick :: "world \<Rightarrow> world" where
  "tick w = w\<lparr>w_pos := Suc (w_pos w)\<rparr>"

text \<open>The database as this task finds it when its next statement runs.\<close>

definition seen :: "world \<Rightarrow> db" where
  "seen w = an_others (answer_now w) (w_db w)"

definition ok :: "'a \<Rightarrow> 'a io" where
  "ok x w = (Inr x, w)"

definition err :: "core_error \<Rightarrow> 'a io" where
  "err e w = (Inl e, w)"

definition await :: "'a io \<Rightarrow> ('a \<Rightarrow> 'b io) \<Rightarrow> 'b io" where
  "await m k w = (case m w of (Inl e, w') \<Rightarrow> (Inl e, w') | (Inr x, w') \<Rightarrow> k x w')"

text \<open>\<open>match m.await { Ok(x) \<dots>, Err(e) \<dots> }\<close>.\<close>

definition try_await :: "'a io \<Rightarrow> ('a core_result \<Rightarrow> 'b io) \<Rightarrow> 'b io" where
  "try_await m k w = (case m w of (r, w') \<Rightarrow> k r w')"

definition connection_error :: core_error where
  "connection_error = Db (Other_db_error ''connection closed'')"

section \<open>Statements and transactions\<close>

text \<open>A statement executed directly on the pool.\<close>

definition sql :: "(answer \<Rightarrow> 'a stmt) \<Rightarrow> 'a io" where
  "sql f w =
     (let a = answer_now w; w1 = (tick w)\<lparr>w_db := seen w\<rparr> in
      case an_fault a of
        Lost_before \<Rightarrow> (Inl connection_error, w1)
      | fl \<Rightarrow>
          (case f a (w_db w1) of
             Inl e \<Rightarrow> (Inl e, w1)
           | Inr (x, db') \<Rightarrow>
               (if fl = Lost_after then Inl connection_error else Inr x, w1\<lparr>w_db := db'\<rparr>)))"

text \<open>\<open>pool.begin()\<close> and the scope of the transaction; \<open>now()\<close> is the time of \<open>BEGIN\<close>.\<close>

definition with_tx :: "'a io \<Rightarrow> 'a io" where
  "with_tx body w =
     (let a = answer_now w; w1 = (tick w)\<lparr>w_db := seen w\<rparr> in
      if an_fault a = No_fault
      then (case body (w1\<lparr>w_tx := Some (an_now a, w_db w1)\<rparr>) of (r, w') \<Rightarrow> (r, w'\<lparr>w_tx := None\<rparr>))
      else (Inl connection_error, w1))"

text \<open>A statement inside the open transaction; \<open>f\<close> gets the answer and the transaction time.\<close>

definition tsql :: "(answer \<Rightarrow> timestamp \<Rightarrow> 'a stmt) \<Rightarrow> 'a io" where
  "tsql f w =
     (let a = answer_now w; w1 = tick w in
      case w_tx w of
        None \<Rightarrow> (Inl connection_error, w1)
      | Some (t, view) \<Rightarrow>
          if an_fault a = No_fault
          then (case f a t view of
                  Inl e \<Rightarrow> (Inl e, w1)
                | Inr (x, view') \<Rightarrow> (Inr x, w1\<lparr>w_tx := Some (t, view')\<rparr>))
          else (Inl connection_error, w1))"

definition commit :: "unit io" where
  "commit w =
     (let a = answer_now w; w1 = tick w in
      case w_tx w of
        None \<Rightarrow> (Inl connection_error, w1)
      | Some (t, view) \<Rightarrow>
          (case an_fault a of
             No_fault \<Rightarrow> (Inr (), w1\<lparr>w_db := view, w_tx := None\<rparr>)
           | Lost_before \<Rightarrow> (Inl connection_error, w1\<lparr>w_tx := None\<rparr>)
           | Lost_after \<Rightarrow> (Inl connection_error, w1\<lparr>w_db := view, w_tx := None\<rparr>)))"

definition rollback :: "unit io" where
  "rollback w =
     (let a = answer_now w; w1 = (tick w)\<lparr>w_tx := None\<rparr> in
      (if an_fault a = No_fault then Inr () else Inl connection_error, w1))"

section \<open>Clocks, ids, HTTP\<close>

definition utc_now :: "(timestamp \<Rightarrow> 'a io) \<Rightarrow> 'a io" where
  "utc_now k w = k (an_now (answer_now w)) (tick w)"

definition now_v7 :: "(uuid \<Rightarrow> 'a io) \<Rightarrow> 'a io" where
  "now_v7 k w = k (an_uuid (answer_now w)) (tick w)"

definition draw :: "((u64 \<Rightarrow> u64) \<Rightarrow> 'a io) \<Rightarrow> 'a io" where
  "draw k w = k (an_rand (answer_now w)) (tick w)"

text \<open>Reading a shared flag, such as the shutdown channel.\<close>

definition read_flag :: "(bool \<Rightarrow> 'a io) \<Rightarrow> 'a io" where
  "read_flag k w = k (an_flag (answer_now w)) (tick w)"

definition http_send :: "http_request \<Rightarrow> (http_result \<Rightarrow> 'a io) \<Rightarrow> 'a io" where
  "http_send rq k w =
     k (an_http (answer_now w)) ((tick w)\<lparr>w_sent := w_sent w @ [rq]\<rparr>)"

text \<open>\<open>rand::thread_rng().fill_bytes\<close>.\<close>

definition fill_bytes :: "(bytes \<Rightarrow> 'a io) \<Rightarrow> 'a io" where
  "fill_bytes k w = k (an_fill (answer_now w)) (tick w)"

text \<open>\<open>RateLimiter::check\<close>: the buckets as the checks of other requests have left them, under
  the mutex, at the current instant.\<close>

definition limiter_check :: "(real \<Rightarrow> real) \<Rightarrow> string \<Rightarrow> (int option \<Rightarrow> 'a io) \<Rightarrow> 'a io" where
  "limiter_check rnd key k w =
     (let a = answer_now w in
      case check_at rnd (an_checks a (w_limiter w)) key (an_instant a) of
        (r, l) \<Rightarrow> k r ((tick w)\<lparr>w_limiter := l\<rparr>))"

text \<open>\<open>Notifier::ping\<close> returns at once; here it is only counted (theory \<open>Notify\<close> has its
  steps).\<close>

definition ping :: "'a io \<Rightarrow> 'a io" where
  "ping k w = k ((tick w)\<lparr>w_pings := Suc (w_pings w)\<rparr>)"

text \<open>\<open>ok_or_else(|| CoreError::NotFound(\<dots>))\<close>, and \<open>store::require_delivery\<close>, which uses it.\<close>

definition ok_or_not_found :: "string \<Rightarrow> 'a option \<Rightarrow> 'a io" where
  "ok_or_not_found what x = (case x of Some y \<Rightarrow> ok y | None \<Rightarrow> err (NotFound what))"

definition require_delivery :: "(uuid \<Rightarrow> string) \<Rightarrow> uuid \<Rightarrow> delivery io" where
  "require_delivery ushow did =
     await (sql (\<lambda>a. get_delivery did)) (\<lambda>found. ok_or_not_found (''delivery '' @ ushow did) found)"

section \<open>Weakest preconditions\<close>

definition wp :: "'a io \<Rightarrow> ('a core_result \<Rightarrow> world \<Rightarrow> bool) \<Rightarrow> world \<Rightarrow> bool" where
  "wp m Q w = (case m w of (r, w') \<Rightarrow> Q r w')"

named_theorems wp_rules "weakest preconditions of the effect combinators"

lemma wpD: "wp m Q w \<Longrightarrow> m w = (r, w') \<Longrightarrow> Q r w'"
  by (simp add: wp_def)

lemma wp_iff: "wp m Q w \<longleftrightarrow> Q (fst (m w)) (snd (m w))"
  by (simp add: wp_def split: prod.splits)

lemma wp_mono: "wp m Q w \<Longrightarrow> (\<And>r w'. Q r w' \<Longrightarrow> Q' r w') \<Longrightarrow> wp m Q' w"
  by (simp add: wp_iff)

lemma wp_conj: "wp m Q w \<Longrightarrow> wp m Q' w \<Longrightarrow> wp m (\<lambda>r w'. Q r w' \<and> Q' r w') w"
  by (simp add: wp_iff)

lemma wp_await [wp_rules]:
  "wp (await m k) Q w =
     wp m (\<lambda>r w'. case r of Inl e \<Rightarrow> Q (Inl e) w' | Inr x \<Rightarrow> wp (k x) Q w') w"
  by (auto simp: wp_def await_def split: prod.splits sum.splits)

lemma wp_try_await [wp_rules]: "wp (try_await m k) Q w = wp m (\<lambda>r w'. wp (k r) Q w') w"
  by (auto simp: wp_def try_await_def split: prod.splits)

lemma wp_basic [wp_rules]:
  "wp (ok x) Q w = Q (Inr x) w"
  "wp (err e) Q w = Q (Inl e) w"
  "wp (utc_now k1) Q w = wp (k1 (an_now (answer_now w))) Q (tick w)"
  "wp (now_v7 k2) Q w = wp (k2 (an_uuid (answer_now w))) Q (tick w)"
  "wp (draw k3) Q w = wp (k3 (an_rand (answer_now w))) Q (tick w)"
  "wp (read_flag k4) Q w = wp (k4 (an_flag (answer_now w))) Q (tick w)"
  "wp (http_send rq k5) Q w =
     wp (k5 (an_http (answer_now w))) Q ((tick w)\<lparr>w_sent := w_sent w @ [rq]\<rparr>)"
  by (simp_all add: wp_def ok_def err_def utc_now_def now_v7_def draw_def read_flag_def http_send_def)

lemma wp_server [wp_rules]:
  "wp (fill_bytes k) Q w = wp (k (an_fill (answer_now w))) Q (tick w)"
  "wp (ping m) Q w = wp m Q ((tick w)\<lparr>w_pings := Suc (w_pings w)\<rparr>)"
  "wp (limiter_check rnd key k') Q w =
     (case check_at rnd (an_checks (answer_now w) (w_limiter w)) key (an_instant (answer_now w)) of
        (r, l) \<Rightarrow> wp (k' r) Q ((tick w)\<lparr>w_limiter := l\<rparr>))"
  by (simp_all add: wp_def fill_bytes_def ping_def limiter_check_def Let_def split: prod.splits)

lemma wp_sql:
  assumes "\<And>e. Q (Inl e) ((tick w)\<lparr>w_db := seen w\<rparr>)"
    and "\<And>x db'. f (answer_now w) (seen w) = Inr (x, db') \<Longrightarrow>
           Q (Inr x) ((tick w)\<lparr>w_db := db'\<rparr>) \<and> Q (Inl connection_error) ((tick w)\<lparr>w_db := db'\<rparr>)"
  shows "wp (sql f) Q w"
  using assms by (auto simp: wp_def sql_def Let_def split: fault.splits sum.splits)

lemma wp_with_tx:
  assumes "\<And>e. Q (Inl e) ((tick w)\<lparr>w_db := seen w\<rparr>)"
    and "wp body (\<lambda>r w'. Q r (w'\<lparr>w_tx := None\<rparr>))
           ((tick w)\<lparr>w_db := seen w, w_tx := Some (an_now (answer_now w), seen w)\<rparr>)"
  shows "wp (with_tx body) Q w"
  using assms by (auto simp: wp_def with_tx_def Let_def split: prod.splits)

lemma wp_tsql:
  assumes "w_tx w = Some (t, view)" "\<And>e. Q (Inl e) (tick w)"
    and "\<And>x view'. f (answer_now w) t view = Inr (x, view') \<Longrightarrow>
           Q (Inr x) ((tick w)\<lparr>w_tx := Some (t, view')\<rparr>)"
  shows "wp (tsql f) Q w"
  using assms by (auto simp: wp_def tsql_def Let_def split: sum.splits)

lemma wp_commit:
  assumes "w_tx w = Some (t, view)" "\<And>e. Q (Inl e) ((tick w)\<lparr>w_tx := None\<rparr>)"
    and "\<And>r. Q r ((tick w)\<lparr>w_db := view, w_tx := None\<rparr>)"
  shows "wp commit Q w"
  using assms by (auto simp: wp_def commit_def Let_def split: fault.splits)

lemma wp_rollback:
  assumes "\<And>r. Q r ((tick w)\<lparr>w_tx := None\<rparr>)"
  shows "wp rollback Q w"
  using assms by (auto simp: wp_def rollback_def Let_def)

text \<open>The same rules for a statement that is followed by the rest of the program.\<close>

lemma wp_await_sql:
  assumes "\<And>e. Q (Inl e) ((tick w)\<lparr>w_db := seen w\<rparr>)"
    and "\<And>x db'. f (answer_now w) (seen w) = Inr (x, db') \<Longrightarrow>
           wp (k x) Q ((tick w)\<lparr>w_db := db'\<rparr>) \<and> Q (Inl connection_error) ((tick w)\<lparr>w_db := db'\<rparr>)"
  shows "wp (await (sql f) k) Q w"
  unfolding wp_await by (rule wp_sql) (use assms in auto)

lemma wp_await_tsql:
  assumes "w_tx w = Some (t, view)" "\<And>e. Q (Inl e) (tick w)"
    and "\<And>x view'. f (answer_now w) t view = Inr (x, view') \<Longrightarrow>
           wp (k x) Q ((tick w)\<lparr>w_tx := Some (t, view')\<rparr>)"
  shows "wp (await (tsql f) k) Q w"
  unfolding wp_await by (rule wp_tsql [OF assms(1)]) (use assms in auto)

lemma wp_await_commit:
  assumes "w_tx w = Some (t, view)" "\<And>e. Q (Inl e) ((tick w)\<lparr>w_tx := None\<rparr>)"
    and "\<And>e. Q (Inl e) ((tick w)\<lparr>w_db := view, w_tx := None\<rparr>)"
    and "wp (k ()) Q ((tick w)\<lparr>w_db := view, w_tx := None\<rparr>)"
  shows "wp (await commit k) Q w"
  unfolding wp_await by (rule wp_commit [OF assms(1)]) (use assms in \<open>auto split: sum.splits\<close>)

lemma wp_await_rollback:
  assumes "\<And>e. Q (Inl e) ((tick w)\<lparr>w_tx := None\<rparr>)" "wp (k ()) Q ((tick w)\<lparr>w_tx := None\<rparr>)"
  shows "wp (await rollback k) Q w"
  unfolding wp_await by (rule wp_rollback) (use assms in \<open>auto split: sum.splits\<close>)

lemma tick_simps [simp]:
  "w_db (tick w) = w_db w" "w_tx (tick w) = w_tx w" "w_env (tick w) = w_env w"
  "w_pos (tick w) = Suc (w_pos w)" "w_sent (tick w) = w_sent w" "w_limiter (tick w) = w_limiter w"
  "w_pings (tick w) = w_pings w"
  by (simp_all add: tick_def)

lemma seen_update [simp]:
  "seen (w\<lparr>w_tx := x\<rparr>) = seen w" "seen (w\<lparr>w_sent := y\<rparr>) = seen w"
  "seen (w\<lparr>w_limiter := l\<rparr>) = seen w" "seen (w\<lparr>w_pings := n\<rparr>) = seen w"
  by (simp_all add: seen_def answer_now_def)

text \<open>What a successful run went through, step by step.\<close>

lemma await_okE:
  assumes "await m k w = (Inr y, w')"
  obtains x w1 where "m w = (Inr x, w1)" "k x w1 = (Inr y, w')"
  using assms by (auto simp: await_def split: prod.splits sum.splits)

lemma tsql_okE:
  assumes "tsql f w = (Inr x, w')" "w_tx w = Some (t, view)"
  obtains view' where "f (answer_now w) t view = Inr (x, view')" "w' = (tick w)\<lparr>w_tx := Some (t, view')\<rparr>"
  using assms by (auto simp: tsql_def Let_def split: if_splits sum.splits)

lemma with_tx_okE:
  assumes "with_tx body w = (Inr x, w')"
  obtains w1 where
    "body ((tick w)\<lparr>w_db := seen w, w_tx := Some (an_now (answer_now w), seen w)\<rparr>) = (Inr x, w1)" "w' = w1\<lparr>w_tx := None\<rparr>"
  using assms by (auto simp: with_tx_def Let_def split: if_splits prod.splits)

lemma commit_okD: "commit w = (Inr x, w') \<Longrightarrow> w_tx w = Some (t, view) \<Longrightarrow> w' = (tick w)\<lparr>w_db := view, w_tx := None\<rparr>"
  by (auto simp: commit_def Let_def split: fault.splits)

lemma rollback_okD: "rollback w = (Inr x, w') \<Longrightarrow> w' = (tick w)\<lparr>w_tx := None\<rparr>"
  by (auto simp: rollback_def Let_def split: if_splits)

text \<open>The parts of a world that a transaction does not touch before it commits.\<close>

definition outside_same :: "world \<Rightarrow> world \<Rightarrow> bool" where
  "outside_same w w' \<longleftrightarrow> w_db w' = w_db w \<and> w_env w' = w_env w \<and> w_sent w' = w_sent w"

lemma outside_same_refl [simp, intro]: "outside_same w w"
  by (simp add: outside_same_def)

lemma outside_same_trans: "outside_same a b \<Longrightarrow> outside_same b c \<Longrightarrow> outside_same a c"
  by (simp add: outside_same_def)

lemma outside_same_simps [simp]:
  "outside_same w (w'\<lparr>w_tx := x\<rparr>) \<longleftrightarrow> outside_same w w'"
  "outside_same w (tick w') \<longleftrightarrow> outside_same w w'"
  "outside_same (w\<lparr>w_tx := x\<rparr>) w' \<longleftrightarrow> outside_same w w'"
  "outside_same (tick w) w' \<longleftrightarrow> outside_same w w'"
  by (simp_all add: outside_same_def)

section \<open>Rely and guarantee\<close>

text \<open>A program obeys a step relation \<open>R\<close> of the database when, in every environment
  whose other tasks only take \<open>R\<close> steps, what it commits is a sequence of \<open>R\<close> steps too.\<close>

definition env_ok :: "(db \<Rightarrow> db \<Rightarrow> bool) \<Rightarrow> world \<Rightarrow> bool" where
  "env_ok R w \<longleftrightarrow> (\<forall>n db. rtranclp R db (an_others (w_env w n) db))"

definition obeys :: "(db \<Rightarrow> db \<Rightarrow> bool) \<Rightarrow> 'a io \<Rightarrow> bool" where
  "obeys R m \<longleftrightarrow>
     (\<forall>w. env_ok R w \<longrightarrow> wp m (\<lambda>r w'. rtranclp R (w_db w) (w_db w') \<and> w_env w' = w_env w) w)"

lemma obeysI:
  assumes "\<And>w. env_ok R w \<Longrightarrow> wp m (\<lambda>r w'. rtranclp R (w_db w) (w_db w') \<and> w_env w' = w_env w) w"
  shows "obeys R m"
  using assms by (simp add: obeys_def)

lemma obeysD:
  assumes "obeys R m" "m w = (r, w')" "env_ok R w"
  shows "rtranclp R (w_db w) (w_db w') \<and> w_env w' = w_env w"
  using assms wpD unfolding obeys_def by fastforce

lemma env_ok_cong: "w_env w' = w_env w \<Longrightarrow> env_ok R w' = env_ok R w"
  by (simp add: env_ok_def)

lemma env_ok_tick [simp]: "env_ok R (tick w) = env_ok R w"
  by (simp add: env_ok_def)

lemma seen_steps: "env_ok R w \<Longrightarrow> rtranclp R (w_db w) (seen w)"
  by (simp add: env_ok_def seen_def answer_now_def)

named_theorems obeys_intro "programs that only take permitted steps"

lemma obeys_basic [obeys_intro]: "obeys R (ok x)" "obeys R (err e)"
  by (simp_all add: obeys_def wp_rules)

lemma obeys_await [obeys_intro]:
  assumes "obeys R m" "\<And>x. obeys R (k x)"
  shows "obeys R (await m k)"
proof (rule obeysI)
  fix w
  assume env: "env_ok R w"
  obtain r w1 where m: "m w = (r, w1)" by (cases "m w")
  note s1 = obeysD [OF assms(1) m env]
  show "wp (await m k) (\<lambda>r w'. rtranclp R (w_db w) (w_db w') \<and> w_env w' = w_env w) w"
  proof (cases r)
    case (Inr x)
    obtain r2 w2 where k: "k x w1 = (r2, w2)" by (cases "k x w1")
    have "env_ok R w1" using s1 env env_ok_cong by blast
    from obeysD [OF assms(2) k this] s1 Inr m k show ?thesis
      by (auto simp: wp_def await_def intro: rtranclp_trans)
  qed (use s1 m in \<open>simp add: wp_def await_def\<close>)
qed

lemma obeys_try_await [obeys_intro]:
  assumes "obeys R m" "\<And>r. obeys R (k r)"
  shows "obeys R (try_await m k)"
proof (rule obeysI)
  fix w
  assume env: "env_ok R w"
  obtain r w1 where m: "m w = (r, w1)" by (cases "m w")
  note s1 = obeysD [OF assms(1) m env]
  obtain r2 w2 where k: "k r w1 = (r2, w2)" by (cases "k r w1")
  have "env_ok R w1" using s1 env env_ok_cong by blast
  from obeysD [OF assms(2) k this] s1 m k
  show "wp (try_await m k) (\<lambda>r w'. rtranclp R (w_db w) (w_db w') \<and> w_env w' = w_env w) w"
    by (auto simp: wp_def try_await_def intro: rtranclp_trans)
qed

lemma obeys_wp:
  assumes "obeys R m" "env_ok R w" "w_db w1 = w_db w" "w_env w1 = w_env w"
  shows "wp m (\<lambda>r w'. rtranclp R (w_db w) (w_db w') \<and> w_env w' = w_env w) w1"
proof -
  have "env_ok R w1" using assms(2) env_ok_cong [OF assms(4)] by blast
  then have "wp m (\<lambda>r w'. rtranclp R (w_db w1) (w_db w') \<and> w_env w' = w_env w1) w1"
    using assms(1) by (simp add: obeys_def)
  then show ?thesis using assms(3,4) by simp
qed

text \<open>Reading a clock, an id, a random draw or a flag, and sending a request.\<close>

lemma obeys_reads [obeys_intro]:
  "(\<And>x. obeys R (k1 x)) \<Longrightarrow> obeys R (utc_now k1)"
  "(\<And>x. obeys R (k2 x)) \<Longrightarrow> obeys R (now_v7 k2)"
  "(\<And>x. obeys R (k3 x)) \<Longrightarrow> obeys R (draw k3)"
  "(\<And>x. obeys R (k4 x)) \<Longrightarrow> obeys R (read_flag k4)"
  "(\<And>x. obeys R (k5 x)) \<Longrightarrow> obeys R (http_send rq k5)"
  by (rule obeysI; simp add: wp_rules; rule obeys_wp; simp)+

lemma obeys_server [obeys_intro]:
  "(\<And>x. obeys R (k1 x)) \<Longrightarrow> obeys R (fill_bytes k1)"
  "obeys R m \<Longrightarrow> obeys R (ping m)"
  "(\<And>x. obeys R (k2 x)) \<Longrightarrow> obeys R (limiter_check rnd key k2)"
  by (rule obeysI; simp add: wp_rules split: prod.split; (intro allI impI)?; rule obeys_wp; simp)+

lemma obeys_sql [obeys_intro]:
  assumes "\<And>a db x db'. f a db = Inr (x, db') \<Longrightarrow> rtranclp R db db'"
  shows "obeys R (sql f)"
proof (rule obeysI, rule wp_sql)
  fix w x db'
  assume env: "env_ok R w" and "f (answer_now w) (seen w) = Inr (x, db')"
  then have "rtranclp R (w_db w) db'" using assms seen_steps rtranclp_trans by metis
  then show "(rtranclp R (w_db w) (w_db ((tick w)\<lparr>w_db := db'\<rparr>)) \<and> w_env ((tick w)\<lparr>w_db := db'\<rparr>) = w_env w) \<and>
    rtranclp R (w_db w) (w_db ((tick w)\<lparr>w_db := db'\<rparr>)) \<and> w_env ((tick w)\<lparr>w_db := db'\<rparr>) = w_env w" by simp
qed (simp add: seen_steps)

lemma obeys_with_tx:
  assumes "\<And>w t. w_tx w = Some (t, w_db w) \<Longrightarrow>
      wp body (\<lambda>r w'. (w_db w' = w_db w \<or> R (w_db w) (w_db w')) \<and> w_env w' = w_env w) w"
  shows "obeys R (with_tx body)"
proof (rule obeysI, rule wp_with_tx)
  fix w
  assume "env_ok R w"
  then have s: "rtranclp R (w_db w) (seen w)" by (rule seen_steps)
  let ?w = "(tick w)\<lparr>w_db := seen w, w_tx := Some (an_now (answer_now w), seen w)\<rparr>"
  have "wp body (\<lambda>r w'. (w_db w' = w_db ?w \<or> R (w_db ?w) (w_db w')) \<and> w_env w' = w_env ?w) ?w"
    by (rule assms [of _ "an_now (answer_now w)"]) simp
  then show "wp body (\<lambda>r w'. rtranclp R (w_db w) (w_db (w'\<lparr>w_tx := None\<rparr>)) \<and> w_env (w'\<lparr>w_tx := None\<rparr>) = w_env w) ?w"
    by (rule wp_mono) (use s in auto)
qed (simp add: seen_steps)

text \<open>A program that obeys \<open>R\<close> when it starts where \<open>P\<close> holds of the committed database.\<close>

definition obeys_from :: "(db \<Rightarrow> bool) \<Rightarrow> (db \<Rightarrow> db \<Rightarrow> bool) \<Rightarrow> 'a io \<Rightarrow> bool" where
  "obeys_from P R m \<longleftrightarrow>
     (\<forall>w. env_ok R w \<longrightarrow> P (w_db w) \<longrightarrow>
        wp m (\<lambda>r w'. rtranclp R (w_db w) (w_db w') \<and> w_env w' = w_env w) w)"

lemma obeys_fromI:
  assumes "\<And>w r w'. env_ok R w \<Longrightarrow> P (w_db w) \<Longrightarrow> m w = (r, w') \<Longrightarrow>
    rtranclp R (w_db w) (w_db w') \<and> w_env w' = w_env w"
  shows "obeys_from P R m"
  using assms by (auto simp: obeys_from_def wp_def split: prod.splits)

lemma obeys_fromD:
  assumes "obeys_from P R m" "env_ok R w" "P (w_db w)" "m w = (r, w')"
  shows "rtranclp R (w_db w) (w_db w') \<and> w_env w' = w_env w"
  using assms wpD unfolding obeys_from_def by fastforce

lemma obeys_from_weaken: "obeys R m \<Longrightarrow> obeys_from P R m"
  by (simp add: obeys_def obeys_from_def)

lemma obeys_from_try_await:
  assumes "obeys_from P R m" "\<And>r. obeys R (k r)"
  shows "obeys_from P R (try_await m k)"
proof (rule obeys_fromI)
  fix w r w'
  assume env: "env_ok R w" and P: "P (w_db w)" and run: "try_await m k w = (r, w')"
  obtain r1 w1 where m: "m w = (r1, w1)" by (cases "m w")
  note s1 = obeys_fromD [OF assms(1) env P m]
  have "k r1 w1 = (r, w')" using run m by (simp add: try_await_def)
  moreover have "env_ok R w1" using s1 env env_ok_cong by blast
  ultimately have "rtranclp R (w_db w1) (w_db w') \<and> w_env w' = w_env w1" by (rule obeysD [OF assms(2)])
  with s1 show "rtranclp R (w_db w) (w_db w') \<and> w_env w' = w_env w" by (auto intro: rtranclp_trans)
qed

lemma await_assoc: "await (await m k1) k2 = await m (\<lambda>x. await (k1 x) k2)"
  by (rule ext) (simp add: await_def split: prod.split sum.split)

lemma await_as_try: "await m k = try_await m (\<lambda>r. case r of Inl e \<Rightarrow> err e | Inr x \<Rightarrow> k x)"
  by (rule ext) (simp add: await_def try_await_def err_def split: prod.split sum.split)

lemma obeys_from_await:
  assumes "obeys_from P R m" "\<And>x. obeys R (k x)"
  shows "obeys_from P R (await m k)"
  unfolding await_as_try using assms by (auto intro!: obeys_from_try_await obeys_basic split: sum.split)

text \<open>The rest of a program may rely on what the first part establishes.\<close>

lemma obeys_established:
  assumes "obeys R m" "\<And>w r w'. m w = (r, w') \<Longrightarrow> P r (w_db w')" "\<And>r. obeys_from (P r) R (k r)"
  shows "obeys R (try_await m k)"
proof (rule obeysI)
  fix w
  assume env: "env_ok R w"
  obtain r w1 where m: "m w = (r, w1)" by (rule prod.exhaust)
  obtain r2 w2 where k: "k r w1 = (r2, w2)" by (cases "k r w1")
  note s1 = obeysD [OF assms(1) m env]
  have "env_ok R w1" using s1 env env_ok_cong by blast
  then have "rtranclp R (w_db w1) (w_db w2) \<and> w_env w2 = w_env w1"
    using obeys_fromD [OF assms(3) _ assms(2) [OF m] k] by blast
  with s1 m k show "wp (try_await m k) (\<lambda>r w'. rtranclp R (w_db w) (w_db w') \<and> w_env w' = w_env w) w"
    by (auto simp: wp_def try_await_def intro: rtranclp_trans)
qed

text \<open>With a condition that the permitted steps keep, programs compose as before.\<close>

definition kept_by :: "(db \<Rightarrow> db \<Rightarrow> bool) \<Rightarrow> (db \<Rightarrow> bool) \<Rightarrow> bool" where
  "kept_by R P \<longleftrightarrow> (\<forall>db db'. rtranclp R db db' \<longrightarrow> P db \<longrightarrow> P db')"

named_theorems obeys_from_intro "programs that only take permitted steps from where a kept condition holds"

lemma obeys_from_basic [obeys_from_intro]: "obeys_from P R (ok x)" "obeys_from P R (err e)"
  by (simp_all add: obeys_from_weaken obeys_basic)

lemma obeys_from_try [obeys_from_intro]:
  assumes "kept_by R P" "obeys_from P R m" "\<And>r. obeys_from P R (k r)"
  shows "obeys_from P R (try_await m k)"
proof (rule obeys_fromI)
  fix w r w'
  assume env: "env_ok R w" and P: "P (w_db w)" and run: "try_await m k w = (r, w')"
  obtain r1 w1 where m: "m w = (r1, w1)" by (cases "m w")
  note s1 = obeys_fromD [OF assms(2) env P m]
  have k: "k r1 w1 = (r, w')" using run m by (simp add: try_await_def)
  have "env_ok R w1" using s1 env env_ok_cong by blast
  moreover have "P (w_db w1)" using assms(1) s1 P unfolding kept_by_def by blast
  ultimately have "rtranclp R (w_db w1) (w_db w') \<and> w_env w' = w_env w1" by (rule obeys_fromD [OF assms(3) _ _ k])
  with s1 show "rtranclp R (w_db w) (w_db w') \<and> w_env w' = w_env w" by (auto intro: rtranclp_trans)
qed

lemma obeys_from_then [obeys_from_intro]:
  "kept_by R P \<Longrightarrow> obeys_from P R m \<Longrightarrow> (\<And>x. obeys_from P R (k x)) \<Longrightarrow> obeys_from P R (await m k)"
  unfolding await_as_try by (rule obeys_from_try) (auto split: sum.split intro: obeys_from_basic)

lemma obeys_from_server [obeys_from_intro]:
  "(\<And>x. obeys_from P R (k1 x)) \<Longrightarrow> obeys_from P R (fill_bytes k1)"
  "obeys_from P R m \<Longrightarrow> obeys_from P R (ping m)"
  "(\<And>x. obeys_from P R (k2 x)) \<Longrightarrow> obeys_from P R (limiter_check rnd key k2)"
proof -
  have next_world: "wp m (\<lambda>r w'. rtranclp R (w_db w) (w_db w') \<and> w_env w' = w_env w) w1"
    if "obeys_from P R m" "env_ok R w" "P (w_db w)" "w_db w1 = w_db w" "w_env w1 = w_env w" for m :: "'z io" and w w1
    using that env_ok_cong [of w1 w] unfolding obeys_from_def by force
  show "obeys_from P R (fill_bytes k1)" if "\<And>x. obeys_from P R (k1 x)"
    using that by (subst obeys_from_def) (auto simp: wp_rules intro!: next_world)
  show "obeys_from P R (ping m)" if "obeys_from P R m"
    using that by (subst obeys_from_def) (auto simp: wp_rules intro!: next_world)
  show "obeys_from P R (limiter_check rnd key k2)" if "\<And>x. obeys_from P R (k2 x)"
    using that by (subst obeys_from_def) (auto simp: wp_rules intro!: next_world split: prod.split)
qed

text \<open>A statement that may rely on a condition the other tasks keep.\<close>

lemma obeys_from_sql:
  assumes "kept_by R P"
    and "\<And>a db x db'. P db \<Longrightarrow> f a db = Inr (x, db') \<Longrightarrow> rtranclp R db db'"
  shows "obeys_from P R (sql f)"
  unfolding obeys_from_def
proof (intro allI impI, rule wp_sql)
  fix w x db'
  assume env: "env_ok R w" and P: "P (w_db w)" and f: "f (answer_now w) (seen w) = Inr (x, db')"
  note s = seen_steps [OF env]
  have "P (seen w)" using assms(1) s P unfolding kept_by_def by blast
  then have "rtranclp R (w_db w) db'" by (rule rtranclp_trans [OF s assms(2) [OF _ f]])
  then show "(rtranclp R (w_db w) (w_db ((tick w)\<lparr>w_db := db'\<rparr>)) \<and> w_env ((tick w)\<lparr>w_db := db'\<rparr>) = w_env w) \<and>
    rtranclp R (w_db w) (w_db ((tick w)\<lparr>w_db := db'\<rparr>)) \<and> w_env ((tick w)\<lparr>w_db := db'\<rparr>) = w_env w" by simp
qed (simp add: seen_steps)

section \<open>A quiet environment\<close>

text \<open>Nobody else is active, nothing fails, ids count up, and every receiver answers with the
  given reply: the environment of the witnesses.\<close>

definition quiet :: "timestamp \<Rightarrow> http_result \<Rightarrow> nat \<Rightarrow> answer" where
  "quiet now reply n =
     \<lparr>an_others = id, an_fault = No_fault, an_now = now, an_uuid = word_of_nat (Suc n), an_rand = id,
      an_locked = (\<lambda>_. False), an_http = reply, an_flag = False, an_fill = [7], an_instant = 0, an_checks = id\<rparr>"

definition quiet_world :: "timestamp \<Rightarrow> http_result \<Rightarrow> db \<Rightarrow> world" where
  "quiet_world now reply db =
     \<lparr>w_db = db, w_tx = None, w_env = quiet now reply, w_pos = 0, w_sent = [],
      w_limiter = limiter_new 0 0, w_pings = 0\<rparr>"

lemmas run_defs = await_def try_await_def ok_def err_def sql_def tsql_def with_tx_def commit_def rollback_def
  utc_now_def now_v7_def draw_def read_flag_def http_send_def fill_bytes_def limiter_check_def ping_def seen_def answer_now_def tick_def Let_def
  quiet_world_def quiet_def

end
