(* ===== verification/Ledger.thy ===== *)
theory Ledger
  imports Store "HOL-Library.Sublist"
begin

text \<open>
  What the statements of \<open>store.rs\<close> keep of the database. No statement deletes a row or
  rewrites the columns that say what a row is about: \<open>extends db db'\<close> says that every table
  of \<open>db'\<close> continues the table of \<open>db\<close>, events, attempts, dead letters, API keys and
  sources unchanged, the other tables on their identity columns. The row functions are
  interpreted as \<open>keyed_update\<close>, and every statement is shown to extend the database and to
  keep the primary keys and unique constraints of the schema (\<open>keys_ok\<close>).
\<close>

named_theorems extends_intro "statements extend the database"
named_theorems keys_intro "statements keep the keys of the database"

section \<open>Identity columns\<close>

definition dl_identity :: "delivery \<Rightarrow> uuid \<times> uuid \<times> uuid \<times> string \<times> string \<times> timestamp" where
  "dl_identity d =
     (dl_id d, dl_event_id d, dl_endpoint_id d, dl_tenant_id d, dl_idempotency_key d, dl_created_at d)"

definition ep_identity :: "endpoint \<Rightarrow> uuid \<times> string \<times> uuid option \<times> string \<times> timestamp" where
  "ep_identity e = (ep_id e, ep_tenant_id e, ep_consumer_id e, ep_secret e, ep_created_at e)"

definition co_identity :: "consumer \<Rightarrow> uuid \<times> string \<times> string \<times> timestamp" where
  "co_identity c = (co_id c, co_tenant_id c, co_uid c, co_created_at c)"

definition ie_identity ::
  "inbound_event \<Rightarrow> uuid \<times> uuid \<times> string \<times> string option \<times> string \<times> bytes \<times> timestamp" where
  "ie_identity i = (ie_id i, ie_source_id i, ie_tenant_id i, ie_source_event_id i, ie_event_type i,
     ie_raw_body i, ie_received_at i)"

lemmas identity_defs = dl_identity_def ep_identity_def co_identity_def ie_identity_def

interpretation claim_w: keyed_update dl_identity "claim_row now worker lock" for now worker lock
  by unfold_locales (simp add: dl_identity_def claim_row_def)

interpretation succeeded_w: keyed_update dl_identity "succeeded_row now n" for now n
  by unfold_locales (simp add: dl_identity_def succeeded_row_def)

interpretation failed_w: keyed_update dl_identity "failed_row now n next err" for now n "next" err
  by unfold_locales (simp add: dl_identity_def failed_row_def)

interpretation deferred_w: keyed_update dl_identity "deferred_row now next" for now "next"
  by unfold_locales (simp add: dl_identity_def deferred_row_def)

interpretation dead_w: keyed_update dl_identity "dead_row now reason" for now reason
  by unfold_locales (simp add: dl_identity_def dead_row_def)

interpretation replay_w: keyed_update dl_identity "replay_row now" for now
  by unfold_locales (simp add: dl_identity_def replay_row_def)

interpretation circuit_w: keyed_update ep_identity "set_circuit now st u n" for now st u n
  by unfold_locales (simp add: ep_identity_def set_circuit_def)

interpretation probe_w: keyed_update ep_identity "half_open_row now l" for now l
  by unfold_locales (simp add: ep_identity_def half_open_row_def)

interpretation patch_w: keyed_update ep_identity "patch_endpoint now url dis tys" for now url dis tys
  by unfold_locales (simp add: ep_identity_def patch_endpoint_def)

interpretation relabel_w: keyed_update co_identity "relabel_consumer now name" for now name
  by unfold_locales (simp add: co_identity_def relabel_consumer_def)

interpretation link_w: keyed_update ie_identity "\<lambda>i. i\<lparr>ie_event_id := Some e\<rparr>" for e
  by unfold_locales (simp add: ie_identity_def)

lemmas writes_identity [simp] =
  claim_w.keys_update_where succeeded_w.keys_update_where failed_w.keys_update_where
  deferred_w.keys_update_where dead_w.keys_update_where replay_w.keys_update_where
  circuit_w.keys_update_where probe_w.keys_update_where patch_w.keys_update_where
  relabel_w.keys_update_where link_w.keys_update_where

section \<open>Extension\<close>

definition extends :: "db \<Rightarrow> db \<Rightarrow> bool" where
  "extends db db' \<longleftrightarrow>
     prefix (t_events db) (t_events db') \<and>
     prefix (t_attempts db) (t_attempts db') \<and>
     prefix (t_dead_letters db) (t_dead_letters db') \<and>
     prefix (t_api_keys db) (t_api_keys db') \<and>
     prefix (t_sources db) (t_sources db') \<and>
     prefix (map dl_identity (t_deliveries db)) (map dl_identity (t_deliveries db')) \<and>
     prefix (map ep_identity (t_endpoints db)) (map ep_identity (t_endpoints db')) \<and>
     prefix (map co_identity (t_consumers db)) (map co_identity (t_consumers db')) \<and>
     prefix (map ie_identity (t_inbound db)) (map ie_identity (t_inbound db'))"

lemma extends_refl [simp, intro]: "extends db db"
  by (simp add: extends_def)

lemma extends_trans: "extends a b \<Longrightarrow> extends b c \<Longrightarrow> extends a c"
  unfolding extends_def by (meson prefix_order.trans)

lemma extends_events: "extends db db' \<Longrightarrow> set (t_events db) \<subseteq> set (t_events db')"
  by (auto simp: extends_def dest: set_mono_prefix)

lemma extends_attempts: "extends db db' \<Longrightarrow> set (t_attempts db) \<subseteq> set (t_attempts db')"
  by (auto simp: extends_def dest: set_mono_prefix)

lemma extends_dead_letters: "extends db db' \<Longrightarrow> set (t_dead_letters db) \<subseteq> set (t_dead_letters db')"
  by (auto simp: extends_def dest: set_mono_prefix)

lemma prefix_map_member: "prefix (map f xs) (map f ys) \<Longrightarrow> x \<in> set xs \<Longrightarrow> \<exists>y\<in>set ys. f y = f x"
proof -
  assume "prefix (map f xs) (map f ys)" "x \<in> set xs"
  then have "f x \<in> f ` set ys" using set_mono_prefix [of "map f xs" "map f ys"] by auto
  then show ?thesis by (metis imageE)
qed

lemma extends_endpoint:
  "extends db db' \<Longrightarrow> e \<in> set (t_endpoints db) \<Longrightarrow> \<exists>e'\<in>set (t_endpoints db'). ep_identity e' = ep_identity e"
  by (auto simp: extends_def intro: prefix_map_member)

lemma extends_delivery:
  "extends db db' \<Longrightarrow> d \<in> set (t_deliveries db) \<Longrightarrow> \<exists>d'\<in>set (t_deliveries db'). dl_identity d' = dl_identity d"
  by (auto simp: extends_def intro: prefix_map_member)

lemma create_endpoint_extends [extends_intro]:
  "create_endpoint now fresh t c u s ty db = Inr (r, db') \<Longrightarrow> extends db db'"
  by (auto simp: create_endpoint_def unique_violation_def fk_violation_def extends_def Let_def split: if_splits)

lemma create_consumer_extends [extends_intro]:
  "create_consumer now fresh t u n db = Inr (r, db') \<Longrightarrow> extends db db'"
  by (auto simp: create_consumer_def unique_violation_def extends_def Let_def split: if_splits option.splits)

lemma update_endpoint_extends [extends_intro]:
  "update_endpoint now e t u d ty db = Inr (r, db') \<Longrightarrow> extends db db'"
  by (auto simp: update_endpoint_def extends_def Let_def)

lemma create_inbound_source_extends [extends_intro]:
  "create_inbound_source now fresh t s p k db = Inr (r, db') \<Longrightarrow> extends db db'"
  by (auto simp: create_inbound_source_def unique_violation_def extends_def Let_def split: if_splits)

lemma insert_inbound_event_extends [extends_intro]:
  "insert_inbound_event now i s t sid ty raw db = Inr (r, db') \<Longrightarrow> extends db db'"
  by (auto simp: insert_inbound_event_def unique_violation_def fk_violation_def extends_def Let_def
      split: if_splits)

lemma link_inbound_event_extends [extends_intro]:
  "link_inbound_event i e db = Inr (r, db') \<Longrightarrow> extends db db'"
  by (auto simp: link_inbound_event_def fk_violation_def extends_def split: if_splits)

lemma insert_event_extends [extends_intro]:
  "insert_event now e t c ty p db = Inr (r, db') \<Longrightarrow> extends db db'"
  by (auto simp: insert_event_def unique_violation_def fk_violation_def extends_def Let_def split: if_splits)

lemma insert_delivery_extends [extends_intro]:
  "insert_delivery ushow now d e p t db = Inr (r, db') \<Longrightarrow> extends db db'"
  by (auto simp: insert_delivery_def unique_violation_def fk_violation_def extends_def split: if_splits)

lemma claim_extends [extends_intro]:
  "claim_due_deliveries now locked w b l db = Inr (r, db') \<Longrightarrow> extends db db'"
  by (auto simp: claim_due_deliveries_def extends_def Let_def split: if_splits)

lemma record_attempt_extends [extends_intro]:
  "record_attempt fresh d n c s e t1 t2 db = Inr (r, db') \<Longrightarrow> extends db db'"
  by (auto simp: record_attempt_def invalid_text_def unique_violation_def fk_violation_def extends_def Let_def split: if_splits)

lemma mark_succeeded_extends [extends_intro]:
  "mark_succeeded now d w n db = Inr (r, db') \<Longrightarrow> extends db db'"
  by (auto simp: mark_succeeded_def lease_update_def extends_def Let_def)

lemma mark_failed_extends [extends_intro]:
  "mark_failed now d w n nx e db = Inr (r, db') \<Longrightarrow> extends db db'"
  by (auto simp: mark_failed_def lease_update_def extends_def Let_def)

lemma defer_delivery_extends [extends_intro]:
  "defer_delivery now d w nx db = Inr (r, db') \<Longrightarrow> extends db db'"
  by (auto simp: defer_delivery_def lease_update_def extends_def Let_def)

lemma mark_dead_on_extends [extends_intro]:
  "mark_dead_on now fresh d w reason db = Inr (r, db') \<Longrightarrow> extends db db'"
  by (auto simp: mark_dead_on_def lease_update_def unique_violation_def fk_violation_def extends_def Let_def
      split: if_splits)

lemma update_circuit_extends [extends_intro]:
  "update_circuit now e s u n db = Inr (r, db') \<Longrightarrow> extends db db'"
  by (auto simp: update_circuit_def extends_def)

lemma try_acquire_probe_extends [extends_intro]:
  "try_acquire_probe now e l db = Inr (r, db') \<Longrightarrow> extends db db'"
  by (auto simp: try_acquire_probe_def extends_def Let_def)

lemma reset_for_replay_extends [extends_intro]:
  "reset_for_replay now d db = Inr (r, db') \<Longrightarrow> extends db db'"
  by (auto simp: reset_for_replay_def extends_def Let_def)

lemma insert_api_key_extends [extends_intro]:
  "insert_api_key now fresh t h db = Inr (r, db') \<Longrightarrow> extends db db'"
  by (auto simp: insert_api_key_def unique_violation_def extends_def Let_def split: if_splits)

section \<open>Keys and unique constraints\<close>

definition dedup_key :: "inbound_event \<Rightarrow> uuid \<times> string option" where
  "dedup_key i = (ie_source_id i, ie_source_event_id i)"

definition has_dedup_key :: "inbound_event \<Rightarrow> bool" where
  "has_dedup_key i \<longleftrightarrow> ie_source_event_id i \<noteq> None"

definition keys_ok :: "db \<Rightarrow> bool" where
  "keys_ok db \<longleftrightarrow>
     distinct (map ev_id (t_events db)) \<and>
     distinct (map ep_id (t_endpoints db)) \<and>
     distinct (map dl_id (t_deliveries db)) \<and>
     distinct (map (\<lambda>d. (dl_event_id d, dl_endpoint_id d)) (t_deliveries db)) \<and>
     distinct (map da_id (t_attempts db)) \<and>
     distinct (map dd_id (t_dead_letters db)) \<and>
     distinct (map ak_id (t_api_keys db)) \<and> distinct (map ak_key_hash (t_api_keys db)) \<and>
     distinct (map is_id (t_sources db)) \<and> distinct (map is_slug (t_sources db)) \<and>
     distinct (map ie_id (t_inbound db)) \<and>
     distinct (map dedup_key (filter has_dedup_key (t_inbound db))) \<and>
     distinct (map co_id (t_consumers db)) \<and>
     distinct (map (\<lambda>c. (co_tenant_id c, co_uid c)) (t_consumers db))"

text \<open>A key that is a function of the identity columns is kept wherever those are.\<close>

lemma map_of_identity:
  assumes "map ident xs = map ident ys" "\<And>x. key x = g (ident x)"
  shows "map key xs = map key ys"
proof -
  have "map key xs = map g (map ident xs)" using assms(2) by simp
  also have "\<dots> = map key ys" using assms by simp
  finally show ?thesis .
qed

lemma dl_keys_same:
  assumes "map dl_identity xs = map dl_identity ys"
  shows "map dl_id xs = map dl_id ys"
    and "map (\<lambda>d. (dl_event_id d, dl_endpoint_id d)) xs = map (\<lambda>d. (dl_event_id d, dl_endpoint_id d)) ys"
  by (rule map_of_identity [OF assms, of _ fst], simp add: dl_identity_def)
     (rule map_of_identity [OF assms, of _ "\<lambda>(a, b, c, _). (b, c)"], simp add: dl_identity_def)

lemma ep_keys_same: "map ep_identity xs = map ep_identity ys \<Longrightarrow> map ep_id xs = map ep_id ys"
  by (erule map_of_identity [of _ _ _ _ fst]) (simp add: ep_identity_def)

lemma co_keys_same:
  assumes "map co_identity xs = map co_identity ys"
  shows "map co_id xs = map co_id ys"
    and "map (\<lambda>c. (co_tenant_id c, co_uid c)) xs = map (\<lambda>c. (co_tenant_id c, co_uid c)) ys"
  by (rule map_of_identity [OF assms, of _ fst], simp add: co_identity_def)
     (rule map_of_identity [OF assms, of _ "\<lambda>(a, b, c, _). (b, c)"], simp add: co_identity_def)

lemma ie_keys_same:
  assumes "map ie_identity xs = map ie_identity ys"
  shows "map ie_id xs = map ie_id ys"
    and "map dedup_key (filter has_dedup_key xs) = map dedup_key (filter has_dedup_key ys)"
proof -
  show "map ie_id xs = map ie_id ys"
    by (rule map_of_identity [OF assms, of _ fst]) (simp add: ie_identity_def)
  have "map dedup_key (filter has_dedup_key zs) =
      map (\<lambda>(a, b, c, d, _). (b, d)) (filter (\<lambda>(a, b, c, d, _). d \<noteq> None) (map ie_identity zs))" for zs
    by (induction zs) (simp_all add: dedup_key_def has_dedup_key_def ie_identity_def)
  with assms show "map dedup_key (filter has_dedup_key xs) = map dedup_key (filter has_dedup_key ys)"
    by simp
qed

lemma keys_ok_deliveries:
  "keys_ok db \<Longrightarrow> map dl_identity rows = map dl_identity (t_deliveries db) \<Longrightarrow>
   keys_ok (db\<lparr>t_deliveries := rows\<rparr>)"
  using dl_keys_same [of rows "t_deliveries db"] by (simp add: keys_ok_def)

lemma keys_ok_endpoints:
  "keys_ok db \<Longrightarrow> map ep_identity rows = map ep_identity (t_endpoints db) \<Longrightarrow>
   keys_ok (db\<lparr>t_endpoints := rows\<rparr>)"
  using ep_keys_same [of rows "t_endpoints db"] by (simp add: keys_ok_def)

lemma keys_ok_consumers:
  "keys_ok db \<Longrightarrow> map co_identity rows = map co_identity (t_consumers db) \<Longrightarrow>
   keys_ok (db\<lparr>t_consumers := rows\<rparr>)"
  using co_keys_same [of rows "t_consumers db"] by (simp add: keys_ok_def)

lemma keys_ok_inbound:
  "keys_ok db \<Longrightarrow> map ie_identity rows = map ie_identity (t_inbound db) \<Longrightarrow>
   keys_ok (db\<lparr>t_inbound := rows\<rparr>)"
  using ie_keys_same [of rows "t_inbound db"] by (simp add: keys_ok_def)

lemma empty_db_keys [simp]: "keys_ok empty_db"
  by (simp add: keys_ok_def empty_db_def)

lemma create_endpoint_keys [keys_intro]:
  "create_endpoint now fresh t c u s ty db = Inr (r, db') \<Longrightarrow> keys_ok db \<Longrightarrow> keys_ok db'"
  by (auto simp: create_endpoint_def unique_violation_def fk_violation_def keys_ok_def Let_def split: if_splits)

lemma create_consumer_keys [keys_intro]:
  assumes "create_consumer now fresh t u n db = Inr (r, db')" "keys_ok db"
  shows "keys_ok db'"
proof (cases "List.find (\<lambda>c. co_tenant_id c = t \<and> co_uid c = u) (t_consumers db)")
  case None
  then have "(t, u) \<notin> (\<lambda>c. (co_tenant_id c, co_uid c)) ` set (t_consumers db)"
    by (auto simp: find_none_iff)
  with None assms show ?thesis
    by (auto simp: create_consumer_def unique_violation_def keys_ok_def Let_def split: if_splits)
next
  case (Some c)
  with assms show ?thesis by (auto simp: create_consumer_def Let_def intro!: keys_ok_consumers)
qed

lemma update_endpoint_keys [keys_intro]:
  "update_endpoint now e t u d ty db = Inr (r, db') \<Longrightarrow> keys_ok db \<Longrightarrow> keys_ok db'"
  by (auto simp: update_endpoint_def Let_def intro!: keys_ok_endpoints)

lemma create_inbound_source_keys [keys_intro]:
  "create_inbound_source now fresh t s p k db = Inr (r, db') \<Longrightarrow> keys_ok db \<Longrightarrow> keys_ok db'"
  by (auto simp: create_inbound_source_def unique_violation_def keys_ok_def Let_def split: if_splits)

lemma insert_inbound_event_keys [keys_intro]:
  "insert_inbound_event now i s t sid ty raw db = Inr (r, db') \<Longrightarrow> keys_ok db \<Longrightarrow> keys_ok db'"
  by (auto simp: insert_inbound_event_def unique_violation_def fk_violation_def keys_ok_def Let_def
      dedup_key_def has_dedup_key_def dedup_clash_def list_ex_iff split: if_splits)

lemma link_inbound_event_keys [keys_intro]:
  "link_inbound_event i e db = Inr (r, db') \<Longrightarrow> keys_ok db \<Longrightarrow> keys_ok db'"
  by (auto simp: link_inbound_event_def fk_violation_def split: if_splits intro!: keys_ok_inbound)

lemma insert_event_keys [keys_intro]:
  "insert_event now e t c ty p db = Inr (r, db') \<Longrightarrow> keys_ok db \<Longrightarrow> keys_ok db'"
  by (auto simp: insert_event_def unique_violation_def fk_violation_def keys_ok_def Let_def split: if_splits)

lemma insert_delivery_keys [keys_intro]:
  assumes "insert_delivery ushow now d e p t db = Inr (r, db')" "keys_ok db"
  shows "keys_ok db'"
proof -
  have "d \<notin> dl_id ` set (t_deliveries db)"
    "(e, p) \<notin> (\<lambda>d. (dl_event_id d, dl_endpoint_id d)) ` set (t_deliveries db)"
    and db': "db' = db\<lparr>t_deliveries := t_deliveries db @ [new_delivery ushow now d e p t]\<rparr>"
    using assms(1)
    by (auto simp: insert_delivery_def unique_violation_def fk_violation_def list_ex_iff
        simp del: has_key_iff split: if_splits) (auto simp: image_iff)
  with assms(2) show ?thesis by (simp add: keys_ok_def new_delivery_def)
qed

lemma claim_keys [keys_intro]:
  "claim_due_deliveries now locked w b l db = Inr (r, db') \<Longrightarrow> keys_ok db \<Longrightarrow> keys_ok db'"
  by (auto simp: claim_due_deliveries_def Let_def split: if_splits intro!: keys_ok_deliveries)

lemma record_attempt_keys [keys_intro]:
  "record_attempt fresh d n c s e t1 t2 db = Inr (r, db') \<Longrightarrow> keys_ok db \<Longrightarrow> keys_ok db'"
  by (auto simp: record_attempt_def invalid_text_def unique_violation_def fk_violation_def keys_ok_def Let_def split: if_splits)

lemma mark_succeeded_keys [keys_intro]:
  "mark_succeeded now d w n db = Inr (r, db') \<Longrightarrow> keys_ok db \<Longrightarrow> keys_ok db'"
  by (auto simp: mark_succeeded_def lease_update_def Let_def intro!: keys_ok_deliveries)

lemma mark_failed_keys [keys_intro]:
  "mark_failed now d w n nx e db = Inr (r, db') \<Longrightarrow> keys_ok db \<Longrightarrow> keys_ok db'"
  by (auto simp: mark_failed_def lease_update_def Let_def intro!: keys_ok_deliveries)

lemma defer_delivery_keys [keys_intro]:
  "defer_delivery now d w nx db = Inr (r, db') \<Longrightarrow> keys_ok db \<Longrightarrow> keys_ok db'"
  by (auto simp: defer_delivery_def lease_update_def Let_def intro!: keys_ok_deliveries)

lemma mark_dead_on_keys [keys_intro]:
  assumes "mark_dead_on now fresh d w reason db = Inr (r, db')" "keys_ok db"
  shows "keys_ok db'"
proof -
  let ?db1 = "snd (lease_update now (dl_id d) w (dead_row now reason) db)"
  have "keys_ok ?db1" using assms(2) by (auto simp: lease_update_def Let_def intro!: keys_ok_deliveries)
  with assms(1) show ?thesis
    by (auto simp: mark_dead_on_def unique_violation_def fk_violation_def keys_ok_def Let_def
        split: prod.splits if_splits)
qed

lemma update_circuit_keys [keys_intro]:
  "update_circuit now e s u n db = Inr (r, db') \<Longrightarrow> keys_ok db \<Longrightarrow> keys_ok db'"
  by (auto simp: update_circuit_def intro!: keys_ok_endpoints)

lemma try_acquire_probe_keys [keys_intro]:
  "try_acquire_probe now e l db = Inr (r, db') \<Longrightarrow> keys_ok db \<Longrightarrow> keys_ok db'"
  by (auto simp: try_acquire_probe_def Let_def intro!: keys_ok_endpoints)

lemma reset_for_replay_keys [keys_intro]:
  "reset_for_replay now d db = Inr (r, db') \<Longrightarrow> keys_ok db \<Longrightarrow> keys_ok db'"
  by (auto simp: reset_for_replay_def Let_def intro!: keys_ok_deliveries)

lemma insert_api_key_keys [keys_intro]:
  "insert_api_key now fresh t h db = Inr (r, db') \<Longrightarrow> keys_ok db \<Longrightarrow> keys_ok db'"
  by (auto simp: insert_api_key_def unique_violation_def keys_ok_def Let_def split: if_splits)

end
