(* ===== verification/Lease.thy ===== *)
theory Lease
  imports Ledger
begin

text \<open>
  The lease protocol of the queue: \<open>claim_due_deliveries\<close> hands out due rows under a lease,
  and the four outcome writes (\<open>mark_succeeded\<close>, \<open>mark_failed\<close>, \<open>defer_delivery\<close>,
  \<open>mark_dead_on\<close>) only touch a row whose lease the writer still holds. The contract of an
  outcome row is the locale \<open>lease_release\<close>, interpreted for the four writes.
\<close>

section \<open>Outcome writes\<close>

locale lease_release = keyed_update dl_identity upd for upd :: "delivery \<Rightarrow> delivery" +
  assumes unlocks: "dl_locked_by (upd d) = None" "dl_locked_until (upd d) = None"
    and leaves: "dl_status (upd d) \<in> {''failed'', ''succeeded'', ''dead''}"
begin

lemma not_holder_no_write:
  assumes "\<And>d. d \<in> set (t_deliveries db) \<Longrightarrow> dl_id d = did \<Longrightarrow> \<not> holds_lease now worker d"
  shows "lease_update now did worker upd db = (0, db)"
proof -
  let ?P = "\<lambda>d. dl_id d = did \<and> holds_lease now worker d"
  have "update_where ?P upd (t_deliveries db) = t_deliveries db"
    using assms by (intro update_where_id) auto
  moreover have "rows_affected ?P (t_deliveries db) = 0" using assms by auto
  ultimately show ?thesis by (simp add: lease_update_def Let_def)
qed

lemma holder_writes:
  assumes "keys_ok db" "d \<in> set (t_deliveries db)" "holds_lease now worker d"
  shows "lease_update now (dl_id d) worker upd db =
      (1, db\<lparr>t_deliveries := map (\<lambda>x. if dl_id x = dl_id d then upd x else x) (t_deliveries db)\<rparr>)"
proof -
  let ?P = "\<lambda>x. dl_id x = dl_id d \<and> holds_lease now worker x"
  have dist: "distinct (map dl_id (t_deliveries db))" using assms(1) by (simp add: keys_ok_def)
  have "x = d" if "x \<in> set (t_deliveries db)" "dl_id x = dl_id d" for x
    using distinct_keys_unique [OF dist that(1) assms(2)] that(2) by simp
  then have "update_where ?P upd (t_deliveries db) =
      map (\<lambda>x. if dl_id x = dl_id d then upd x else x) (t_deliveries db)"
    using assms(3) by (auto simp: update_where_def)
  moreover have "rows_affected ?P (t_deliveries db) = 1"
    using dist assms(2,3) by (intro rows_affected_key_eq1) auto
  ultimately show ?thesis by (simp add: lease_update_def Let_def)
qed

lemma lease_is_released: "\<not> holds_lease now worker (upd d)"
  by (simp add: holds_lease_def unlocks)

lemma written_rows:
  assumes "lease_update now did worker upd db = (n, db')" "d' \<in> set (t_deliveries db')"
  shows "\<exists>d\<in>set (t_deliveries db). d' = d \<or> d' = upd d \<and> dl_id d = did \<and> holds_lease now worker d"
  using assms by (auto simp: lease_update_def Let_def set_update_where split: if_splits)

lemma applied_iff:
  assumes "keys_ok db" "lease_update now did worker upd db = (n, db')"
  shows "n = 1 \<longleftrightarrow> (\<exists>d\<in>set (t_deliveries db). dl_id d = did \<and> holds_lease now worker d)"
    and "n = 0 \<or> n = 1" and "n = 0 \<Longrightarrow> db' = db"
proof -
  let ?held = "\<exists>d\<in>set (t_deliveries db). dl_id d = did \<and> holds_lease now worker d"
  have yes: "?held \<Longrightarrow> n = 1" using holder_writes [OF assms(1)] assms(2) by auto
  have no: "\<not> ?held \<Longrightarrow> n = 0 \<and> db' = db"
    using not_holder_no_write [of db did now worker] assms(2) by auto
  show "n = 1 \<longleftrightarrow> ?held" "n = 0 \<or> n = 1" using yes no by auto
  show "n = 0 \<Longrightarrow> db' = db" using yes no by auto
qed

end

interpretation succeeded_r: lease_release "succeeded_row now n" for now n
  by unfold_locales (simp_all add: succeeded_row_def)

interpretation failed_r: lease_release "failed_row now n next err" for now n "next" err
  by unfold_locales (simp_all add: failed_row_def)

interpretation deferred_r: lease_release "deferred_row now next" for now "next"
  by unfold_locales (simp_all add: deferred_row_def)

interpretation dead_r: lease_release "dead_row now reason" for now reason
  by unfold_locales (simp_all add: dead_row_def)

lemma lease_update_frame:
  "lease_update now did worker f db = (n, db') \<Longrightarrow>
   t_events db' = t_events db \<and> t_endpoints db' = t_endpoints db \<and> t_attempts db' = t_attempts db \<and>
   t_dead_letters db' = t_dead_letters db \<and> t_inbound db' = t_inbound db"
  by (auto simp: lease_update_def Let_def)

text \<open>A lease that is still good and one that may be taken over exclude each other.\<close>

lemma held_not_due: "holds_lease now worker d \<Longrightarrow> dl_status d = ''in_progress'' \<Longrightarrow> \<not> due now d"
  by (auto simp: holds_lease_def due_def split: option.splits)

text \<open>C10. Lease guard: when no row of the delivery is leased to the worker any more (taken over
  by another worker, expired, or already settled), none of its four outcome writes changes
  anything, and each of them reports that it was not applied.\<close>

theorem stale_writes_are_rejected:
  assumes "\<And>d. d \<in> set (t_deliveries db) \<Longrightarrow> dl_id d = dl_id v \<Longrightarrow> \<not> holds_lease now worker d"
  shows "mark_succeeded now (dl_id v) worker n db = Inr (False, db)
    \<and> mark_failed now (dl_id v) worker n nxt er db = Inr (False, db)
    \<and> defer_delivery now (dl_id v) worker nxt db = Inr (False, db)
    \<and> mark_dead_on now fresh v worker reason db = Inr (False, db)"
  using succeeded_r.not_holder_no_write [OF assms] failed_r.not_holder_no_write [OF assms]
    deferred_r.not_holder_no_write [OF assms] dead_r.not_holder_no_write [OF assms]
  by (simp add: mark_succeeded_def mark_failed_def defer_delivery_def mark_dead_on_def)

definition sample_delivery :: delivery where
  "sample_delivery = claim_row 10 ''worker-1'' 30 (new_delivery (\<lambda>_. ''k'') 5 1 2 7 ''t1'')"

definition sample_db :: db where
  "sample_db = empty_db\<lparr>t_endpoints := [sample_endpoint], t_deliveries := [sample_delivery]\<rparr>"

lemma sample_delivery_simps [simp]:
  "dl_id sample_delivery = 1" "dl_locked_by sample_delivery = Some ''worker-1''"
  "dl_locked_until sample_delivery = Some 30000010" "dl_status sample_delivery = ''in_progress''"
  by (simp_all add: sample_delivery_def claim_row_def new_delivery_def seconds_def)

lemma sample_db_simps [simp]:
  "t_deliveries sample_db = [sample_delivery]" "t_endpoints sample_db = [sample_endpoint]"
  by (simp_all add: sample_db_def empty_db_def)

theorem stale_writes_are_rejected_witness:
  "mark_succeeded 20 1 ''worker-0'' 1 sample_db = Inr (False, sample_db) \<and>
   mark_succeeded 30000010 1 ''worker-1'' 1 sample_db = Inr (False, sample_db)"
  using stale_writes_are_rejected [of sample_db sample_delivery 20 "''worker-0''" 1]
    stale_writes_are_rejected [of sample_db sample_delivery 30000010 "''worker-1''" 1]
  by (simp add: holds_lease_def)

section \<open>Claiming\<close>

lemma set_claimable:
  "set (claimable now locked batch rows) \<subseteq> {d \<in> set rows. due now d \<and> \<not> locked (dl_id d)}"
  by (auto simp: claimable_def dest: in_set_takeD)

lemma length_claimable:
  "length (claimable now locked batch rows) =
     min (nat batch) (rows_affected (\<lambda>d. due now d \<and> \<not> locked (dl_id d)) rows)"
  by (simp add: claimable_def rows_affected_def)

lemma take_sort_key_least:
  assumes "x \<in> set (take n (sort_key f xs))" "y \<in> set xs" "y \<notin> set (take n (sort_key f xs))"
  shows "f x \<le> f y"
proof -
  let ?s = "sort_key f xs"
  have "sorted (map f (take n ?s @ drop n ?s))" by (simp only: append_take_drop_id sorted_sort_key)
  moreover have "y \<in> set (drop n ?s)"
    using assms(2,3) by (metis UnE append_take_drop_id set_append set_sort)
  ultimately show ?thesis using assms(1) by (auto simp only: map_append sorted_append set_map)
qed

lemma length_filter_subset:
  assumes "distinct rows" "distinct picked" "set picked \<subseteq> set rows"
  shows "length (filter (\<lambda>d. d \<in> set picked) rows) = length picked"
proof -
  have "set (filter (\<lambda>d. d \<in> set picked) rows) = set picked" using assms(3) by auto
  then show ?thesis using assms(1,2) by (metis distinct_card distinct_filter)
qed

lemma claim_eq:
  fixes now :: timestamp and locked :: "uuid \<Rightarrow> bool"
  assumes "keys_ok db" "0 \<le> batch"
  defines "picked \<equiv> claimable now locked batch (t_deliveries db)"
  shows "claim_due_deliveries now locked worker batch lock db =
     Inr (map (claim_row now worker lock) (filter (\<lambda>d. d \<in> set picked) (t_deliveries db)),
          db\<lparr>t_deliveries := map (\<lambda>d. if d \<in> set picked then claim_row now worker lock d else d)
                               (t_deliveries db)\<rparr>)"
proof -
  let ?rows = "t_deliveries db" and ?P = "\<lambda>d. List.member (map dl_id picked) (dl_id d)"
  have dist: "distinct (map dl_id ?rows)" using assms(1) by (simp add: keys_ok_def)
  have in_rows: "\<And>d. d \<in> set picked \<Longrightarrow> d \<in> set ?rows"
    using set_claimable unfolding picked_def by fastforce
  have P: "dl_id d \<in> dl_id ` set picked \<longleftrightarrow> d \<in> set picked" if "d \<in> set ?rows" for d
    using that in_rows distinct_keys_unique [OF dist]
    by (auto simp: List.member_iff)
  have id: "dl_id (claim_row now worker lock d) = dl_id d" for d by (simp add: claim_row_def)
  have upd: "update_where ?P (claim_row now worker lock) ?rows =
      map (\<lambda>d. if d \<in> set picked then claim_row now worker lock d else d) ?rows"
    using P by (simp add: update_where_def List.member_iff)
  have "filter ?P (map (\<lambda>d. if d \<in> set picked then claim_row now worker lock d else d) xs) =
      map (claim_row now worker lock) (filter (\<lambda>d. d \<in> set picked) xs)" if "set xs \<subseteq> set ?rows" for xs
    using that by (induction xs) (simp_all add: id P)
  with upd assms(2) show ?thesis
    by (simp add: claim_due_deliveries_def picked_def [symmetric] Let_def)
qed

text \<open>C25. Claiming: of the due rows that no other transaction holds locked, a claim takes
  exactly \<open>min batch (their number)\<close>, the ones with the earliest \<open>next_attempt_at\<close>; it
  returns them as they are now stored, leased to the worker until \<open>now + lock_secs\<close>, and
  leaves every other row as it was.\<close>

theorem claim_takes_earliest_due:
  assumes "keys_ok db" "0 \<le> batch"
  shows "\<exists>picked rows db'. claim_due_deliveries now locked worker batch lock db = Inr (rows, db')
    \<and> set picked \<subseteq> {d \<in> set (t_deliveries db). due now d \<and> \<not> locked (dl_id d)}
    \<and> distinct picked
    \<and> length picked = min (nat batch) (rows_affected (\<lambda>d. due now d \<and> \<not> locked (dl_id d)) (t_deliveries db))
    \<and> (\<forall>p\<in>set picked. \<forall>d\<in>set (t_deliveries db) - set picked.
         due now d \<and> \<not> locked (dl_id d) \<longrightarrow> dl_next_attempt_at p \<le> dl_next_attempt_at d)
    \<and> set rows = claim_row now worker lock ` set picked \<and> length rows = length picked
    \<and> t_deliveries db' =
        map (\<lambda>d. if d \<in> set picked then claim_row now worker lock d else d) (t_deliveries db)"
proof -
  let ?rows = "t_deliveries db" and ?due = "\<lambda>d. due now d \<and> \<not> locked (dl_id d)"
  define picked where "picked = claimable now locked batch ?rows"
  have sub: "set picked \<subseteq> {d \<in> set ?rows. ?due d}" unfolding picked_def by (rule set_claimable)
  have dist_rows: "distinct ?rows" using assms(1) by (simp add: keys_ok_def distinct_map)
  then have dist: "distinct picked" by (simp add: picked_def claimable_def)
  have least: "dl_next_attempt_at p \<le> dl_next_attempt_at d"
    if "p \<in> set picked" "d \<in> set ?rows - set picked" "?due d" for p d
    using that take_sort_key_least [of p "nat batch" dl_next_attempt_at "filter ?due ?rows" d]
    by (simp add: picked_def claimable_def)
  have len: "length (filter (\<lambda>d. d \<in> set picked) ?rows) = length picked"
    using dist_rows dist sub by (intro length_filter_subset) auto
  have img: "set (map (claim_row now worker lock) (filter (\<lambda>d. d \<in> set picked) ?rows)) =
      claim_row now worker lock ` set picked" using sub by auto
  show ?thesis
    by (rule exI [of _ picked], rule exI, rule exI, rule conjI,
        rule claim_eq [OF assms, where now = now and locked = locked and worker = worker and lock = lock,
          folded picked_def])
      (use sub dist least len img in \<open>auto simp: length_claimable picked_def\<close>)
qed

theorem claim_takes_earliest_due_witness:
  "\<exists>picked rows db'. claim_due_deliveries 30000011 (\<lambda>_. False) ''worker-0'' 32 30 sample_db = Inr (rows, db')
     \<and> length picked = 1 \<and> set rows = claim_row 30000011 ''worker-0'' 30 ` set picked"
proof -
  have "keys_ok sample_db" by (simp add: keys_ok_def sample_db_def empty_db_def)
  moreover have "due 30000011 sample_delivery" by (simp add: due_def)
  ultimately show ?thesis
    using claim_takes_earliest_due [of sample_db 32 30000011 "\<lambda>_. False" "''worker-0''" 30]
    by (auto simp: rows_affected_def)
qed

end
