(* ===== verification/Inbound.thy ===== *)
theory Inbound
  imports Signing
begin

unbundle bit_operations_syntax

text \<open>
  \<open>crates/dropless-core/src/inbound.rs\<close>: verification of the webhooks received from
  Stripe, GitHub and the Svix/Dropless scheme. \<open>None\<close> stands for the panic of
  \<open>expect\<close> in \<open>hmac_hex\<close>; the timestamp distance is computed with the
  two's-complement wrap-around of a release build. The theorems: the constant-time comparison
  is equality; each verifier accepts exactly the headers that carry the right tag within the
  tolerance; the tolerance bound holds except at one wrap-around instant.
\<close>

datatype provider = Stripe | Github | Hmac

fun provider_as_str :: "provider \<Rightarrow> string" where
  "provider_as_str Stripe = ''stripe''"
| "provider_as_str Github = ''github''"
| "provider_as_str Hmac = ''hmac''"

definition provider_from_str :: "(string \<Rightarrow> string) \<Rightarrow> string \<Rightarrow> provider core_result" where
  "provider_from_str dbg s =
     (if s = ''stripe'' then Inr Stripe
      else if s = ''github'' then Inr Github
      else if s = ''hmac'' then Inr Hmac
      else Inl (Invalid (''unknown provider '' @ dbg s)))"

lemma provider_from_as_str [simp]: "provider_from_str dbg (provider_as_str p) = Inr p"
  by (cases p) (simp_all add: provider_from_str_def)

lemma provider_from_str_Inr_iff: "provider_from_str dbg s = Inr p \<longleftrightarrow> s = provider_as_str p"
  by (cases p) (auto simp: provider_from_str_def)

definition hmac_hex :: "crypto \<Rightarrow> bytes \<Rightarrow> bytes \<Rightarrow> string option" where
  "hmac_hex X key msg =
     (case cx_hmac_new X key of
        Inl _ \<Rightarrow> None
      | Inr mac \<Rightarrow> Some (cx_hex_encode X (cx_hmac_tag X mac msg)))"

definition ct_eq :: "bytes \<Rightarrow> bytes \<Rightarrow> bool" where
  "ct_eq a b =
     (if length a \<noteq> length b then False
      else foldl (\<lambda>diff (x, y). diff OR (x XOR y)) 0 (zip a b) = 0)"

definition reject :: "string \<Rightarrow> core_error" where
  "reject msg = Signing msg"

text \<open>The header loop of \<open>verify_stripe\<close>: the last \<open>t\<close> wins (a malformed one clears
  the timestamp), every \<open>v1\<close> is collected.\<close>

fun stripe_parts :: "string list \<Rightarrow> int option \<Rightarrow> string list \<Rightarrow> int option \<times> string list" where
  "stripe_parts [] ts v1s = (ts, v1s)"
| "stripe_parts (part # parts) ts v1s =
     (case split_once CHR ''='' part of
        None \<Rightarrow> stripe_parts parts ts v1s
      | Some (k, v) \<Rightarrow>
          if trim k = ''t'' then stripe_parts parts (parse_i64 (trim v)) v1s
          else if trim k = ''v1'' then stripe_parts parts ts (v1s @ [trim v])
          else stripe_parts parts ts v1s)"

text \<open>\<open>(now - ts).abs() > tolerance_secs\<close> on \<open>i64\<close>.\<close>

definition outside_tolerance :: "int \<Rightarrow> int \<Rightarrow> int \<Rightarrow> bool" where
  "outside_tolerance now ts tolerance_secs \<longleftrightarrow>
     tolerance_secs > 0 \<and> i64_abs (i64_wrap (now - ts)) > tolerance_secs"

definition verify_stripe ::
  "crypto \<Rightarrow> string \<Rightarrow> string \<Rightarrow> bytes \<Rightarrow> int \<Rightarrow> int \<Rightarrow> unit core_result option" where
  "verify_stripe X secret sig_header body now tolerance_secs =
     (case stripe_parts (split_char CHR '','' sig_header) None [] of
        (None, v1s) \<Rightarrow> Some (Inl (reject ''stripe: missing timestamp''))
      | (Some ts, v1s) \<Rightarrow>
          if outside_tolerance now ts tolerance_secs
          then Some (Inl (reject ''stripe: timestamp outside tolerance''))
          else case hmac_hex X (as_bytes secret) (as_bytes (show_int ts) @ as_bytes ''.'' @ body) of
                 None \<Rightarrow> None
               | Some expected \<Rightarrow>
                   if list_ex (\<lambda>v. ct_eq (as_bytes v) (as_bytes expected)) v1s
                   then Some (Inr ())
                   else Some (Inl (reject ''stripe: no matching v1 signature'')))"

definition verify_github ::
  "crypto \<Rightarrow> string \<Rightarrow> string \<Rightarrow> bytes \<Rightarrow> unit core_result option" where
  "verify_github X secret sig_header body =
     (let provided = (case strip_prefix sig_header ''sha256='' of Some p \<Rightarrow> p | None \<Rightarrow> sig_header) in
      case hmac_hex X (as_bytes secret) body of
        None \<Rightarrow> None
      | Some expected \<Rightarrow>
          if ct_eq (as_bytes provided) (as_bytes expected) then Some (Inr ())
          else Some (Inl (reject ''github: signature mismatch'')))"

definition verify_hmac ::
  "crypto \<Rightarrow> string \<Rightarrow> string \<Rightarrow> int \<Rightarrow> bytes \<Rightarrow> string \<Rightarrow> int \<Rightarrow> int \<Rightarrow> unit core_result" where
  "verify_hmac X secret mid timestamp body signature_header now tolerance_secs =
     (if outside_tolerance now timestamp tolerance_secs
      then Inl (reject ''hmac: timestamp outside tolerance'')
      else case verify X secret mid timestamp body signature_header of
             Inl e \<Rightarrow> Inl e
           | Inr b \<Rightarrow> if b then Inr () else Inl (reject ''hmac: signature mismatch''))"

section \<open>Constant-time comparison\<close>

lemma or_xor_zero: "(d :: u8) OR (x XOR y) = 0 \<longleftrightarrow> d = 0 \<and> x = y"
  by (metis or.right_neutral or_eq_0_iff xor.right_neutral xor_self_eq xor.assoc)

lemma ct_fold_zero:
  "length a = length b \<Longrightarrow>
   foldl (\<lambda>diff (x, y). diff OR (x XOR y)) (d :: u8) (zip a b) = 0 \<longleftrightarrow> d = 0 \<and> a = b"
  by (induction a b arbitrary: d rule: list_induct2) (auto simp: or_xor_zero)

text \<open>The constant-time comparison, which accumulates the differences of all byte pairs
  without an early exit, is exactly equality of byte strings.\<close>

theorem ct_eq_is_equality: "ct_eq a b \<longleftrightarrow> a = b"
  by (auto simp: ct_eq_def ct_fold_zero)

lemma ct_eq_as_bytes [simp]: "ct_eq (as_bytes s) (as_bytes t) \<longleftrightarrow> s = t"
proof -
  have "ct_eq (as_bytes s) (as_bytes t) \<longleftrightarrow> as_bytes s = as_bytes t"
    by (auto simp: ct_eq_def ct_fold_zero simp del: length_as_bytes)
  then show ?thesis by (simp add: as_bytes_inject)
qed

section \<open>The tolerance window\<close>

text \<open>The wrap-around of the distance, once for both verifiers that use it.\<close>

lemma tolerance_check:
  assumes "is_i64 ts" "0 \<le> now" "0 < tol" "now + tol < 2 ^ 63"
  shows "\<not> outside_tolerance now ts tol \<longleftrightarrow> \<bar>now - ts\<bar> \<le> tol \<or> ts = now - 2 ^ 63"
proof (cases "now - ts < 2 ^ 63")
  case True
  then have "is_i64 (now - ts)" using assms by (auto simp: is_i64_def int_width_defs)
  moreover have "now - ts \<noteq> i64_min" using assms by (auto simp: is_i64_def int_width_defs)
  ultimately show ?thesis
    using True assms(3) by (auto simp: outside_tolerance_def i64_wrap_id i64_abs_id)
next
  case False
  let ?w = "now - ts - 2 ^ 64"
  have "i64_wrap (now - ts) = ?w"
  proof -
    have "now - ts + 2 ^ 63 = (now - ts - 2 ^ 63) + 2 ^ 64" by simp
    moreover have "0 \<le> now - ts - 2 ^ 63" "now - ts - 2 ^ 63 < 2 ^ 64"
      using False assms by (auto simp: is_i64_def int_width_defs)
    ultimately have "(now - ts + 2 ^ 63) mod 2 ^ 64 = now - ts - 2 ^ 63"
      by (metis mod_add_self2 mod_pos_pos_trivial)
    then show ?thesis by (simp add: i64_wrap_def)
  qed
  moreover have "i64_abs ?w = (if now - ts = 2 ^ 63 then i64_min else 2 ^ 64 - (now - ts))"
  proof (cases "now - ts = 2 ^ 63")
    case True
    then have "?w = i64_min" by (simp add: int_width_defs)
    with True show ?thesis by (simp only: i64_abs_min simp_thms if_True)
  next
    case neq: False
    with False assms have "is_i64 ?w" "?w \<noteq> i64_min" "?w < 0"
      by (auto simp: is_i64_def int_width_defs)
    with neq show ?thesis by (simp add: i64_abs_id)
  qed
  ultimately show ?thesis
    using False assms(1,3,4) by (auto simp: outside_tolerance_def is_i64_def int_width_defs)
qed

text \<open>C32. The replay window: for a clock after the epoch and a positive tolerance, a timestamp
  passes the check exactly when it is at most \<open>tolerance\<close> seconds away from now, except
  for the single timestamp \<open>now - 2^63\<close>, whose distance wraps around to a negative number
  and which passes too.\<close>

theorem tolerance_window:
  assumes "is_i64 ts" "0 \<le> now" "0 < tol" "now + tol < 2 ^ 63"
  shows "\<not> outside_tolerance now ts tol \<longleftrightarrow> \<bar>now - ts\<bar> \<le> tol \<or> ts = now - 2 ^ 63"
  using tolerance_check [OF assms] .

theorem tolerance_window_witness:
  "\<not> outside_tolerance 1700000000 1699999700 300 \<and> outside_tolerance 1700000000 1699999699 300 \<and>
   \<not> outside_tolerance 1700000000 (1700000000 - 2 ^ 63) 300"
  using tolerance_window [of 1699999700 1700000000 300] tolerance_window [of 1699999699 1700000000 300]
    tolerance_window [of "1700000000 - 2 ^ 63" 1700000000 300]
  by (simp add: is_i64_def int_width_defs)

section \<open>What the verifiers accept\<close>

lemma hmac_hex_Some: "cx_hmac_new X key = Inr mac \<Longrightarrow> hmac_hex X key msg = Some (cx_hex_encode X (cx_hmac_tag X mac msg))"
  by (simp add: hmac_hex_def)

text \<open>The entry \<open>k=v\<close> of a comma separated header, with white space around key and value.\<close>

definition has_field :: "string \<Rightarrow> string \<Rightarrow> string \<Rightarrow> bool" where
  "has_field k v part \<longleftrightarrow>
     (\<exists>k' v'. part = k' @ ''='' @ v' \<and> CHR ''='' \<notin> set k' \<and> trim k' = k \<and> trim v' = v)"

lemma has_field_iff: "has_field k v part \<longleftrightarrow> (\<exists>k' v'. split_once CHR ''='' part = Some (k', v') \<and> trim k' = k \<and> trim v' = v)"
  by (auto simp: has_field_def split_once_Some_iff)

lemma has_field_cases:
  "split_once CHR ''='' part = None \<Longrightarrow> \<not> has_field k v part"
  "split_once CHR ''='' part = Some (k', v') \<Longrightarrow> has_field k v part \<longleftrightarrow> trim k' = k \<and> trim v' = v"
  by (auto simp: has_field_iff)

lemma stripe_signatures:
  "set (snd (stripe_parts parts ts v1s)) = set v1s \<union> {v. \<exists>p\<in>set parts. has_field ''v1'' v p}"
proof (induction parts arbitrary: ts v1s)
  case (Cons part parts)
  show ?case
  proof (cases "split_once CHR ''='' part")
    case None
    then show ?thesis using Cons by (simp add: has_field_cases)
  next
    case (Some kv)
    then obtain k v where kv: "split_once CHR ''='' part = Some (k, v)" by (cases kv) simp
    show ?thesis using Cons has_field_cases(2) [OF kv] by (auto simp: kv)
  qed
qed simp

lemma stripe_timestamp:
  "fst (stripe_parts parts ts0 v1s) = Some ts \<longleftrightarrow>
   (\<exists>pre part post v. parts = pre @ part # post \<and> has_field ''t'' v part \<and>
      (\<forall>p\<in>set post. \<forall>v'. \<not> has_field ''t'' v' p) \<and> parse_i64 v = Some ts) \<or>
   (\<forall>p\<in>set parts. \<forall>v. \<not> has_field ''t'' v p) \<and> ts0 = Some ts" (is "_ \<longleftrightarrow> ?last parts \<or> ?none parts \<and> _")
proof (induction parts arbitrary: ts0 v1s)
  case (Cons part parts)
  have split: "?last (part # parts) \<longleftrightarrow> ?last parts \<or> ?none parts \<and> (\<exists>v. has_field ''t'' v part \<and> parse_i64 v = Some ts)"
    by (subst Cons_eq_append_conv) blast
  show ?case
  proof (cases "split_once CHR ''='' part")
    case None
    then show ?thesis unfolding split using Cons by (simp add: has_field_cases)
  next
    case (Some kv)
    then obtain k v where kv: "split_once CHR ''='' part = Some (k, v)" by (cases kv) simp
    note f = has_field_cases(2) [OF kv]
    show ?thesis unfolding split using Cons [of "parse_i64 (trim v)" v1s] Cons [of ts0 v1s] Cons [of ts0 "v1s @ [trim v]"]
      by (auto simp: kv f)
  qed
qed simp

lemma parse_i64_range: "parse_i64 s = Some i \<Longrightarrow> is_i64 i"
  by (auto simp: parse_i64_def in_i64_def bind_eq_Some_conv split: list.splits if_splits)

text \<open>C31. Stripe: when HMAC accepts the secret, the verifier never panics, and it accepts a header
  exactly when, among the comma separated entries \<open>key=value\<close> (white space around key and value
  does not count), the last one with the key \<open>t\<close> is a decimal \<open>i64\<close> timestamp, some entry with the
  key \<open>v1\<close> has as its value the hexadecimal tag of \<open>timestamp.body\<close> under the raw secret, and
  the timestamp is at most the tolerance away from the present time (no limit when the tolerance is
  not positive; and, by the wrap-around of \<open>i64\<close>, the one timestamp \<open>now - 2^63\<close> passes too).
  The clock is after the epoch and far from the end of \<open>i64\<close>.\<close>

theorem verify_stripe_accepts_iff:
  assumes "cx_hmac_new X (as_bytes secret) = Inr mac" "0 \<le> now" "now + tol < 2 ^ 63"
  shows "verify_stripe X secret header body now tol \<noteq> None \<and>
    (verify_stripe X secret header body now tol = Some (Inr ()) \<longleftrightarrow>
     (\<exists>ts pre part post v. split_char CHR '','' header = pre @ part # post \<and> has_field ''t'' v part \<and>
        (\<forall>p\<in>set post. \<forall>v'. \<not> has_field ''t'' v' p) \<and> parse_i64 v = Some ts \<and>
        (tol \<le> 0 \<or> \<bar>now - ts\<bar> \<le> tol \<or> ts = now - 2 ^ 63) \<and>
        (\<exists>p\<in>set (split_char CHR '','' header).
           has_field ''v1'' (cx_hex_encode X (cx_hmac_tag X mac (as_bytes (show_int ts) @ as_bytes ''.'' @ body))) p)))"
proof -
  let ?parts = "split_char CHR '','' header"
  obtain r vs where st: "stripe_parts ?parts None [] = (r, vs)" by (rule prod.exhaust)
  have vs: "set vs = {v. \<exists>p\<in>set ?parts. has_field ''v1'' v p}" using stripe_signatures [of ?parts None "[]"] st by simp
  have r: "r = Some ts \<longleftrightarrow> (\<exists>pre part post v. ?parts = pre @ part # post \<and> has_field ''t'' v part \<and>
      (\<forall>p\<in>set post. \<forall>v'. \<not> has_field ''t'' v' p) \<and> parse_i64 v = Some ts)" for ts
    using stripe_timestamp [of ?parts None "[]" ts] st by simp
  have window: "\<not> outside_tolerance now ts tol \<longleftrightarrow> tol \<le> 0 \<or> \<bar>now - ts\<bar> \<le> tol \<or> ts = now - 2 ^ 63" if "r = Some ts" for ts
  proof (cases "0 < tol")
    case True
    have "is_i64 ts" using that r parse_i64_range by blast
    then show ?thesis using tolerance_check [OF _ assms(2) True assms(3)] True by simp
  qed (simp add: outside_tolerance_def)
  have "verify_stripe X secret header body now tol \<noteq> None \<and>
    (verify_stripe X secret header body now tol = Some (Inr ()) \<longleftrightarrow>
     (\<exists>ts. r = Some ts \<and> \<not> outside_tolerance now ts tol \<and>
        cx_hex_encode X (cx_hmac_tag X mac (as_bytes (show_int ts) @ as_bytes ''.'' @ body)) \<in> set vs))"
    by (cases r) (auto simp: verify_stripe_def st hmac_hex_Some [OF assms(1)] list_ex_iff)
  then show ?thesis unfolding vs mem_Collect_eq using window unfolding r by blast
qed

text \<open>The header Stripe sends for a signature made at \<open>ts\<close>.\<close>

definition stripe_header :: "crypto \<Rightarrow> bytes \<Rightarrow> int \<Rightarrow> bytes \<Rightarrow> string" where
  "stripe_header X mac ts body =
     ''t='' @ show_int ts @ '',v1='' @
     cx_hex_encode X (cx_hmac_tag X mac (as_bytes (show_int ts) @ as_bytes ''.'' @ body))"

lemma show_int_no_sep: "c \<in> set (show_int i) \<Longrightarrow> c \<noteq> CHR '','' \<and> c \<noteq> CHR ''=''"
  using show_nat_digits [of "nat i"] show_nat_digits [of "nat (- i)"]
  by (auto simp: show_int_def list_all_iff is_digit_def split: if_splits)

lemma stripe_parts_header:
  assumes "is_i64 ts" "visible hex" "CHR '','' \<notin> set hex"
  shows "stripe_parts (split_char CHR '','' (''t='' @ show_int ts @ '',v1='' @ hex)) None [] = (Some ts, [hex])"
proof -
  let ?a = "''t='' @ show_int ts" and ?b = "''v1='' @ hex"
  have "CHR '','' \<notin> set ?a" using show_int_no_sep [of "CHR '',''" ts] by auto
  then have "split_char CHR '','' (?a @ CHR '','' # ?b) = ?a # split_char CHR '','' ?b"
    by (rule split_char_append)
  moreover have "split_char CHR '','' ?b = [?b]" using assms(3) by (intro split_char_no_sep) auto
  moreover have "trim ''t'' = ''t''" "trim ''v1'' = ''v1''"
    by (simp_all add: visible_char_def)
  ultimately show ?thesis
    using split_once_append [of "CHR ''=''" "''t''" "show_int ts"]
      split_once_append [of "CHR ''=''" "''v1''" hex] assms
    by (simp add: show_int_visible parse_show_i64)
qed

text \<open>Round trip for Stripe: the header that carries the timestamp and the hexadecimal tag
  is accepted while the timestamp is inside the tolerance, and rejected outside it.\<close>

theorem stripe_header_verifies:
  assumes "cx_hmac_new X (as_bytes secret) = Inr mac" "is_i64 ts"
    and "\<And>b. visible (cx_hex_encode X b) \<and> CHR '','' \<notin> set (cx_hex_encode X b)"
  shows "verify_stripe X secret (stripe_header X mac ts body) body now tol =
    Some (if outside_tolerance now ts tol then Inl (Signing ''stripe: timestamp outside tolerance'')
          else Inr ())"
  using stripe_parts_header [OF assms(2), of
      "cx_hex_encode X (cx_hmac_tag X mac (as_bytes (show_int ts) @ as_bytes ''.'' @ body))"] assms(1,3)
  by (simp add: verify_stripe_def stripe_header_def hmac_hex_def reject_def)

lemma toy_encode_no_comma: "CHR '','' \<notin> set (toy_encode b)"
proof (induction b)
  case (Cons w b)
  have "unat w < 256" by (rule u8_less_256)
  then have "nibble_char (unat w div 16) \<noteq> CHR '',''" "nibble_char (unat w mod 16) \<noteq> CHR '',''"
    by (intro nibble_char_neq; simp)+
  with Cons show ?case by (auto simp: toy_encode_def)
qed (simp add: toy_encode_def)

theorem stripe_header_verifies_witness:
  "verify_stripe toy_crypto ''whsec_x'' (stripe_header toy_crypto (as_bytes ''whsec_x'') 1700000000 [1]) [1]
     1700000100 300 = Some (Inr ())"
  using stripe_header_verifies [of toy_crypto "''whsec_x''" "as_bytes ''whsec_x''" 1700000000 "[1]" 1700000100 300]
  by (simp add: toy_encode_visible toy_encode_no_comma is_i64_def outside_tolerance_def i64_abs_def
      i64_wrap_def int_width_defs)

text \<open>A header in the format of Stripe with an old \<open>v0\<close> entry and white space is accepted, and with
  the tag under \<open>v0\<close> only it is not.\<close>

theorem verify_stripe_accepts_iff_witness:
  "verify_stripe toy_crypto ''k'' ''t=7, v0=zz, v1=GLDHCOAB'' [1] 100 300 = Some (Inr ()) \<and>
   verify_stripe toy_crypto ''k'' ''t=7,v0=GLDHCOAB'' [1] 100 300 \<noteq> Some (Inr ())"
proof
  have hex: "toy_encode (as_bytes ''k'' @ as_bytes (show_int 7) @ as_bytes ''.'' @ [1]) = ''GLDHCOAB''" by code_simp
  have field: "has_field k v part \<longleftrightarrow> k = trim k' \<and> v = trim v'" if "split_once CHR ''='' part = Some (k', v')" for k v k' v' part
    using has_field_cases(2) [OF that] by auto
  have "split_once CHR ''='' ''t=7'' = Some (''t'', ''7'')" "split_once CHR ''='' '' v0=zz'' = Some ('' v0'', ''zz'')"
    "split_once CHR ''='' '' v1=GLDHCOAB'' = Some ('' v1'', ''GLDHCOAB'')"
    "split_once CHR ''='' ''v0=GLDHCOAB'' = Some (''v0'', ''GLDHCOAB'')" by code_simp+
  note fields = this [THEN field]
  have trims: "trim ''t'' = ''t''" "trim ''7'' = ''7''" "trim '' v0'' = ''v0''" "trim '' v1'' = ''v1''" "trim ''v0'' = ''v0''"
    "trim ''GLDHCOAB'' = ''GLDHCOAB''" by code_simp+
  have seven: "parse_i64 ''7'' = Some 7" by code_simp
  have parts: "split_char CHR '','' ''t=7, v0=zz, v1=GLDHCOAB'' = [] @ ''t=7'' # ['' v0=zz'', '' v1=GLDHCOAB'']"
    "split_char CHR '','' ''t=7,v0=GLDHCOAB'' = [''t=7'', ''v0=GLDHCOAB'']" by code_simp+
  have "has_field ''t'' ''7'' ''t=7''" "\<not> has_field ''t'' v' '' v0=zz''" "\<not> has_field ''t'' v' '' v1=GLDHCOAB''"
    "has_field ''v1'' (toy_encode (as_bytes ''k'' @ as_bytes (show_int 7) @ as_bytes ''.'' @ [1])) '' v1=GLDHCOAB''" for v'
    unfolding fields trims hex by simp_all
  note f = this
  have "verify_stripe toy_crypto ''k'' ''t=7, v0=zz, v1=GLDHCOAB'' [1] 100 300 = Some (Inr ()) \<longleftrightarrow>
     (\<exists>ts pre part post v. split_char CHR '','' ''t=7, v0=zz, v1=GLDHCOAB'' = pre @ part # post \<and> has_field ''t'' v part \<and>
        (\<forall>p\<in>set post. \<forall>v'. \<not> has_field ''t'' v' p) \<and> parse_i64 v = Some ts \<and>
        (300 \<le> (0::int) \<or> \<bar>100 - ts\<bar> \<le> 300 \<or> ts = 100 - 2 ^ 63) \<and>
        (\<exists>p\<in>set (split_char CHR '','' ''t=7, v0=zz, v1=GLDHCOAB'').
           has_field ''v1'' (toy_encode (as_bytes ''k'' @ as_bytes (show_int ts) @ as_bytes ''.'' @ [1])) p))"
    using verify_stripe_accepts_iff [of toy_crypto "''k''" "as_bytes ''k''" 100 300 "''t=7, v0=zz, v1=GLDHCOAB''" "[1]"]
    unfolding toy_crypto_simps by simp
  then show "verify_stripe toy_crypto ''k'' ''t=7, v0=zz, v1=GLDHCOAB'' [1] 100 300 = Some (Inr ())"
  proof (rule iffD2, intro exI conjI)
    show "split_char CHR '','' ''t=7, v0=zz, v1=GLDHCOAB'' = [] @ ''t=7'' # ['' v0=zz'', '' v1=GLDHCOAB'']" by (rule parts(1))
    show "\<exists>p\<in>set (split_char CHR '','' ''t=7, v0=zz, v1=GLDHCOAB'').
        has_field ''v1'' (toy_encode (as_bytes ''k'' @ as_bytes (show_int 7) @ as_bytes ''.'' @ [1])) p"
      unfolding parts(1) using f(4) by (intro bexI [of _ "'' v1=GLDHCOAB''"]) simp_all
    show "has_field ''t'' ''7'' ''t=7''" "parse_i64 ''7'' = Some 7" by (rule f(1), rule seven)
  qed (use f(2,3) in simp_all)
  have "\<not> has_field ''v1'' h ''t=7''" "\<not> has_field ''v1'' h ''v0=GLDHCOAB''" for h
    unfolding fields trims by simp_all
  then show "verify_stripe toy_crypto ''k'' ''t=7,v0=GLDHCOAB'' [1] 100 300 \<noteq> Some (Inr ())"
    using verify_stripe_accepts_iff [of toy_crypto "''k''" "as_bytes ''k''" 100 300 "''t=7,v0=GLDHCOAB''" "[1]"]
      parts(2) by simp
qed

text \<open>GitHub: when HMAC accepts the secret, a header is accepted exactly when it is the
  hexadecimal tag of the body, with or without the \<open>sha256=\<close> prefix.\<close>

theorem verify_github_accepts_iff:
  assumes "cx_hmac_new X (as_bytes secret) = Inr mac"
    and "\<And>b. \<not> starts_with (cx_hex_encode X b) ''sha256=''"
  shows "verify_github X secret header body = Some (Inr ()) \<longleftrightarrow>
    header = ''sha256='' @ cx_hex_encode X (cx_hmac_tag X mac body) \<or>
    header = cx_hex_encode X (cx_hmac_tag X mac body)"
proof (cases "strip_prefix header ''sha256=''")
  case None
  then have "\<not> starts_with header ''sha256=''" by (auto simp: strip_prefix_def split: if_splits)
  then have "header \<noteq> ''sha256='' @ cx_hex_encode X (cx_hmac_tag X mac body)"
    by (auto simp: starts_with_iff)
  then show ?thesis using None assms(1) by (auto simp: verify_github_def hmac_hex_def)
next
  case (Some p)
  then have h: "header = ''sha256='' @ p" by (simp add: strip_prefix_Some_iff)
  then have "header \<noteq> cx_hex_encode X (cx_hmac_tag X mac body)"
    using assms(2) [of "cx_hmac_tag X mac body"] by (metis starts_with_iff)
  then show ?thesis using Some h assms(1) by (auto simp: verify_github_def hmac_hex_def)
qed

theorem verify_github_accepts_iff_witness:
  "verify_github toy_crypto ''ghsecret'' (''sha256='' @ toy_encode (as_bytes ''ghsecret'' @ [7])) [7] = Some (Inr ())"
proof -
  have "\<not> starts_with (toy_encode b) ''sha256=''" for b
  proof (cases b)
    case (Cons w bs)
    have "unat w < 256" by (rule u8_less_256)
    then have "nibble_char (unat w div 16) \<noteq> CHR ''s''"
      by (intro nibble_char_neq; simp)
    with Cons show ?thesis by (simp add: toy_encode_def starts_with_def)
  qed (simp add: toy_encode_def starts_with_def)
  then show ?thesis
    using verify_github_accepts_iff [of toy_crypto "''ghsecret''" "as_bytes ''ghsecret''"
        "''sha256='' @ toy_encode (as_bytes ''ghsecret'' @ [7])" "[7]"] by simp
qed

end
