(* ===== verification/Transactions.thy ===== *)
theory Transactions
  imports Lease Inbound
begin

text \<open>
  The transactions the system commits, as one labelled step relation on the database
  (\<open>db_step\<close>): enqueueing, accepting an inbound webhook, claiming, the outcome transactions
  of the dispatcher, replay, and the management calls. Interleavings of any number of workers
  and API requests are sequences of these steps. The database invariant \<open>inv\<close> (references,
  tenant and consumer scopes, lease columns, evidence for terminal states) holds in every
  reachable database. That the programs commit nothing but such steps is shown with the
  programs, in the theories that follow.
\<close>

section \<open>Transactions\<close>

definition in_scope :: "db \<Rightarrow> string \<Rightarrow> uuid option \<Rightarrow> bool" where
  "in_scope db tenant consumer \<longleftrightarrow>
     (\<forall>c. consumer = Some c \<longrightarrow> (\<exists>r\<in>set (t_consumers db). co_id r = c \<and> co_tenant_id r = tenant))"

text \<open>The fan-out loop of \<open>enqueue_message\<close> and \<open>accept\<close>: one delivery per endpoint.\<close>

fun fan_out ::
  "(uuid \<Rightarrow> string) \<Rightarrow> timestamp \<Rightarrow> uuid \<Rightarrow> string \<Rightarrow> (uuid \<times> endpoint) list \<Rightarrow> unit stmt" where
  "fan_out ushow now eid tenant [] db = Inr ((), db)"
| "fan_out ushow now eid tenant ((did, ep) # rest) db =
     (case insert_delivery ushow now did eid (ep_id ep) tenant db of
        Inl e \<Rightarrow> Inl e
      | Inr (_, db1) \<Rightarrow> fan_out ushow now eid tenant rest db1)"

definition recipients :: "string \<Rightarrow> uuid option \<Rightarrow> string \<Rightarrow> db \<Rightarrow> endpoint list" where
  "recipients tenant consumer event_type db =
     filter (\<lambda>e. subscribes_to e event_type)
       (sort_key ep_created_at
          (filter (\<lambda>e. ep_tenant_id e = tenant \<and> \<not> ep_disabled e \<and> ep_consumer_id e = consumer)
             (t_endpoints db)))"

text \<open>What a committed enqueue did: the event row, then one delivery per recipient.\<close>

definition enqueued ::
  "(uuid \<Rightarrow> string) \<Rightarrow> timestamp \<Rightarrow> uuid \<Rightarrow> uuid list \<Rightarrow> string \<Rightarrow> uuid option \<Rightarrow> string \<Rightarrow> json \<Rightarrow> db \<Rightarrow> db \<Rightarrow> bool" where
  "enqueued ushow now eid dids tenant consumer event_type payload db db' \<longleftrightarrow>
     (\<exists>ev db1. insert_event now eid tenant consumer event_type payload db = Inr (ev, db1) \<and>
        length dids = length (recipients tenant consumer event_type db1) \<and>
        fan_out ushow now eid tenant (zip dids (recipients tenant consumer event_type db1)) db1 = Inr ((), db'))"

definition is_success :: "int \<Rightarrow> bool" where
  "is_success code \<longleftrightarrow> 200 \<le> code \<and> code < 300"

datatype act =
  Enqueue uuid
| Accept uuid
| Claim timestamp string
| Release string uuid
| Replay uuid
| Probing timestamp uuid
| Manage

inductive db_step :: "(uuid \<Rightarrow> string) \<Rightarrow> act \<Rightarrow> db \<Rightarrow> db \<Rightarrow> bool" for ushow where
  enqueue: "in_scope db tenant consumer \<Longrightarrow>
    enqueued ushow now eid dids tenant consumer ty payload db db' \<Longrightarrow> db_step ushow (Enqueue eid) db db'"
| accept: "insert_inbound_event now iid (is_id (src :: inbound_source)) (is_tenant_id src) sid ty raw db = Inr (Some iid, db1) \<Longrightarrow>
    enqueued ushow now eid dids (is_tenant_id src) None ty payload db1 db2 \<Longrightarrow>
    link_inbound_event iid eid db2 = Inr ((), db') \<Longrightarrow> db_step ushow (Accept iid) db db'"
| claim: "claim_due_deliveries now locked worker batch lock db = Inr (rows, db') \<Longrightarrow>
    db_step ushow (Claim now worker) db db'"
| defers: "defer_delivery now did worker nxt db = Inr (applied, db') \<Longrightarrow> db_step ushow (Release worker did) db db'"
| dead: "mark_dead_on now fresh v worker reason db = Inr (True, db') \<Longrightarrow>
    db_step ushow (Release worker (dl_id v)) db db'"
| success: "record_attempt fresh did n (Some code) snip None t1 t2 db = Inr ((), db1) \<Longrightarrow>
    is_success code \<Longrightarrow> mark_succeeded now did worker n db1 = Inr (True, db2) \<Longrightarrow> u = on_success \<Longrightarrow>
    update_circuit now pid (cu_state u) (cu_open_until u) (cu_consecutive_failures u) db2 = Inr ((), db') \<Longrightarrow>
    db_step ushow (Release worker did) db db'"
| retry: "record_attempt fresh did n code snip (Some er) t1 t2 db = Inr ((), db1) \<Longrightarrow>
    mark_failed now did worker n nxt er db1 = Inr (True, db2) \<Longrightarrow> u = on_failure p policy t3 \<Longrightarrow>
    update_circuit now pid (cu_state u) (cu_open_until u) (cu_consecutive_failures u) db2 = Inr ((), db') \<Longrightarrow>
    db_step ushow (Release worker did) db db'"
| exhaust: "record_attempt fresh (dl_id v) n code snip (Some er) t1 t2 db = Inr ((), db1) \<Longrightarrow>
    mark_dead_on now fresh2 v worker er db1 = Inr (True, db2) \<Longrightarrow> u = on_failure p policy t3 \<Longrightarrow>
    update_circuit now pid (cu_state u) (cu_open_until u) (cu_consecutive_failures u) db2 = Inr ((), db') \<Longrightarrow>
    db_step ushow (Release worker (dl_id v)) db db'"
| probe: "try_acquire_probe now pid lease db = Inr (won, db') \<Longrightarrow>
    db_step ushow (Probing now pid) db db'"
| replay: "reset_for_replay now did db = Inr (found, db') \<Longrightarrow> db_step ushow (Replay did) db db'"
| create_endpoint: "in_scope db tenant consumer \<Longrightarrow>
    create_endpoint now fresh tenant consumer url secret tys db = Inr (p, db') \<Longrightarrow> db_step ushow Manage db db'"
| create_consumer: "create_consumer now fresh tenant uid name db = Inr (c, db') \<Longrightarrow> db_step ushow Manage db db'"
| update_endpoint: "update_endpoint now pid tenant url dis tys db = Inr (p, db') \<Longrightarrow> db_step ushow Manage db db'"
| create_source: "prov \<in> range provider_as_str \<Longrightarrow> create_inbound_source now fresh tenant slug prov secret db = Inr (s, db') \<Longrightarrow>
    db_step ushow Manage db db'"
| api_key: "insert_api_key now fresh tenant hash db = Inr ((), db') \<Longrightarrow> db_step ushow Manage db db'"

text \<open>Runs: the labels of a sequence of steps.\<close>

inductive run :: "(uuid \<Rightarrow> string) \<Rightarrow> act list \<Rightarrow> db \<Rightarrow> db \<Rightarrow> bool" for ushow where
  nil: "run ushow [] db db"
| snoc: "run ushow as db db1 \<Longrightarrow> db_step ushow a db1 db' \<Longrightarrow> run ushow (as @ [a]) db db'"

section \<open>Histories only grow\<close>

lemma fan_out_ConsE:
  assumes "fan_out ushow now e t (x # ps) db = Inr (r, db')"
  obtains did ep db1 where "x = (did, ep)" "insert_delivery ushow now did e (ep_id ep) t db = Inr ((), db1)"
    "fan_out ushow now e t ps db1 = Inr (r, db')"
  using assms by (cases x) (auto split: sum.splits)

lemma fan_out_extends [extends_intro]: "fan_out ushow now e t ps db = Inr (r, db') \<Longrightarrow> extends db db'"
  by (induction ps arbitrary: db)
     (auto elim!: fan_out_ConsE simp del: fan_out.simps(2) intro: extends_trans insert_delivery_extends)

lemma fan_out_keys [keys_intro]: "fan_out ushow now e t ps db = Inr (r, db') \<Longrightarrow> keys_ok db \<Longrightarrow> keys_ok db'"
  by (induction ps arbitrary: db)
     (auto elim!: fan_out_ConsE simp del: fan_out.simps(2) intro: insert_delivery_keys)

lemma enqueued_extends [extends_intro]:
  "enqueued ushow now e ds t c ty p db db' \<Longrightarrow> extends db db'"
  unfolding enqueued_def by (auto dest!: extends_intro intro: extends_trans)

lemma enqueued_keys [keys_intro]:
  "enqueued ushow now e ds t c ty p db db' \<Longrightarrow> keys_ok db \<Longrightarrow> keys_ok db'"
  unfolding enqueued_def by (auto dest!: keys_intro)

lemma step_extends: "db_step ushow a db db' \<Longrightarrow> extends db db'"
  by (induction rule: db_step.induct) (auto dest!: extends_intro intro: extends_trans)

lemma step_keys: "db_step ushow a db db' \<Longrightarrow> keys_ok db \<Longrightarrow> keys_ok db'"
  by (induction rule: db_step.induct) (auto dest!: keys_intro)

lemma run_extends: "run ushow as db db' \<Longrightarrow> extends db db'"
  by (induction rule: run.induct) (auto intro: step_extends extends_trans)

lemma run_keys: "run ushow as db db' \<Longrightarrow> keys_ok db \<Longrightarrow> keys_ok db'"
  by (induction rule: run.induct) (auto intro: step_keys)

lemma fan_out_result:
  "fan_out ushow now e t ps db = Inr (r, db') \<Longrightarrow>
   db' = db\<lparr>t_deliveries := t_deliveries db @ map (\<lambda>(did, ep). new_delivery ushow now did e (ep_id ep) t) ps\<rparr>"
proof (induction ps arbitrary: db)
  case (Cons x ps)
  from Cons.prems obtain did ep db1 where "x = (did, ep)" and
    1: "insert_delivery ushow now did e (ep_id ep) t db = Inr ((), db1)" and
    2: "fan_out ushow now e t ps db1 = Inr (r, db')" by (rule fan_out_ConsE)
  from 1 have "db1 = db\<lparr>t_deliveries := t_deliveries db @ [new_delivery ushow now did e (ep_id ep) t]\<rparr>"
    by (auto simp: insert_delivery_def unique_violation_def fk_violation_def split: if_splits)
  with Cons.IH [OF 2] \<open>x = (did, ep)\<close> show ?case by simp
qed simp

lemma insert_event_result:
  "insert_event now e t c ty p db = Inr (ev, db') \<Longrightarrow>
   ev = \<lparr>ev_id = e, ev_tenant_id = t, ev_consumer_id = c, ev_event_type = ty, ev_payload = p, ev_created_at = now\<rparr> \<and>
   db' = db\<lparr>t_events := t_events db @ [ev]\<rparr> \<and> e \<notin> ev_id ` set (t_events db)"
  by (auto simp: insert_event_def unique_violation_def fk_violation_def Let_def split: if_splits)

text \<open>The shape of the database after an enqueue.\<close>

lemma enqueued_result:
  assumes "enqueued ushow now e ds t c ty p db db'"
  defines "ps \<equiv> recipients t c ty db"
  shows "db' = db\<lparr>t_events := t_events db @ [\<lparr>ev_id = e, ev_tenant_id = t, ev_consumer_id = c,
             ev_event_type = ty, ev_payload = p, ev_created_at = now\<rparr>],
           t_deliveries := t_deliveries db @
             map (\<lambda>(did, ep). new_delivery ushow now did e (ep_id ep) t) (zip ds ps)\<rparr>
    \<and> length ds = length ps \<and> e \<notin> ev_id ` set (t_events db)"
proof -
  obtain ev db1 where 1: "insert_event now e t c ty p db = Inr (ev, db1)"
    and len: "length ds = length (recipients t c ty db1)"
    and 2: "fan_out ushow now e t (zip ds (recipients t c ty db1)) db1 = Inr ((), db')"
    using assms(1) by (auto simp: enqueued_def)
  note r1 = insert_event_result [OF 1] and r2 = fan_out_result [OF 2]
  have "recipients t c ty db1 = ps" using r1 by (simp add: recipients_def ps_def)
  with r1 r2 len show ?thesis by simp
qed

lemma recipients_iff:
  "ep \<in> set (recipients t c ty db) \<longleftrightarrow>
     ep \<in> set (t_endpoints db) \<and> ep_tenant_id ep = t \<and> \<not> ep_disabled ep \<and> ep_consumer_id ep = c \<and> subscribes_to ep ty"
  by (auto simp: recipients_def)

section \<open>The invariant\<close>

definition routed :: "db \<Rightarrow> delivery \<Rightarrow> bool" where
  "routed db d \<longleftrightarrow>
     (\<exists>e\<in>set (t_events db). \<exists>p\<in>set (t_endpoints db).
        ev_id e = dl_event_id d \<and> ep_id p = dl_endpoint_id d \<and>
        ev_tenant_id e = dl_tenant_id d \<and> ep_tenant_id p = dl_tenant_id d \<and>
        ep_consumer_id p = ev_consumer_id e)"

definition lock_ok :: "delivery \<Rightarrow> bool" where
  "lock_ok d \<longleftrightarrow>
     dl_status d \<in> range status_as_str \<and>
     (dl_locked_by d \<noteq> None \<longleftrightarrow> dl_status d = ''in_progress'') \<and>
     (dl_locked_until d \<noteq> None \<longleftrightarrow> dl_status d = ''in_progress'')"

definition evidence :: "db \<Rightarrow> delivery \<Rightarrow> bool" where
  "evidence db d \<longleftrightarrow>
     (dl_status d = ''succeeded'' \<longrightarrow>
        (\<exists>a\<in>set (t_attempts db). da_delivery_id a = dl_id d \<and> (\<exists>c. da_status_code a = Some c \<and> is_success c))) \<and>
     (dl_status d = ''dead'' \<longrightarrow> (\<exists>l\<in>set (t_dead_letters db). dd_delivery_id l = dl_id d))"

definition delivery_ok :: "(uuid \<Rightarrow> string) \<Rightarrow> db \<Rightarrow> delivery \<Rightarrow> bool" where
  "delivery_ok ushow db d \<longleftrightarrow>
     routed db d \<and> dl_idempotency_key d = ushow (dl_id d) \<and> lock_ok d \<and> evidence db d"

definition bridged :: "db \<Rightarrow> inbound_event \<Rightarrow> bool" where
  "bridged db i \<longleftrightarrow>
     (\<exists>e\<in>set (t_events db). ie_event_id i = Some (ev_id e) \<and> ev_tenant_id e = ie_tenant_id i \<and>
        ev_consumer_id e = None \<and> ev_event_type e = ie_event_type i)"

definition inv :: "(uuid \<Rightarrow> string) \<Rightarrow> db \<Rightarrow> bool" where
  "inv ushow db \<longleftrightarrow>
     keys_ok db \<and>
     (\<forall>d\<in>set (t_deliveries db). delivery_ok ushow db d) \<and>
     (\<forall>e\<in>set (t_events db). in_scope db (ev_tenant_id e) (ev_consumer_id e)) \<and>
     (\<forall>p\<in>set (t_endpoints db). in_scope db (ep_tenant_id p) (ep_consumer_id p)) \<and>
     (\<forall>i\<in>set (t_inbound db). bridged db i)"

lemma in_scope_None [simp]: "in_scope db t None"
  by (simp add: in_scope_def)

lemma in_scope_extends: "in_scope db t c \<Longrightarrow> extends db db' \<Longrightarrow> in_scope db' t c"
proof -
  assume scope: "in_scope db t c" and "extends db db'"
  then have pre: "prefix (map co_identity (t_consumers db)) (map co_identity (t_consumers db'))"
    by (simp add: extends_def)
  show ?thesis
    unfolding in_scope_def
  proof (intro allI impI)
    fix k
    assume "c = Some k"
    with scope obtain r where r: "r \<in> set (t_consumers db)" "co_id r = k" "co_tenant_id r = t"
      by (auto simp: in_scope_def)
    then obtain r' where "r' \<in> set (t_consumers db')" "co_identity r' = co_identity r"
      using prefix_map_member [OF pre] by blast
    with r show "\<exists>r\<in>set (t_consumers db'). co_id r = k \<and> co_tenant_id r = t"
      by (auto simp: co_identity_def)
  qed
qed

lemma routed_extends:
  assumes "routed db d" "extends db db'" "dl_identity d' = dl_identity d"
  shows "routed db' d'"
proof -
  obtain e p where e: "e \<in> set (t_events db)" and p: "p \<in> set (t_endpoints db)"
    and eq: "ev_id e = dl_event_id d" "ep_id p = dl_endpoint_id d" "ev_tenant_id e = dl_tenant_id d"
      "ep_tenant_id p = dl_tenant_id d" "ep_consumer_id p = ev_consumer_id e"
    using assms(1) by (auto simp: routed_def)
  obtain p' where p': "p' \<in> set (t_endpoints db')" "ep_identity p' = ep_identity p"
    using extends_endpoint [OF assms(2) p] by blast
  have "e \<in> set (t_events db')" using e extends_events [OF assms(2)] by blast
  moreover have "ep_id p' = dl_endpoint_id d'" "ep_tenant_id p' = dl_tenant_id d'"
    "ep_consumer_id p' = ev_consumer_id e" "ev_id e = dl_event_id d'" "ev_tenant_id e = dl_tenant_id d'"
    using p'(2) eq assms(3) by (simp_all add: ep_identity_def dl_identity_def)
  ultimately show ?thesis using p'(1) unfolding routed_def by blast
qed

lemma evidence_extends: "evidence db d \<Longrightarrow> extends db db' \<Longrightarrow> evidence db' d"
  using extends_attempts [of db db'] extends_dead_letters [of db db'] unfolding evidence_def by blast

lemma delivery_ok_extends: "delivery_ok ushow db d \<Longrightarrow> extends db db' \<Longrightarrow> delivery_ok ushow db' d"
  unfolding delivery_ok_def by (blast intro: routed_extends evidence_extends)

lemma bridged_extends: "bridged db i \<Longrightarrow> extends db db' \<Longrightarrow> bridged db' i"
  using extends_events [of db db'] unfolding bridged_def by blast

text \<open>An outcome or claim rewrites a row that was fine; it stays fine when its lease columns
  fit its status and there is evidence for its status.\<close>

lemma rewritten_ok:
  assumes "delivery_ok ushow db d" "extends db db'" "dl_identity d' = dl_identity d"
    and "lock_ok d'" "evidence db' d'"
  shows "delivery_ok ushow db' d'"
  using assms routed_extends [of db d db' d'] by (simp add: delivery_ok_def dl_identity_def)

text \<open>The frame argument that all steps share.\<close>

lemma inv_step:
  assumes "inv ushow db" "extends db db'" "keys_ok db'"
    and dl: "\<And>d'. d' \<in> set (t_deliveries db') \<Longrightarrow> d' \<in> set (t_deliveries db) \<or> delivery_ok ushow db' d'"
    and ev: "\<And>e. e \<in> set (t_events db') \<Longrightarrow> e \<in> set (t_events db) \<or> in_scope db' (ev_tenant_id e) (ev_consumer_id e)"
    and ep: "\<And>p. p \<in> set (t_endpoints db') \<Longrightarrow>
      (\<exists>q\<in>set (t_endpoints db). ep_identity p = ep_identity q) \<or> in_scope db' (ep_tenant_id p) (ep_consumer_id p)"
    and ie: "\<And>i. i \<in> set (t_inbound db') \<Longrightarrow> i \<in> set (t_inbound db) \<or> bridged db' i"
  shows "inv ushow db'"
  unfolding inv_def
proof (intro conjI ballI)
  show "keys_ok db'" by fact
next
  fix d
  assume "d \<in> set (t_deliveries db')"
  with dl show "delivery_ok ushow db' d" using assms(1,2) delivery_ok_extends by (metis inv_def)
next
  fix e
  assume "e \<in> set (t_events db')"
  with ev show "in_scope db' (ev_tenant_id e) (ev_consumer_id e)"
    using assms(1,2) in_scope_extends by (metis inv_def)
next
  fix p
  assume "p \<in> set (t_endpoints db')"
  from ep [OF this] show "in_scope db' (ep_tenant_id p) (ep_consumer_id p)"
  proof
    assume "\<exists>q\<in>set (t_endpoints db). ep_identity p = ep_identity q"
    then obtain q where q: "q \<in> set (t_endpoints db)" "ep_identity p = ep_identity q" by blast
    have "in_scope db' (ep_tenant_id q) (ep_consumer_id q)"
      using assms(1,2) q(1) in_scope_extends by (metis inv_def)
    with q(2) show ?thesis by (simp add: ep_identity_def)
  qed
next
  fix i
  assume "i \<in> set (t_inbound db')"
  with ie show "bridged db' i" using assms(1,2) bridged_extends by (metis inv_def)
qed

lemma same_identity_member:
  "map f xs = map f ys \<Longrightarrow> x \<in> set xs \<Longrightarrow> \<exists>y\<in>set ys. f x = f y"
  by (metis (no_types, lifting) image_iff list.set_map)

text \<open>Steps that insert neither events, deliveries, endpoints nor inbound rows.\<close>

lemma inv_rewrite:
  assumes "inv ushow db" "extends db db'" "keys_ok db'"
    and "t_events db' = t_events db" "t_inbound db' = t_inbound db"
      "map ep_identity (t_endpoints db') = map ep_identity (t_endpoints db)"
    and rows: "\<And>d'. d' \<in> set (t_deliveries db') \<Longrightarrow> \<exists>d\<in>set (t_deliveries db).
      d' = d \<or> dl_identity d' = dl_identity d \<and> lock_ok d' \<and> evidence db' d'"
  shows "inv ushow db'"
proof (rule inv_step [OF assms(1-3)])
  fix d'
  assume "d' \<in> set (t_deliveries db')"
  then obtain d where d: "d \<in> set (t_deliveries db)"
    "d' = d \<or> dl_identity d' = dl_identity d \<and> lock_ok d' \<and> evidence db' d'" using rows by blast
  then have "delivery_ok ushow db d" using assms(1) by (simp add: inv_def)
  with d assms(2) show "d' \<in> set (t_deliveries db) \<or> delivery_ok ushow db' d'"
    using rewritten_ok by blast
qed (use assms(4,5) same_identity_member [OF assms(6)] in auto)

lemma lock_ok_claim [simp]: "lock_ok (claim_row now worker lock d)"
  by (auto simp: lock_ok_def claim_row_def image_iff intro: exI [of _ InProgress])

lemma lock_ok_released:
  "dl_locked_by d = None \<Longrightarrow> dl_locked_until d = None \<Longrightarrow>
   dl_status d \<in> {''pending'', ''failed'', ''succeeded'', ''dead''} \<Longrightarrow> lock_ok d"
  by (auto simp: lock_ok_def image_iff intro: exI [of _ Pending] exI [of _ Failed] exI [of _ Succeeded]
      exI [of _ Dead])

lemma lock_ok_rows [simp]:
  "lock_ok (succeeded_row now n d)" "lock_ok (failed_row now n nxt er d)" "lock_ok (deferred_row now nxt d)"
  "lock_ok (dead_row now er d)" "lock_ok (replay_row now d)" "lock_ok (new_delivery ushow now did e p t)"
  by (rule lock_ok_released; simp add: row_defs new_delivery_def)+

lemma evidence_open [simp]:
  "evidence db (claim_row now worker lock d)" "evidence db (failed_row now n nxt er d)"
  "evidence db (deferred_row now nxt d)" "evidence db (replay_row now d)"
  "evidence db (new_delivery ushow now did e p t)"
  by (simp_all add: evidence_def row_defs new_delivery_def)

lemma evidence_succeeded:
  "a \<in> set (t_attempts db) \<Longrightarrow> da_delivery_id a = dl_id d \<Longrightarrow> da_status_code a = Some c \<Longrightarrow> is_success c \<Longrightarrow>
   evidence db (succeeded_row now n d)"
  by (auto simp: evidence_def succeeded_row_def)

lemma evidence_dead:
  "l \<in> set (t_dead_letters db) \<Longrightarrow> dd_delivery_id l = dl_id d \<Longrightarrow> evidence db (dead_row now er d)"
  by (auto simp: evidence_def dead_row_def)

lemma identity_rows [simp]:
  "dl_identity (claim_row now worker lock d) = dl_identity d" "dl_identity (succeeded_row now n d) = dl_identity d"
  "dl_identity (failed_row now n nxt er d) = dl_identity d" "dl_identity (deferred_row now nxt d) = dl_identity d"
  "dl_identity (dead_row now er d) = dl_identity d" "dl_identity (replay_row now d) = dl_identity d"
  by (simp_all add: claim_w.key_upd succeeded_w.key_upd failed_w.key_upd deferred_w.key_upd dead_w.key_upd
      replay_w.key_upd)

section \<open>Results of the outcome statements\<close>

lemma record_attempt_result:
  "record_attempt fresh did n c s er t1 t2 db = Inr (r, db') \<Longrightarrow>
   db' = db\<lparr>t_attempts := t_attempts db @ [\<lparr>da_id = fresh, da_delivery_id = did, da_attempt_number = n,
      da_status_code = c, da_response_snippet = s, da_error = er, da_started_at = t1, da_finished_at = t2\<rparr>]\<rparr>"
  by (auto simp: record_attempt_def invalid_text_def unique_violation_def fk_violation_def Let_def split: if_splits)

lemma update_circuit_result:
  "update_circuit now pid st u n db = Inr (r, db') \<Longrightarrow>
   db' = db\<lparr>t_endpoints := update_where (\<lambda>e. ep_id e = pid) (set_circuit now st u n) (t_endpoints db)\<rparr>"
  by (simp add: update_circuit_def)

lemma mark_succeeded_result:
  "mark_succeeded now did w n db = Inr (b, db') \<Longrightarrow>
   \<exists>k. lease_update now did w (succeeded_row now n) db = (k, db') \<and> b = (k = 1)"
  by (auto simp: mark_succeeded_def split: prod.splits)

lemma mark_failed_result:
  "mark_failed now did w n nxt er db = Inr (b, db') \<Longrightarrow>
   \<exists>k. lease_update now did w (failed_row now n nxt er) db = (k, db') \<and> b = (k = 1)"
  by (auto simp: mark_failed_def split: prod.splits)

lemma defer_delivery_result:
  "defer_delivery now did w nxt db = Inr (b, db') \<Longrightarrow>
   \<exists>k. lease_update now did w (deferred_row now nxt) db = (k, db') \<and> b = (k = 1)"
  by (auto simp: defer_delivery_def split: prod.splits)

lemma mark_dead_on_result:
  "mark_dead_on now fresh v w er db = Inr (True, db') \<Longrightarrow>
   \<exists>k db1. lease_update now (dl_id v) w (dead_row now er) db = (k, db1) \<and> k \<noteq> 0 \<and>
     db' = db1\<lparr>t_dead_letters := t_dead_letters db1 @ [\<lparr>dd_id = fresh, dd_delivery_id = dl_id v,
        dd_event_id = dl_event_id v, dd_endpoint_id = dl_endpoint_id v, dd_reason = er, dd_created_at = now\<rparr>]\<rparr>"
  by (auto simp: mark_dead_on_def unique_violation_def fk_violation_def Let_def split: prod.splits if_splits)

section \<open>The invariant is kept\<close>

text \<open>Outcome transactions: an optional attempt row first, the guarded write, an optional dead
  letter, an optional circuit update.\<close>

lemma defer_inv: "defer_delivery now did w nxt db = Inr (b, db') \<Longrightarrow> inv ushow db \<Longrightarrow> inv ushow db'"
proof -
  assume d: "defer_delivery now did w nxt db = Inr (b, db')" and i: "inv ushow db"
  then have k: "keys_ok db" by (simp add: inv_def)
  obtain k where l: "lease_update now did w (deferred_row now nxt) db = (k, db')"
    using defer_delivery_result [OF d] by blast
  show ?thesis
    by (rule inv_rewrite [OF i defer_delivery_extends [OF d] defer_delivery_keys [OF d k]])
      (use lease_update_frame [OF l] deferred_r.written_rows [OF l] in \<open>auto, force\<close>)
qed

lemma dead_inv: "mark_dead_on now fresh v w er db = Inr (True, db') \<Longrightarrow> inv ushow db \<Longrightarrow> inv ushow db'"
proof -
  assume d: "mark_dead_on now fresh v w er db = Inr (True, db')" and i: "inv ushow db"
  then have k: "keys_ok db" by (simp add: inv_def)
  obtain k db1 where l: "lease_update now (dl_id v) w (dead_row now er) db = (k, db1)"
    and db': "t_deliveries db' = t_deliveries db1" "t_events db' = t_events db1" "t_inbound db' = t_inbound db1"
      "t_endpoints db' = t_endpoints db1" "\<exists>x\<in>set (t_dead_letters db'). dd_delivery_id x = dl_id v"
    using mark_dead_on_result [OF d] by force
  show ?thesis
  proof (rule inv_rewrite [OF i mark_dead_on_extends [OF d] mark_dead_on_keys [OF d k]])
    fix d'
    assume "d' \<in> set (t_deliveries db')"
    then obtain x where x: "x \<in> set (t_deliveries db)" "d' = x \<or> d' = dead_row now er x \<and> dl_id x = dl_id v"
      using dead_r.written_rows [OF l] db'(1) by auto
    then show "\<exists>d\<in>set (t_deliveries db). d' = d \<or> dl_identity d' = dl_identity d \<and> lock_ok d' \<and> evidence db' d'"
      using db'(5) evidence_dead by (metis identity_rows(5) lock_ok_rows(4))
  qed (use lease_update_frame [OF l] db' in auto)
qed

lemma update_circuit_inv: "update_circuit now pid st u n db = Inr (r, db') \<Longrightarrow> inv ushow db \<Longrightarrow> inv ushow db'"
proof -
  assume u: "update_circuit now pid st u n db = Inr (r, db')" and i: "inv ushow db"
  then have k: "keys_ok db" by (simp add: inv_def)
  show ?thesis
    by (rule inv_rewrite [OF i update_circuit_extends [OF u] update_circuit_keys [OF u k]])
      (use update_circuit_result [OF u] in auto)
qed

lemma record_attempt_inv: "record_attempt fresh did n c s er t1 t2 db = Inr (r, db') \<Longrightarrow> inv ushow db \<Longrightarrow> inv ushow db'"
proof -
  assume u: "record_attempt fresh did n c s er t1 t2 db = Inr (r, db')" and i: "inv ushow db"
  then have k: "keys_ok db" by (simp add: inv_def)
  show ?thesis
    by (rule inv_rewrite [OF i record_attempt_extends [OF u] record_attempt_keys [OF u k]])
      (use record_attempt_result [OF u] in auto)
qed

lemma mark_failed_inv: "mark_failed now did w n nxt er db = Inr (b, db') \<Longrightarrow> inv ushow db \<Longrightarrow> inv ushow db'"
proof -
  assume d: "mark_failed now did w n nxt er db = Inr (b, db')" and i: "inv ushow db"
  then have k: "keys_ok db" by (simp add: inv_def)
  obtain k where l: "lease_update now did w (failed_row now n nxt er) db = (k, db')"
    using mark_failed_result [OF d] by blast
  show ?thesis
    by (rule inv_rewrite [OF i mark_failed_extends [OF d] mark_failed_keys [OF d k]])
      (use lease_update_frame [OF l] failed_r.written_rows [OF l] in \<open>auto, force\<close>)
qed

text \<open>A success needs the attempt row that proves it.\<close>

lemma mark_succeeded_inv:
  assumes d: "mark_succeeded now did w n db = Inr (b, db')" and i: "inv ushow db"
    and a: "a \<in> set (t_attempts db)" "da_delivery_id a = did" "da_status_code a = Some c" "is_success c"
  shows "inv ushow db'"
proof -
  have k: "keys_ok db" using i by (simp add: inv_def)
  obtain k where l: "lease_update now did w (succeeded_row now n) db = (k, db')"
    using mark_succeeded_result [OF d] by blast
  have a': "a \<in> set (t_attempts db')" using a(1) lease_update_frame [OF l] by simp
  show ?thesis
  proof (rule inv_rewrite [OF i mark_succeeded_extends [OF d] mark_succeeded_keys [OF d k]])
    fix d'
    assume "d' \<in> set (t_deliveries db')"
    then obtain x where "x \<in> set (t_deliveries db)" "d' = x \<or> d' = succeeded_row now n x \<and> dl_id x = did"
      using succeeded_r.written_rows [OF l] by auto
    then show "\<exists>d\<in>set (t_deliveries db). d' = d \<or> dl_identity d' = dl_identity d \<and> lock_ok d' \<and> evidence db' d'"
      using a' a(2-4) evidence_succeeded by (metis identity_rows(2) lock_ok_rows(1))
  qed (use lease_update_frame [OF l] in auto)
qed

lemma rewritten_rows:
  assumes "t_deliveries db' = update_where P f (t_deliveries db)" "d' \<in> set (t_deliveries db')"
    and "\<And>d. dl_identity (f d) = dl_identity d \<and> lock_ok (f d) \<and> evidence db' (f d)"
  shows "\<exists>d\<in>set (t_deliveries db). d' = d \<or> dl_identity d' = dl_identity d \<and> lock_ok d' \<and> evidence db' d'"
proof -
  obtain d where "d \<in> set (t_deliveries db)" "d' = d \<or> d' = f d"
    using assms(1,2) by (auto simp: set_update_where split: if_splits)
  then show ?thesis using assms(3) by blast
qed

lemma claim_inv: "claim_due_deliveries now locked w batch lock db = Inr (rows, db') \<Longrightarrow> inv ushow db \<Longrightarrow> inv ushow db'"
proof -
  assume c: "claim_due_deliveries now locked w batch lock db = Inr (rows, db')" and i: "inv ushow db"
  then have k: "keys_ok db" by (simp add: inv_def)
  obtain P where "db' = db\<lparr>t_deliveries := update_where P (claim_row now w lock) (t_deliveries db)\<rparr>"
    using c by (auto simp: claim_due_deliveries_def Let_def split: if_splits)
  then show ?thesis
    by (intro inv_rewrite [OF i claim_extends [OF c] claim_keys [OF c k]])
      (simp_all, rule rewritten_rows, simp, simp, simp)
qed

lemma replay_inv: "reset_for_replay now did db = Inr (b, db') \<Longrightarrow> inv ushow db \<Longrightarrow> inv ushow db'"
proof -
  assume c: "reset_for_replay now did db = Inr (b, db')" and i: "inv ushow db"
  then have k: "keys_ok db" by (simp add: inv_def)
  obtain P where "db' = db\<lparr>t_deliveries := update_where P (replay_row now) (t_deliveries db)\<rparr>"
    using c by (auto simp: reset_for_replay_def Let_def)
  then show ?thesis
    by (intro inv_rewrite [OF i reset_for_replay_extends [OF c] reset_for_replay_keys [OF c k]])
      (simp_all, rule rewritten_rows, simp, simp, simp)
qed

lemma probe_inv: "try_acquire_probe now pid l db = Inr (b, db') \<Longrightarrow> inv ushow db \<Longrightarrow> inv ushow db'"
proof -
  assume c: "try_acquire_probe now pid l db = Inr (b, db')" and i: "inv ushow db"
  then have k: "keys_ok db" by (simp add: inv_def)
  show ?thesis
    by (rule inv_rewrite [OF i try_acquire_probe_extends [OF c] try_acquire_probe_keys [OF c k]])
      (use c in \<open>auto simp: try_acquire_probe_def Let_def\<close>)
qed

lemma update_endpoint_inv: "update_endpoint now pid t url dis tys db = Inr (p, db') \<Longrightarrow> inv ushow db \<Longrightarrow> inv ushow db'"
proof -
  assume c: "update_endpoint now pid t url dis tys db = Inr (p, db')" and i: "inv ushow db"
  then have k: "keys_ok db" by (simp add: inv_def)
  show ?thesis
    by (rule inv_rewrite [OF i update_endpoint_extends [OF c] update_endpoint_keys [OF c k]])
      (use c in \<open>auto simp: update_endpoint_def Let_def\<close>)
qed

lemma create_source_inv: "create_inbound_source now f t sl p sec db = Inr (r, db') \<Longrightarrow> inv ushow db \<Longrightarrow> inv ushow db'"
proof -
  assume c: "create_inbound_source now f t sl p sec db = Inr (r, db')" and i: "inv ushow db"
  then have k: "keys_ok db" by (simp add: inv_def)
  show ?thesis
    by (rule inv_rewrite [OF i create_inbound_source_extends [OF c] create_inbound_source_keys [OF c k]])
      (use c in \<open>auto simp: create_inbound_source_def unique_violation_def Let_def split: if_splits\<close>)
qed

lemma api_key_inv: "insert_api_key now f t h db = Inr (r, db') \<Longrightarrow> inv ushow db \<Longrightarrow> inv ushow db'"
proof -
  assume c: "insert_api_key now f t h db = Inr (r, db')" and i: "inv ushow db"
  then have k: "keys_ok db" by (simp add: inv_def)
  show ?thesis
    by (rule inv_rewrite [OF i insert_api_key_extends [OF c] insert_api_key_keys [OF c k]])
      (use c in \<open>auto simp: insert_api_key_def unique_violation_def Let_def split: if_splits\<close>)
qed

lemma create_consumer_inv: "create_consumer now f t u n db = Inr (r, db') \<Longrightarrow> inv ushow db \<Longrightarrow> inv ushow db'"
proof -
  assume c: "create_consumer now f t u n db = Inr (r, db')" and i: "inv ushow db"
  then have k: "keys_ok db" by (simp add: inv_def)
  show ?thesis
    by (rule inv_rewrite [OF i create_consumer_extends [OF c] create_consumer_keys [OF c k]])
      (use c in \<open>auto simp: create_consumer_def unique_violation_def Let_def split: if_splits option.splits\<close>)
qed

lemma create_endpoint_inv:
  assumes c: "create_endpoint now f t co url sec tys db = Inr (p, db')" and i: "inv ushow db"
    and scope: "in_scope db t co"
  shows "inv ushow db'"
proof -
  have k: "keys_ok db" using i by (simp add: inv_def)
  have scope': "in_scope db' t co" by (rule in_scope_extends [OF scope create_endpoint_extends [OF c]])
  show ?thesis
    by (rule inv_step [OF i create_endpoint_extends [OF c] create_endpoint_keys [OF c k]])
      (use c scope' in \<open>auto simp: create_endpoint_def unique_violation_def fk_violation_def Let_def
         split: if_splits\<close>)
qed

lemma enqueued_rows_ok:
  assumes q: "enqueued ushow now e ds t c ty p db db'" and d': "d' \<in> set (t_deliveries db')"
  shows "d' \<in> set (t_deliveries db) \<or> delivery_ok ushow db' d'"
proof -
  note res = enqueued_result [OF q]
  from d' consider "d' \<in> set (t_deliveries db)"
    | did ep where "(did, ep) \<in> set (zip ds (recipients t c ty db))" "d' = new_delivery ushow now did e (ep_id ep) t"
    using res by auto
  then show ?thesis
  proof cases
    case 2
    then have "ep \<in> set (recipients t c ty db)" by (meson set_zip_rightD)
    then have "routed db' d'"
      using res unfolding routed_def 2(2) recipients_iff by (auto simp: new_delivery_def intro!: bexI [of _ ep])
    with 2(2) show ?thesis by (simp add: delivery_ok_def) (simp add: new_delivery_def)
  qed simp
qed

lemma enqueued_inv:
  assumes q: "enqueued ushow now e ds t c ty p db db'" and i: "inv ushow db" and scope: "in_scope db t c"
  shows "inv ushow db'"
proof -
  have k: "keys_ok db" using i by (simp add: inv_def)
  note res = enqueued_result [OF q]
  have scope': "in_scope db' t c" by (rule in_scope_extends [OF scope enqueued_extends [OF q]])
  show ?thesis
    by (rule inv_step [OF i enqueued_extends [OF q] enqueued_keys [OF q k] enqueued_rows_ok [OF q]])
      (use res scope' in auto)
qed

lemma accept_inv:
  assumes 1: "insert_inbound_event now iid sid t seid ty raw db = Inr (Some iid, db1)"
    and 2: "enqueued ushow now e ds t None ty p db1 db2"
    and 3: "link_inbound_event iid e db2 = Inr ((), db')" and i: "inv ushow db"
  shows "inv ushow db'"
proof -
  let ?row = "\<lparr>ie_id = iid, ie_source_id = sid, ie_tenant_id = t, ie_source_event_id = seid,
    ie_event_type = ty, ie_raw_body = raw, ie_event_id = None, ie_received_at = now\<rparr>"
  have fresh: "iid \<notin> ie_id ` set (t_inbound db)" and db1: "db1 = db\<lparr>t_inbound := t_inbound db @ [?row]\<rparr>"
    using 1 by (auto simp: insert_inbound_event_def unique_violation_def fk_violation_def Let_def split: if_splits)
  note res = enqueued_result [OF 2]
  have db': "db' = db2\<lparr>t_inbound := update_where (\<lambda>i. ie_id i = iid) (\<lambda>i. i\<lparr>ie_event_id := Some e\<rparr>) (t_inbound db2)\<rparr>"
    using 3 by (auto simp: link_inbound_event_def fk_violation_def split: if_splits)
  have "update_where (\<lambda>i. ie_id i = iid) (\<lambda>i. i\<lparr>ie_event_id := Some e\<rparr>) (t_inbound db @ [?row]) =
      t_inbound db @ [?row\<lparr>ie_event_id := Some e\<rparr>]"
    using fresh update_where_id [of "t_inbound db" "\<lambda>i. ie_id i = iid"] by (auto simp: update_where_def)
  with res db' db1 have inb: "t_inbound db' = t_inbound db @ [?row\<lparr>ie_event_id := Some e\<rparr>]" by simp
  have ext: "extends db db1" "extends db1 db2" "extends db2 db'"
    using insert_inbound_event_extends [OF 1] enqueued_extends [OF 2] link_inbound_event_extends [OF 3] .
  then have ext': "extends db db'" by (blast intro: extends_trans)
  have "keys_ok db" using i by (simp add: inv_def)
  then have keys: "keys_ok db'" using 1 2 3 by (blast dest: keys_intro)
  show ?thesis
  proof (rule inv_step [OF i ext' keys])
    fix d'
    assume "d' \<in> set (t_deliveries db')"
    then show "d' \<in> set (t_deliveries db) \<or> delivery_ok ushow db' d'"
      using enqueued_rows_ok [OF 2, of d'] db' db1 delivery_ok_extends [OF _ ext(3)] by auto
  qed (use res db' db1 inb in \<open>auto simp: bridged_def\<close>)
qed

lemma step_inv: "db_step ushow a db db' \<Longrightarrow> inv ushow db \<Longrightarrow> inv ushow db'"
proof (induction rule: db_step.induct)
  case (success fresh did n code snip t1 t2 db db1 now worker db2 u pid db')
  have "inv ushow db1" using success by (blast intro: record_attempt_inv)
  moreover have "\<exists>a\<in>set (t_attempts db1). da_delivery_id a = did \<and> da_status_code a = Some code"
    using record_attempt_result [OF success(1)] by simp
  ultimately have "inv ushow db2" using success(2,3) mark_succeeded_inv by blast
  then show ?case using success(5) by (rule update_circuit_inv [rotated])
next
  case (retry fresh did n code snip er t1 t2 db db1 now worker nxt db2)
  then show ?case by (metis record_attempt_inv mark_failed_inv update_circuit_inv)
next
  case (exhaust fresh v n code snip er t1 t2 db db1 now fresh2 worker db2)
  then show ?case by (metis record_attempt_inv dead_inv update_circuit_inv)
qed (erule (1) enqueued_inv accept_inv claim_inv defer_inv dead_inv probe_inv replay_inv create_endpoint_inv
  create_consumer_inv update_endpoint_inv create_source_inv api_key_inv; assumption)+

lemma empty_inv [simp]: "inv ushow empty_db"
  by (simp add: inv_def) (simp add: empty_db_def)

lemma run_inv: "run ushow as db db' \<Longrightarrow> inv ushow db \<Longrightarrow> inv ushow db'"
  by (induction rule: run.induct) (auto intro: step_inv)

end
