(* ===== verification/Queue.thy ===== *)
theory Queue
  imports Transactions
begin

text \<open>
  What the queue promises, over all interleavings: nothing is lost, scopes never cross, a lease
  excludes everyone else until it runs out, terminal states come with their evidence, an
  unfinished delivery always becomes due again, and repeated claims drain the queue.
\<close>

section \<open>Histories\<close>

text \<open>C8. Nothing is ever lost: whatever sequence of transactions the system commits, the
  events, the attempts and the dead letters of before are still there, unchanged and in the
  same order, and every delivery keeps its row, with its event, endpoint, tenant and
  idempotency key.\<close>

theorem nothing_is_lost:
  assumes "run ushow as db db'"
  shows "prefix (t_events db) (t_events db') \<and> prefix (t_attempts db) (t_attempts db') \<and>
    prefix (t_dead_letters db) (t_dead_letters db') \<and>
    prefix (map dl_identity (t_deliveries db)) (map dl_identity (t_deliveries db'))"
  using run_extends [OF assms] by (simp add: extends_def)

text \<open>A short run, for the witnesses: an endpoint is registered, an event enqueued, claimed by
  \<open>worker-0\<close>, and taken over by \<open>worker-1\<close> after the lease ran out.\<close>

definition ushow0 :: "uuid \<Rightarrow> string" where
  "ushow0 u = show_nat (unat u)"

definition db_a :: db where
  "db_a = snd (projr (create_endpoint 0 7 ''t1'' None ''http://x'' ''topsecret'' None empty_db))"

definition event0 :: event where
  "event0 = \<lparr>ev_id = 3, ev_tenant_id = ''t1'', ev_consumer_id = None, ev_event_type = ''pay.ok'',
     ev_payload = JNull, ev_created_at = 5\<rparr>"

definition db_b :: db where
  "db_b = db_a\<lparr>t_events := [event0], t_deliveries := [new_delivery ushow0 5 1 3 7 ''t1'']\<rparr>"

definition db_c :: db where
  "db_c = snd (projr (claim_due_deliveries 10 (\<lambda>_. False) ''worker-0'' 32 30 db_b))"

lemma db_a_eq: "db_a = empty_db\<lparr>t_endpoints := [sample_endpoint]\<rparr>"
  by (simp add: db_a_def create_endpoint_def has_key_opt_def empty_db_def sample_endpoint_def Let_def)

lemma db_c_eq:
  "db_c = db_b\<lparr>t_deliveries := [claim_row 10 ''worker-0'' 30 (new_delivery ushow0 5 1 3 7 ''t1'')]\<rparr>"
  by (simp add: db_c_def db_b_def claim_due_deliveries_def claimable_def due_def new_delivery_def Let_def)

lemma recipients_b: "recipients ''t1'' None ''pay.ok'' (db_a\<lparr>t_events := es\<rparr>) = [sample_endpoint]"
  by (simp add: recipients_def db_a_eq sample_endpoint_def subscribes_to_def)

lemma step_a: "db_step ushow0 Manage empty_db db_a"
  by (rule db_step.create_endpoint [of _ "''t1''" None 0 7 "''http://x''" "''topsecret''" None])
    (simp_all add: db_a_def create_endpoint_def has_key_opt_def empty_db_def Let_def)

lemma step_b: "db_step ushow0 (Enqueue 3) db_a db_b"
proof (rule db_step.enqueue [of _ "''t1''" None _ 5 _ "[1]" "''pay.ok''" JNull])
  have "insert_event 5 3 ''t1'' None ''pay.ok'' JNull db_a = Inr (event0, db_a\<lparr>t_events := [event0]\<rparr>)"
    by (simp add: insert_event_def db_a_eq empty_db_def has_key_opt_def event0_def Let_def)
  moreover have "fan_out ushow0 5 3 ''t1'' [(1, sample_endpoint)] (db_a\<lparr>t_events := [event0]\<rparr>) = Inr ((), db_b)"
    by (simp add: insert_delivery_def db_a_eq db_b_def empty_db_def event0_def sample_endpoint_def)
  ultimately show "enqueued ushow0 5 3 [1] ''t1'' None ''pay.ok'' JNull db_a db_b"
    unfolding enqueued_def by (auto simp: recipients_b)
qed simp

lemma step_c: "db_step ushow0 (Claim 10 ''worker-0'') db_b db_c"
  by (rule db_step.claim [of _ "\<lambda>_. False" _ 32 30])
    (simp add: db_c_def claim_due_deliveries_def Let_def)

lemma run_abc: "run ushow0 [Manage, Enqueue 3, Claim 10 ''worker-0''] empty_db db_c"
  using run.snoc [OF run.snoc [OF run.snoc [OF run.nil step_a] step_b] step_c] by simp

lemma run_bc: "run ushow0 [Claim 10 ''worker-0''] db_b db_c"
  using run.snoc [OF run.nil step_c] by simp

theorem nothing_is_lost_witness:
  "prefix (t_events db_b) (t_events db_c) \<and> t_events db_b = [event0] \<and> event0 \<in> set (t_events db_c)"
proof -
  have "prefix (t_events db_b) (t_events db_c)" using nothing_is_lost [OF run_bc] by blast
  moreover have "t_events db_b = [event0]" by (simp add: db_b_def)
  ultimately show ?thesis using set_mono_prefix by fastforce
qed

section \<open>Scopes and evidence\<close>

lemma reachable_inv: "run ushow as empty_db db \<Longrightarrow> inv ushow db"
  by (erule run_inv) simp

lemma reachable_delivery_ok: "run ushow as empty_db db \<Longrightarrow> d \<in> set (t_deliveries db) \<Longrightarrow> delivery_ok ushow db d"
  using reachable_inv by (simp add: inv_def)

text \<open>C26. Scopes never cross: in every reachable database a delivery joins an event and an
  endpoint of its own tenant and of the same consumer scope, and where that scope is a
  consumer, the consumer belongs to the tenant.\<close>

theorem scopes_never_cross:
  assumes "run ushow as empty_db db" "d \<in> set (t_deliveries db)"
  shows "\<exists>e\<in>set (t_events db). \<exists>p\<in>set (t_endpoints db).
      ev_id e = dl_event_id d \<and> ep_id p = dl_endpoint_id d \<and>
      ev_tenant_id e = dl_tenant_id d \<and> ep_tenant_id p = dl_tenant_id d \<and>
      ep_consumer_id p = ev_consumer_id e \<and>
      (\<forall>c. ep_consumer_id p = Some c \<longrightarrow>
         (\<exists>r\<in>set (t_consumers db). co_id r = c \<and> co_tenant_id r = dl_tenant_id d))"
proof -
  have inv: "inv ushow db" using assms(1) by (rule reachable_inv)
  have "routed db d" using reachable_delivery_ok [OF assms] by (simp add: delivery_ok_def)
  then obtain e p where ep: "e \<in> set (t_events db)" "p \<in> set (t_endpoints db)"
    "ev_id e = dl_event_id d" "ep_id p = dl_endpoint_id d" "ev_tenant_id e = dl_tenant_id d"
    "ep_tenant_id p = dl_tenant_id d" "ep_consumer_id p = ev_consumer_id e"
    by (auto simp: routed_def)
  with inv have "in_scope db (dl_tenant_id d) (ep_consumer_id p)" by (metis inv_def)
  with ep show ?thesis unfolding in_scope_def by blast
qed

theorem scopes_never_cross_witness:
  "\<exists>d\<in>set (t_deliveries db_c). \<exists>e\<in>set (t_events db_c). ev_id e = dl_event_id d \<and> ev_tenant_id e = dl_tenant_id d"
proof -
  have d: "claim_row 10 ''worker-0'' 30 (new_delivery ushow0 5 1 3 7 ''t1'') \<in> set (t_deliveries db_c)"
    by (simp add: db_c_eq)
  show ?thesis using scopes_never_cross [OF run_abc d] d by blast
qed

text \<open>C27. In every reachable database two deliveries for the same event and endpoint are the
  same row, its idempotency key is the text of its id, it is leased exactly while it is in
  progress, a succeeded one has a recorded attempt with a 2xx status, and a dead one has a dead
  letter.\<close>

theorem delivery_rows_are_sound:
  assumes "run ushow as empty_db db" "d \<in> set (t_deliveries db)"
  shows "(\<forall>d'\<in>set (t_deliveries db). dl_event_id d' = dl_event_id d \<and> dl_endpoint_id d' = dl_endpoint_id d
        \<longrightarrow> d' = d)
    \<and> dl_idempotency_key d = ushow (dl_id d)
    \<and> (\<exists>s. dl_status d = status_as_str s)
    \<and> (dl_locked_by d \<noteq> None \<longleftrightarrow> dl_status d = ''in_progress'')
    \<and> (dl_status d = ''succeeded'' \<longrightarrow> (\<exists>a\<in>set (t_attempts db). \<exists>c. da_delivery_id a = dl_id d \<and>
         da_status_code a = Some c \<and> is_success c))
    \<and> (dl_status d = ''dead'' \<longrightarrow> (\<exists>l\<in>set (t_dead_letters db). dd_delivery_id l = dl_id d))"
proof -
  have "delivery_ok ushow db d" using assms by (rule reachable_delivery_ok)
  moreover have "distinct (map (\<lambda>d. (dl_event_id d, dl_endpoint_id d)) (t_deliveries db))"
    using reachable_inv [OF assms(1)] by (simp add: inv_def keys_ok_def)
  from distinct_keys_unique [OF this _ assms(2)]
  have "d' = d" if "d' \<in> set (t_deliveries db)" "dl_event_id d' = dl_event_id d"
    "dl_endpoint_id d' = dl_endpoint_id d" for d' using that by simp
  ultimately show ?thesis by (auto simp: delivery_ok_def lock_ok_def evidence_def)
qed

theorem delivery_rows_are_sound_witness:
  "\<exists>d\<in>set (t_deliveries db_c). dl_idempotency_key d = ushow0 (dl_id d) \<and> dl_locked_by d \<noteq> None"
proof -
  let ?d = "claim_row 10 ''worker-0'' 30 (new_delivery ushow0 5 1 3 7 ''t1'')"
  have d: "?d \<in> set (t_deliveries db_c)" by (simp add: db_c_eq)
  have "dl_status ?d = ''in_progress''" by (simp add: claim_row_def)
  then show ?thesis using delivery_rows_are_sound [OF run_abc d] d by blast
qed

section \<open>Leases exclude\<close>

lemma kept_if_not_touched: "d \<in> set rows \<Longrightarrow> \<not> P d \<Longrightarrow> d \<in> set (update_where P f rows)"
  by (force simp: set_update_where)

lemma lease_update_keeps:
  assumes "lease_update now did w' f db = (k, db')" "d \<in> set (t_deliveries db)" "dl_locked_by d = Some w"
    and "w' \<noteq> w \<or> did \<noteq> dl_id d"
  shows "d \<in> set (t_deliveries db')"
  using assms by (auto simp: lease_update_def Let_def holds_lease_def intro!: kept_if_not_touched)

definition hands_off :: "string \<Rightarrow> uuid \<Rightarrow> timestamp \<Rightarrow> act \<Rightarrow> bool" where
  "hands_off w did until a \<longleftrightarrow>
     a \<noteq> Release w did \<and> a \<noteq> Replay did \<and> (\<forall>t v. a = Claim t v \<longrightarrow> t \<le> until)"

lemma step_keeps_leased:
  assumes "db_step ushow a db db'" "hands_off w (dl_id d) until a" "d \<in> set (t_deliveries db)"
    and "dl_status d = ''in_progress''" "dl_locked_by d = Some w" "dl_locked_until d = Some until"
    and "keys_ok db"
  shows "d \<in> set (t_deliveries db')"
  using assms
proof (induction rule: db_step.induct)
  case (claim now locked worker batch lock db rows db')
  have "\<not> due now d" using claim.prems by (auto simp: hands_off_def due_def)
  moreover have "0 \<le> batch" using claim.hyps by (auto simp: claim_due_deliveries_def split: if_splits)
  ultimately show ?case
    using claim.hyps claim.prems claim_eq [of db batch now locked worker lock]
      set_claimable [of now locked batch "t_deliveries db"] by force
next
  case (replay now did db found db')
  then show ?case by (auto simp: hands_off_def reset_for_replay_def Let_def intro!: kept_if_not_touched)
next
  case (enqueue db tenant consumer now eid dids ty payload db')
  then show ?case using enqueued_result by fastforce
next
  case (accept now iid src sid ty raw db db1 eid dids payload db2 db')
  then show ?case
    using enqueued_result [OF accept.hyps(2)]
    by (auto simp: insert_inbound_event_def unique_violation_def fk_violation_def link_inbound_event_def Let_def
        split: if_splits)
next
  case (defers now did worker nxt db applied db')
  then show ?case using defer_delivery_result lease_update_keeps by (metis hands_off_def)
next
  case (dead now fresh v worker reason db db')
  then show ?case using mark_dead_on_result [OF dead.hyps(1)] lease_update_keeps [of _ "dl_id v" worker _ db]
    by (auto simp: hands_off_def)
next
  case (success fresh did n code snip t1 t2 db db1 now worker db2 upd pid db')
  then show ?case
    using record_attempt_result [OF success.hyps(1)] mark_succeeded_result [OF success.hyps(3)]
      update_circuit_result [OF success.hyps(5)] lease_update_keeps [of _ did worker _ db1]
    by (auto simp: hands_off_def)
next
  case (retry fresh did n code snip er t1 t2 db db1 now worker nxt db2 upd p policy t3 pid db')
  then show ?case
    using record_attempt_result [OF retry.hyps(1)] mark_failed_result [OF retry.hyps(2)]
      update_circuit_result [OF retry.hyps(4)] lease_update_keeps [of _ did worker _ db1]
    by (auto simp: hands_off_def)
next
  case (exhaust fresh v n code snip er t1 t2 db db1 now fresh2 worker db2 upd p policy t3 pid db')
  then show ?case
    using record_attempt_result [OF exhaust.hyps(1)] mark_dead_on_result [OF exhaust.hyps(2)]
      update_circuit_result [OF exhaust.hyps(4)] lease_update_keeps [of _ "dl_id v" worker _ db1]
    by (auto simp: hands_off_def)
qed (auto simp: try_acquire_probe_def create_endpoint_def create_consumer_def update_endpoint_def
  create_inbound_source_def insert_api_key_def unique_violation_def fk_violation_def Let_def
  split: if_splits option.splits)

text \<open>C9. Lease exclusion, over all interleavings: in a database with unique ids, once a delivery is leased to a worker, its row
  stays exactly as that worker left it, whatever everybody else commits (claims, outcome writes of
  other workers, messages, probes, administration), as long as no claim runs at a time after the
  lease ends, the worker itself does not settle it, and nobody replays this delivery: a replay does
  not look at the lease and takes the delivery away from the worker.\<close>

theorem lease_excludes_everyone_else:
  assumes "run ushow as db db'" "keys_ok db" "d \<in> set (t_deliveries db)"
    and "dl_status d = ''in_progress''" "dl_locked_by d = Some w" "dl_locked_until d = Some until"
    and "\<And>a. a \<in> set as \<Longrightarrow>
      a \<noteq> Release w (dl_id d) \<and> a \<noteq> Replay (dl_id d) \<and> (\<forall>t v. a = Claim t v \<longrightarrow> t \<le> until)"
  shows "d \<in> set (t_deliveries db')"
  using assms
proof (induction rule: run.induct)
  case (snoc as db db1 a db')
  have "d \<in> set (t_deliveries db1)" by (rule snoc.IH; (rule snoc.prems)?) (use snoc.prems in auto)
  moreover have "keys_ok db1" using snoc.hyps(1) snoc.prems(1) by (rule run_keys)
  moreover have "hands_off w (dl_id d) until a" using snoc.prems(6) [of a] by (simp add: hands_off_def)
  ultimately show ?case using step_keeps_leased [OF snoc.hyps(2)] snoc.prems(3-5) by blast
qed

text \<open>While \<open>worker-0\<close> holds the delivery of the sample run, another worker claims what is due and
  tries to put the delivery off, and an API key is added.\<close>

definition db_d :: db where
  "db_d = db_c\<lparr>t_api_keys := [\<lparr>ak_id = 9, ak_tenant_id = ''t1'', ak_key_hash = ''h'', ak_created_at = 11\<rparr>]\<rparr>"

lemma run_cd: "run ushow0 [Claim 12 ''worker-1'', Release ''worker-1'' 1, Manage] db_c db_d"
proof -
  have c: "claim_due_deliveries 12 (\<lambda>_. False) ''worker-1'' 32 30 db_c = Inr ([], db_c)"
    by (simp add: claim_due_deliveries_def claimable_def due_def claim_row_def new_delivery_def seconds_def db_c_eq
        update_where_def)
  have d: "defer_delivery 12 1 ''worker-1'' 99 db_c = Inr (False, db_c)"
    by (simp add: defer_delivery_def lease_update_def holds_lease_def claim_row_def db_c_eq update_where_def
        rows_affected_def)
  have k: "insert_api_key 11 9 ''t1'' ''h'' db_c = Inr ((), db_d)"
    by (simp add: insert_api_key_def db_d_def db_c_eq db_b_def db_a_eq empty_db_def)
  from run.snoc [OF run.snoc [OF run.snoc [OF run.nil db_step.claim [OF c]] db_step.defers [OF d]] db_step.api_key [OF k]]
  show ?thesis by simp
qed

theorem lease_excludes_everyone_else_witness:
  "claim_row 10 ''worker-0'' 30 (new_delivery ushow0 5 1 3 7 ''t1'') \<in> set (t_deliveries db_d)"
proof (rule lease_excludes_everyone_else [OF run_cd])
  show "keys_ok db_c" using run_keys [OF run_abc] by simp
qed (auto simp: db_c_eq claim_row_def seconds_def)

text \<open>The exception: a replay of a leased delivery takes the lease away.\<close>

lemma replay_ends_the_lease:
  assumes "reset_for_replay now did db = Inr (found, db')" "d \<in> set (t_deliveries db')" "dl_id d = did"
  shows "dl_status d = ''pending'' \<and> dl_locked_by d = None \<and> \<not> holds_lease t w d"
proof -
  have "t_deliveries db' = map (\<lambda>d. if dl_id d = did then replay_row now d else d) (t_deliveries db)"
    using assms(1) by (auto simp: reset_for_replay_def Let_def update_where_def)
  with assms(2) have "d \<in> (\<lambda>d. if dl_id d = did then replay_row now d else d) ` set (t_deliveries db)" by simp
  then obtain x where x: "d = (if dl_id x = did then replay_row now x else x)" by (rule imageE)
  then have "dl_id x = did" using assms(3) by (auto split: if_splits)
  with x show ?thesis by (simp add: replay_row_def holds_lease_def)
qed

section \<open>Progress\<close>

lemma becomes_due:
  assumes "run ushow as empty_db db" "d \<in> set (t_deliveries db)"
    and "dl_status d \<noteq> ''succeeded''" "dl_status d \<noteq> ''dead''"
  shows "\<exists>t. (dl_status d \<noteq> ''in_progress'' \<longrightarrow> t = dl_next_attempt_at d) \<and>
             (dl_status d = ''in_progress'' \<longrightarrow> dl_locked_until d = Some t) \<and> (\<forall>now>t. due now d)"
proof -
  have "lock_ok d" using reachable_delivery_ok [OF assms(1,2)] by (simp add: delivery_ok_def)
  then obtain s where s: "dl_status d = status_as_str s"
    and u: "dl_locked_until d \<noteq> None \<longleftrightarrow> dl_status d = ''in_progress''"
    by (auto simp: lock_ok_def)
  show ?thesis
  proof (cases s)
    case InProgress
    then have st: "dl_status d = ''in_progress''" using s by simp
    with u obtain t where t: "dl_locked_until d = Some t" by blast
    have "due now d" if "t < now" for now using that st t by (simp add: due_def)
    then show ?thesis using st t by blast
  qed (use s assms(3,4) in \<open>auto simp: due_def\<close>)
qed

text \<open>No delivery gets stuck: in every reachable database a delivery that is neither
  succeeded nor dead is due at every time after its next attempt time or, when it is in
  progress, after its lease.\<close>

theorem unfinished_becomes_due:
  assumes "run ushow as empty_db db" "d \<in> set (t_deliveries db)"
    and "dl_status d \<noteq> ''succeeded''" "dl_status d \<noteq> ''dead''"
  shows "\<exists>t. (dl_status d \<noteq> ''in_progress'' \<longrightarrow> t = dl_next_attempt_at d) \<and>
             (dl_status d = ''in_progress'' \<longrightarrow> dl_locked_until d = Some t) \<and> (\<forall>now>t. due now d)"
  using becomes_due [OF assms] .

theorem unfinished_becomes_due_witness:
  "\<exists>t. dl_locked_until (claim_row 10 ''worker-0'' 30 (new_delivery ushow0 5 1 3 7 ''t1'')) = Some t \<and>
     due (t + 1) (claim_row 10 ''worker-0'' 30 (new_delivery ushow0 5 1 3 7 ''t1''))"
proof -
  let ?d = "claim_row 10 ''worker-0'' 30 (new_delivery ushow0 5 1 3 7 ''t1'')"
  have "?d \<in> set (t_deliveries db_c)" "dl_status ?d = ''in_progress''" by (simp_all add: db_c_eq claim_row_def)
  then show ?thesis using unfinished_becomes_due [OF run_abc, of ?d] by force
qed

text \<open>Repeated polls of the queue, as the idle loop of a worker makes them.\<close>

fun polls :: "nat \<Rightarrow> timestamp \<Rightarrow> string \<Rightarrow> int \<Rightarrow> int \<Rightarrow> db \<Rightarrow> delivery list \<times> db" where
  "polls 0 now worker batch lock db = ([], db)"
| "polls (Suc n) now worker batch lock db =
     (case claim_due_deliveries now (\<lambda>_. False) worker batch lock db of
        Inl e \<Rightarrow> ([], db)
      | Inr (rows, db1) \<Rightarrow> (case polls n now worker batch lock db1 of (rest, db') \<Rightarrow> (rows @ rest, db')))"

lemma claimed_not_due: "0 \<le> lock \<Longrightarrow> \<not> due now (claim_row now worker lock d)"
  by (simp add: due_def claim_row_def seconds_def)

lemma claim_reduces_due:
  assumes "keys_ok db" "0 \<le> batch" "0 \<le> lock"
    and "claim_due_deliveries now (\<lambda>_. False) worker batch lock db = Inr (rows, db')"
  shows "rows_affected (due now) (t_deliveries db') = rows_affected (due now) (t_deliveries db) - nat batch"
    and "length rows = min (nat batch) (rows_affected (due now) (t_deliveries db))"
proof -
  let ?rows = "t_deliveries db" and ?c = "claim_row now worker lock"
  define picked where "picked = claimable now (\<lambda>_. False) batch ?rows"
  have sub: "set picked \<subseteq> {d \<in> set ?rows. due now d}"
    using set_claimable [of now "\<lambda>_. False" batch ?rows] by (simp add: picked_def)
  have len: "length picked = min (nat batch) (rows_affected (due now) ?rows)"
    by (simp add: picked_def length_claimable)
  have dist: "distinct ?rows" using assms(1) by (simp add: keys_ok_def distinct_map)
  then have "distinct picked" by (simp add: picked_def claimable_def)
  then have n: "length (filter (\<lambda>d. d \<in> set picked) ?rows) = length picked"
    using dist sub by (intro length_filter_subset) auto
  have db': "rows = map ?c (filter (\<lambda>d. d \<in> set picked) ?rows)"
    "t_deliveries db' = map (\<lambda>d. if d \<in> set picked then ?c d else d) ?rows"
    using claim_eq [OF assms(1,2), of now "\<lambda>_. False" worker lock] assms(4) by (simp_all add: picked_def)
  show "length rows = min (nat batch) (rows_affected (due now) ?rows)" using db'(1) n len by simp
  have "length (filter (due now) (map (\<lambda>d. if d \<in> set picked then ?c d else d) xs)) +
      length (filter (\<lambda>d. d \<in> set picked) xs) = length (filter (due now) xs)"
    if "set xs \<subseteq> set ?rows" for xs
    using that sub claimed_not_due [OF assms(3)] by (induction xs) auto
  from this [of ?rows] show "rows_affected (due now) (t_deliveries db') = rows_affected (due now) ?rows - nat batch"
    using db'(2) n len by (simp add: rows_affected_def)
qed

text \<open>Polling drains the queue: while nobody else interferes, \<open>n\<close> polls with a positive
  batch hand out \<open>min (n * batch)\<close> of the due deliveries, so that once \<open>n * batch\<close> reaches
  their number, every due delivery has been handed out and none is due any more.\<close>

theorem polls_drain_the_queue:
  assumes "keys_ok db" "0 < batch" "0 \<le> lock" "polls n now worker batch lock db = (rows, db')"
  shows "length rows = min (n * nat batch) (rows_affected (due now) (t_deliveries db)) \<and>
    (rows_affected (due now) (t_deliveries db) \<le> n * nat batch \<longrightarrow>
       (\<forall>d\<in>set (t_deliveries db'). \<not> due now d))"
  using assms
proof (induction n arbitrary: db rows)
  case 0
  then show ?case by auto
next
  case (Suc n)
  let ?due = "\<lambda>db. rows_affected (due now) (t_deliveries db)"
  obtain r1 db1 where c: "claim_due_deliveries now (\<lambda>_. False) worker batch lock db = Inr (r1, db1)"
    using Suc.prems(2) by (auto simp: claim_due_deliveries_def Let_def)
  obtain rest where p: "polls n now worker batch lock db1 = (rest, db')" and rows: "rows = r1 @ rest"
    using Suc.prems(4) c by (auto split: prod.splits)
  have "keys_ok db1" using c Suc.prems(1) by (rule claim_keys)
  note IH = Suc.IH [OF this Suc.prems(2,3) p]
  have d: "?due db1 = ?due db - nat batch" "length r1 = min (nat batch) (?due db)"
    using claim_reduces_due [OF Suc.prems(1) _ Suc.prems(3) c] Suc.prems(2) by auto
  have "?due db1 \<le> n * nat batch" if "?due db \<le> Suc n * nat batch" using that d(1) by simp
  moreover have "length rows = min (Suc n * nat batch) (?due db)"
    using IH rows d by (simp add: min_def) linarith
  ultimately show ?case using IH by blast
qed

theorem polls_drain_the_queue_witness:
  "length (fst (polls 1 10 ''worker-0'' 32 30 db_b)) = 1 \<and>
   filter (due 10) (t_deliveries (snd (polls 1 10 ''worker-0'' 32 30 db_b))) = []"
proof -
  have k: "keys_ok db_b" using run_keys [OF run.snoc [OF run.snoc [OF run.nil step_a] step_b]] by simp
  have n: "rows_affected (due 10) (t_deliveries db_b) = 1"
    by (simp add: rows_affected_def db_b_def due_def new_delivery_def)
  show ?thesis
    using polls_drain_the_queue [OF k, of 32 30 1 10 "''worker-0''" "fst (polls 1 10 ''worker-0'' 32 30 db_b)"
        "snd (polls 1 10 ''worker-0'' 32 30 db_b)"] n by (simp add: filter_empty_conv)
qed

section \<open>Probes\<close>

text \<open>An endpoint on probation: one worker holds the half-open slot until \<open>u\<close>.\<close>

definition on_probation :: "uuid \<Rightarrow> timestamp \<Rightarrow> db \<Rightarrow> bool" where
  "on_probation pid u db \<longleftrightarrow>
     (\<exists>p\<in>set (t_endpoints db). ep_id p = pid \<and> ep_circuit_state p = ''half_open'' \<and> ep_circuit_open_until p = Some u)"

lemma on_probation_cong: "set (t_endpoints db) \<subseteq> set (t_endpoints db') \<Longrightarrow> on_probation pid u db \<Longrightarrow> on_probation pid u db'"
  unfolding on_probation_def by blast

lemma probation_rewrite:
  assumes "t_endpoints db' = update_where P f (t_endpoints db)" "on_probation pid u db"
    and "\<And>p. p \<in> set (t_endpoints db) \<Longrightarrow> ep_id p = pid \<Longrightarrow> ep_circuit_state p = ''half_open'' \<Longrightarrow>
      ep_circuit_open_until p = Some u \<Longrightarrow> P p \<Longrightarrow>
      ep_id (f p) = pid \<and> ep_circuit_state (f p) = ''half_open'' \<and> ep_circuit_open_until (f p) = Some u"
  shows "on_probation pid u db'"
proof -
  obtain p where p: "p \<in> set (t_endpoints db)" "ep_id p = pid" "ep_circuit_state p = ''half_open''"
    "ep_circuit_open_until p = Some u" using assms(2) by (auto simp: on_probation_def)
  have "(if P p then f p else p) \<in> set (t_endpoints db')" using p(1) assms(1) by (auto simp: set_update_where)
  then show ?thesis using assms(3) [OF p] p(2-4) unfolding on_probation_def by (cases "P p") auto
qed

lemma step_keeps_probation:
  assumes "db_step ushow a db db'" "on_probation pid u db"
    and "\<And>worker did. a \<noteq> Release worker did" "\<And>t. a = Probing t pid \<Longrightarrow> t < u"
  shows "on_probation pid u db'"
  using assms
proof (induction rule: db_step.induct)
  case (probe now qid lease db won db')
  have t: "now < u" if "qid = pid" using probe.prems(3) [of now] that by simp
  show ?case
  proof (rule probation_rewrite)
    show "t_endpoints db' = update_where (\<lambda>e. ep_id e = qid \<and> probe_free now e) (half_open_row now lease) (t_endpoints db)"
      using probe.hyps by (auto simp: try_acquire_probe_def Let_def)
  qed (use probe.prems(1) t in \<open>auto simp: probe_free_def\<close>)
next
  case (update_endpoint now qid tenant url dis tys db p db')
  show ?case
  proof (rule probation_rewrite)
    show "t_endpoints db' = update_where (\<lambda>e. ep_id e = qid \<and> ep_tenant_id e = tenant) (patch_endpoint now url dis tys)
        (t_endpoints db)"
      using update_endpoint.hyps by (auto simp: update_endpoint_def Let_def)
  qed (use update_endpoint.prems(1) in \<open>auto simp: patch_endpoint_def\<close>)
next
  case (enqueue db tenant consumer now eid dids ty payload db')
  then show ?case using enqueued_result [OF enqueue.hyps(2)] by (auto intro: on_probation_cong)
next
  case (accept now iid src sid ty raw db db1 eid dids payload db2 db')
  have "t_endpoints db' = t_endpoints db"
    using enqueued_result [OF accept.hyps(2)] accept.hyps(1,3)
    by (auto simp: insert_inbound_event_def unique_violation_def fk_violation_def link_inbound_event_def Let_def
        split: if_splits)
  then show ?case using accept.prems(1) by (auto simp: on_probation_def)
next
  case (create_endpoint db tenant consumer now fresh url secret tys p db')
  then show ?case
    by (auto simp: create_endpoint_def unique_violation_def fk_violation_def Let_def on_probation_def split: if_splits)
qed (auto simp: claim_due_deliveries_def reset_for_replay_def create_consumer_def create_inbound_source_def
  insert_api_key_def unique_violation_def on_probation_def Let_def split: if_splits option.splits)

text \<open>The breaker columns of an endpoint. A settlement rewrites those of the endpoint it names and no
  others.\<close>

definition breaker_of :: "uuid \<Rightarrow> db \<Rightarrow> (string \<times> timestamp option) list" where
  "breaker_of pid db =
     map (\<lambda>e. (ep_circuit_state e, ep_circuit_open_until e)) (filter (\<lambda>e. ep_id e = pid) (t_endpoints db))"

lemma breaker_elsewhere:
  "update_circuit now q st open_until n db = Inr ((), db') \<Longrightarrow> q \<noteq> pid \<Longrightarrow> breaker_of pid db' = breaker_of pid db"
proof -
  assume u: "update_circuit now q st open_until n db = Inr ((), db')" and q: "q \<noteq> pid"
  have "map (\<lambda>e. (ep_circuit_state e, ep_circuit_open_until e))
      (filter (\<lambda>e. ep_id e = pid) (update_where (\<lambda>e. ep_id e = q) (set_circuit now st open_until n) es)) =
    map (\<lambda>e. (ep_circuit_state e, ep_circuit_open_until e)) (filter (\<lambda>e. ep_id e = pid) es)" for es
    using q by (induction es) (auto simp: update_where_def set_circuit_def)
  then show ?thesis using u by (auto simp: update_circuit_def breaker_of_def)
qed

lemma on_probation_breaker: "on_probation pid u db \<longleftrightarrow> (''half_open'', Some u) \<in> set (breaker_of pid db)"
  by (force simp: on_probation_def breaker_of_def image_iff)

text \<open>Runs in which no settlement rewrites the breaker of the endpoint \<open>pid\<close> and the probe statements
  for it run before the time \<open>u\<close>.\<close>

inductive probation_run :: "(uuid \<Rightarrow> string) \<Rightarrow> uuid \<Rightarrow> timestamp \<Rightarrow> act list \<Rightarrow> db \<Rightarrow> db \<Rightarrow> bool" for ushow pid u where
  nil: "probation_run ushow pid u [] db db"
| snoc: "probation_run ushow pid u as db db1 \<Longrightarrow> db_step ushow a db1 db' \<Longrightarrow>
    (\<And>worker did. a = Release worker did \<Longrightarrow> breaker_of pid db' = breaker_of pid db1) \<Longrightarrow>
    (\<And>t. a = Probing t pid \<Longrightarrow> t < u) \<Longrightarrow> probation_run ushow pid u (as @ [a]) db db'"

lemma probation_run_run: "probation_run ushow pid u as db db' \<Longrightarrow> run ushow as db db'"
  by (induction rule: probation_run.induct) (blast intro: run.intros)+

lemma probation_run_keeps:
  "probation_run ushow pid u as db db' \<Longrightarrow> on_probation pid u db \<Longrightarrow> on_probation pid u db'"
proof (induction rule: probation_run.induct)
  case (snoc as db db1 a db')
  then have prob: "on_probation pid u db1" by blast
  show ?case
  proof (cases "\<exists>worker did. a = Release worker did")
    case True
    then show ?thesis using snoc.hyps(3) prob by (auto simp: on_probation_breaker)
  next
    case False
    then show ?thesis using step_keeps_probation [OF snoc.hyps(2) prob] snoc.hyps(4) by blast
  qed
qed

text \<open>C36. One probe at a time: in a database with unique ids, once a worker has acquired the half-open slot of an endpoint, every
  other attempt to acquire it before the probe lease ends is refused and changes nothing, whatever
  the system commits in between (deliveries of other endpoints are settled, deliveries are claimed
  and put off, messages come in, the endpoint is edited), as long as no outcome of a delivery
  rewrites the breaker of this endpoint and no probe statement for it runs at a time after the
  probe lease.\<close>

theorem one_probe_at_a_time:
  assumes "try_acquire_probe now pid lease db = Inr (True, db1)" "keys_ok db"
    and "probation_run ushow pid (now + seconds lease) as db1 db2" "t < now + seconds lease"
  shows "try_acquire_probe t pid lease' db2 = Inr (False, db2)"
proof -
  have "rows_affected (\<lambda>e. ep_id e = pid \<and> probe_free now e) (t_endpoints db) > 0"
    using assms(1) by (simp add: try_acquire_probe_def Let_def)
  then obtain p where p: "p \<in> set (t_endpoints db)" "ep_id p = pid" "probe_free now p"
    by (auto simp: rows_affected_pos)
  then have "half_open_row now lease p \<in> set (t_endpoints db1)"
    using assms(1) by (force simp: try_acquire_probe_def Let_def set_update_where)
  then have "on_probation pid (now + seconds lease) db1"
    using p(2) unfolding on_probation_def by (intro bexI [of _ "half_open_row now lease p"]) (simp_all add: half_open_row_def)
  with assms(3) have prob: "on_probation pid (now + seconds lease) db2" by (rule probation_run_keeps)
  have "keys_ok db2" using assms(1-3) try_acquire_probe_keys run_keys probation_run_run by blast
  then have dist: "distinct (map ep_id (t_endpoints db2))" by (simp add: keys_ok_def)
  have none: "\<not> (ep_id e = pid \<and> probe_free t e)" if "e \<in> set (t_endpoints db2)" for e
    using prob distinct_keys_unique [OF dist that] assms(4) by (auto simp: on_probation_def probe_free_def)
  then have "rows_affected (\<lambda>e. ep_id e = pid \<and> probe_free t e) (t_endpoints db2) = 0" by simp
  with none show ?thesis by (simp add: try_acquire_probe_def Let_def update_where_id del: rows_affected_0)
qed

text \<open>An open breaker: one worker takes the probe, the holder of the sample delivery is refused and puts
  the delivery off, and then a third try is refused as well.\<close>

definition db_open :: db where
  "db_open = db_c\<lparr>t_endpoints := [set_circuit 0 ''open'' (Some 5) 5 sample_endpoint]\<rparr>"

definition db_probe :: db where
  "db_probe = db_open\<lparr>t_endpoints := [half_open_row 11 30 (set_circuit 0 ''open'' (Some 5) 5 sample_endpoint)]\<rparr>"

definition db_deferred :: db where
  "db_deferred = db_probe\<lparr>t_deliveries := update_where (\<lambda>d. dl_id d = 1) (deferred_row 13 99) (t_deliveries db_probe)\<rparr>"

theorem one_probe_at_a_time_witness:
  "try_acquire_probe 14 7 30 db_deferred = Inr (False, db_deferred) \<and>
   map dl_status (t_deliveries db_deferred) = [''failed'']"
proof
  have won: "try_acquire_probe 11 7 30 db_open = Inr (True, db_probe)"
    by (simp add: try_acquire_probe_def db_open_def db_probe_def rows_affected_def probe_free_def sample_endpoint_def
        set_circuit_def update_where_def Let_def)
  have keys: "keys_ok db_open" by (simp add: keys_ok_def db_open_def db_c_eq db_b_def db_a_eq empty_db_def)
  have no: "try_acquire_probe 12 7 30 db_probe = Inr (False, db_probe)"
    by (simp add: try_acquire_probe_def db_open_def db_probe_def rows_affected_def probe_free_def half_open_row_def
        set_circuit_def update_where_def seconds_def Let_def)
  have off: "defer_delivery 13 1 ''worker-0'' 99 db_probe = Inr (True, db_deferred)"
    by (simp add: defer_delivery_def lease_update_def holds_lease_def claim_row_def new_delivery_def seconds_def db_c_eq
        db_open_def db_probe_def db_deferred_def update_where_def rows_affected_def Let_def)
  have same: "breaker_of 7 db_deferred = breaker_of 7 db_probe" by (simp add: breaker_of_def db_deferred_def)
  have "probation_run ushow0 7 (11 + seconds 30) ([] @ [Probing 12 7]) db_probe db_probe"
    by (rule probation_run.snoc [OF probation_run.nil db_step.probe [OF no]]) (simp_all add: seconds_def)
  then have "probation_run ushow0 7 (11 + seconds 30) (([] @ [Probing 12 7]) @ [Release ''worker-0'' 1]) db_probe db_deferred"
    by (rule probation_run.snoc [OF _ db_step.defers [OF off]]) (simp_all add: same)
  from one_probe_at_a_time [OF won keys this] show "try_acquire_probe 14 7 30 db_deferred = Inr (False, db_deferred)"
    by (simp add: seconds_def)
  show "map dl_status (t_deliveries db_deferred) = [''failed'']"
    by (simp add: db_deferred_def db_probe_def db_open_def db_c_eq update_where_def deferred_row_def claim_row_def
        new_delivery_def)
qed

end
