(* ===== verification/Outbox.thy ===== *)
theory Outbox
  imports Effects Queue
begin

text \<open>
  \<open>crates/dropless-core/src/outbox.rs\<close>: \<open>enqueue_message\<close>, the event and one delivery per
  subscribed active endpoint of the publishing scope in one transaction. The lemmas: an error
  anywhere leaves the database as it was unless only the acknowledgement of the commit was
  lost, and a success means that everything is stored.
\<close>

record enqueued_result =
  en_event_id :: uuid
  en_delivery_ids :: "uuid list"

text \<open>The loop over the subscribed endpoints; it is the same code in \<open>inbox.rs\<close>.\<close>

fun deliver_each :: "(uuid \<Rightarrow> string) \<Rightarrow> uuid \<Rightarrow> string \<Rightarrow> endpoint list \<Rightarrow> uuid list io" where
  "deliver_each ushow event_id tenant_id [] = ok []"
| "deliver_each ushow event_id tenant_id (endpoint # rest) =
     now_v7 (\<lambda>delivery_id.
       await (tsql (\<lambda>a now. insert_delivery ushow now delivery_id event_id (ep_id endpoint) tenant_id)) (\<lambda>_.
       await (deliver_each ushow event_id tenant_id rest) (\<lambda>delivery_ids.
       ok (delivery_id # delivery_ids))))"

definition enqueue_message ::
  "(uuid \<Rightarrow> string) \<Rightarrow> string \<Rightarrow> uuid option \<Rightarrow> string \<Rightarrow> json \<Rightarrow> enqueued_result io" where
  "enqueue_message ushow tenant_id consumer_id event_type payload =
     now_v7 (\<lambda>event_id.
       with_tx (
         await (tsql (\<lambda>a now. insert_event now event_id tenant_id consumer_id event_type payload)) (\<lambda>_.
         await (tsql (\<lambda>a now. active_endpoints_for_scope tenant_id consumer_id)) (\<lambda>endpoints.
         await (deliver_each ushow event_id tenant_id (filter (\<lambda>e. subscribes_to e event_type) endpoints))
           (\<lambda>delivery_ids.
         await commit (\<lambda>_.
         ok \<lparr>en_event_id = event_id, en_delivery_ids = delivery_ids\<rparr>))))))"

lemma wp_deliver_each:
  assumes "w_tx w = Some (t, view)" "\<And>e w'. outside_same w w' \<Longrightarrow> Q (Inl e) w'"
    and "\<And>ids view' w'. outside_same w w' \<Longrightarrow> w_tx w' = Some (t, view') \<Longrightarrow> length ids = length es \<Longrightarrow>
      fan_out ushow t eid tenant (zip ids es) view = Inr ((), view') \<Longrightarrow> Q (Inr ids) w'"
  shows "wp (deliver_each ushow eid tenant es) Q w"
  using assms
proof (induction es arbitrary: w view Q)
  case Nil
  then show ?case by (simp add: wp_rules)
next
  case (Cons e es)
  show ?case
    unfolding deliver_each.simps wp_rules
  proof (rule wp_tsql [of _ t view])
    fix x view1
    let ?did = "an_uuid (answer_now w)" and ?w1 = "(tick (tick w))\<lparr>w_tx := Some (t, view1)\<rparr>"
    assume ins: "insert_delivery ushow t ?did eid (ep_id e) tenant view = Inr (x, view1)"
    show "case Inr x of Inl er \<Rightarrow> Q (Inl er) ?w1
       | Inr x \<Rightarrow> wp (deliver_each ushow eid tenant es)
           (\<lambda>r w'. case r of Inl er \<Rightarrow> Q (Inl er) w' | Inr x \<Rightarrow> Q (Inr (?did # x)) w') ?w1"
      using Cons.prems(2,3) ins
      by (simp, intro Cons.IH) (auto simp: Cons.prems(1) intro!: Cons.prems(3))
  qed (use Cons.prems in auto)
qed

text \<open>The part from the event row to the end of the loop, shared with \<open>inbox.rs\<close>.\<close>

lemma wp_bridge:
  assumes "w_tx w = Some (t, view)" "\<And>e w'. outside_same w w' \<Longrightarrow> Q (Inl e) w'"
    and "\<And>ids view' w'. outside_same w w' \<Longrightarrow> w_tx w' = Some (t, view') \<Longrightarrow>
      enqueued ushow t eid ids tenant consumer ty payload view view' \<Longrightarrow> wp (k ids) Q w'"
  shows "wp (await (tsql (\<lambda>a now. insert_event now eid tenant consumer ty payload)) (\<lambda>_.
         await (tsql (\<lambda>a now. active_endpoints_for_scope tenant consumer)) (\<lambda>endpoints.
         await (deliver_each ushow eid tenant (filter (\<lambda>e. subscribes_to e ty) endpoints)) k))) Q w"
  unfolding wp_rules
proof (rule wp_tsql [OF assms(1)])
  fix x view1
  assume ev: "insert_event t eid tenant consumer ty payload view = Inr (x, view1)"
  let ?w1 = "(tick w)\<lparr>w_tx := Some (t, view1)\<rparr>"
  have "wp (tsql (\<lambda>a now. active_endpoints_for_scope tenant consumer))
      (\<lambda>r w'. case r of Inl e \<Rightarrow> Q (Inl e) w'
       | Inr endpoints \<Rightarrow> wp (deliver_each ushow eid tenant (filter (\<lambda>e. subscribes_to e ty) endpoints))
           (\<lambda>r w'. case r of Inl e \<Rightarrow> Q (Inl e) w' | Inr ids \<Rightarrow> wp (k ids) Q w') w') ?w1"
  proof (rule wp_tsql [of _ t view1])
    fix eps view2
    assume "active_endpoints_for_scope tenant consumer view1 = Inr (eps, view2)"
    then have eps: "filter (\<lambda>e. subscribes_to e ty) eps = recipients tenant consumer ty view1" "view2 = view1"
      by (auto simp: active_endpoints_for_scope_def recipients_def)
    show "case Inr eps of Inl e \<Rightarrow> Q (Inl e) ((tick ?w1)\<lparr>w_tx := Some (t, view2)\<rparr>)
       | Inr endpoints \<Rightarrow> wp (deliver_each ushow eid tenant (filter (\<lambda>e. subscribes_to e ty) endpoints))
           (\<lambda>r w'. case r of Inl e \<Rightarrow> Q (Inl e) w' | Inr ids \<Rightarrow> wp (k ids) Q w') ((tick ?w1)\<lparr>w_tx := Some (t, view2)\<rparr>)"
      unfolding eps sum.case
      by (rule wp_deliver_each [of _ t view1])
        (use assms(2,3) ev in \<open>auto simp: enqueued_def\<close>)
  qed (use assms in auto)
  then show "case Inr x of Inl e \<Rightarrow> Q (Inl e) ?w1
     | Inr x \<Rightarrow> wp (tsql (\<lambda>a now. active_endpoints_for_scope tenant consumer))
      (\<lambda>r w'. case r of Inl e \<Rightarrow> Q (Inl e) w'
       | Inr endpoints \<Rightarrow> wp (deliver_each ushow eid tenant (filter (\<lambda>e. subscribes_to e ty) endpoints))
           (\<lambda>r w'. case r of Inl e \<Rightarrow> Q (Inl e) w' | Inr ids \<Rightarrow> wp (k ids) Q w') w') ?w1" by simp
qed (use assms in auto)

text \<open>Everything an enqueue may leave behind, and when it reports success.\<close>

lemma enqueue_message_post:
  assumes "enqueue_message ushow tenant consumer ty payload w = (r, w')"
  defines "eid \<equiv> an_uuid (answer_now w)"
  shows "w_env w' = w_env w \<and> w_sent w' = w_sent w \<and>
    (w_db w' = seen (tick w) \<and> isl r \<or>
     (\<exists>now ids. enqueued ushow now eid ids tenant consumer ty payload (seen (tick w)) (w_db w') \<and>
        (isl r \<or> r = Inr \<lparr>en_event_id = eid, en_delivery_ids = ids\<rparr>)))"
    (is "?post r w'")
proof -
  have "wp (enqueue_message ushow tenant consumer ty payload) ?post w"
    unfolding enqueue_message_def wp_rules(3-9) eid_def [symmetric]
    by (rule wp_with_tx; (rule wp_bridge)?; (unfold wp_rules, rule wp_commit)?)
      (auto simp: outside_same_def wp_rules split: sum.splits)
  then show ?thesis using assms(1) by (rule wpD)
qed

text \<open>C6. Enqueueing is all or nothing, whatever fails and whoever else is active: it either
  reports an error and leaves the database as it found it, or it has stored the event with
  exactly one delivery per subscribed active endpoint of the scope. In the second case it
  returns their ids, or reports an error when only the reply to the commit got lost.\<close>

theorem enqueue_all_or_nothing:
  assumes "enqueue_message ushow tenant consumer ty payload w = (r, w')"
  shows "isl r \<and> w_db w' = seen (tick w) \<or>
    (\<exists>now q. enqueued ushow now (en_event_id q) (en_delivery_ids q) tenant consumer ty payload
         (seen (tick w)) (w_db w') \<and> (isl r \<or> r = Inr q))"
proof -
  let ?q = "\<lambda>ids. \<lparr>en_event_id = an_uuid (answer_now w), en_delivery_ids = ids\<rparr>"
  from enqueue_message_post [OF assms] consider "isl r" "w_db w' = seen (tick w)"
    | now ids where "enqueued ushow now (en_event_id (?q ids)) (en_delivery_ids (?q ids)) tenant consumer ty
        payload (seen (tick w)) (w_db w')" "isl r \<or> r = Inr (?q ids)"
    by (auto simp del: enqueued_result.select_convs simp: enqueued_result.select_convs)
  then show ?thesis by cases blast+
qed

text \<open>C5. An acknowledged message is durable and fully fanned out: when \<open>enqueue_message\<close>
  returns \<open>Ok\<close>, the committed database is the one its transaction began on with the event
  appended to the event table and, in order, one pending, unlocked, immediately due delivery for
  every enabled endpoint of the same tenant and consumer scope that subscribes to the event
  type appended to the deliveries; every other row of every table is unchanged.\<close>

theorem acknowledged_message_is_stored:
  assumes "enqueue_message ushow tenant consumer ty payload w = (Inr q, w')"
  shows "\<exists>now. let db = seen (tick w); eps = recipients tenant consumer ty db in
    w_db w' = db\<lparr>
      t_events := t_events db @ [\<lparr>ev_id = en_event_id q, ev_tenant_id = tenant, ev_consumer_id = consumer,
        ev_event_type = ty, ev_payload = payload, ev_created_at = now\<rparr>],
      t_deliveries := t_deliveries db @
        map (\<lambda>(did, ep). new_delivery ushow now did (en_event_id q) (ep_id ep) tenant) (zip (en_delivery_ids q) eps)\<rparr> \<and>
    length (en_delivery_ids q) = length eps \<and>
    (\<forall>ep. ep \<in> set eps \<longleftrightarrow> ep \<in> set (t_endpoints db) \<and> ep_tenant_id ep = tenant \<and> \<not> ep_disabled ep \<and>
        ep_consumer_id ep = consumer \<and> subscribes_to ep ty)"
proof -
  obtain now where "enqueued ushow now (en_event_id q) (en_delivery_ids q) tenant consumer ty payload
      (seen (tick w)) (w_db w')"
    using enqueue_message_post [OF assms] by auto
  from enqueued_result [OF this] show ?thesis
    by (intro exI [of _ now]) (simp add: Let_def recipients_iff)
qed

definition world_a :: world where
  "world_a = quiet_world 5 (Response 200 None) db_a"

lemma enqueue_world_a:
  "enqueue_message ushow0 ''t1'' None ''pay.ok'' JNull world_a =
     (Inr \<lparr>en_event_id = 1, en_delivery_ids = [5]\<rparr>, snd (enqueue_message ushow0 ''t1'' None ''pay.ok'' JNull world_a))"
  by (simp add: enqueue_message_def world_a_def run_defs insert_event_def has_key_opt_def db_a_eq empty_db_def
      active_endpoints_for_scope_def subscribes_to_def sample_endpoint_def insert_delivery_def)

theorem acknowledged_message_is_stored_witness:
  "\<exists>now. length (t_deliveries (w_db (snd (enqueue_message ushow0 ''t1'' None ''pay.ok'' JNull world_a)))) = 1 \<and>
     \<lparr>ev_id = 1, ev_tenant_id = ''t1'', ev_consumer_id = None, ev_event_type = ''pay.ok'', ev_payload = JNull,
       ev_created_at = now\<rparr> \<in> set (t_events (w_db (snd (enqueue_message ushow0 ''t1'' None ''pay.ok'' JNull world_a))))"
proof -
  have "t_deliveries (seen (tick world_a)) = []"
    by (simp add: world_a_def run_defs db_a_eq empty_db_def)
  then show ?thesis
    using acknowledged_message_is_stored [OF enqueue_world_a] by (auto simp: Let_def)
qed

theorem enqueue_all_or_nothing_witness:
  "\<exists>now (q :: enqueued_result). enqueued ushow0 now (en_event_id q) (en_delivery_ids q) ''t1'' None ''pay.ok'' JNull
     (seen (tick world_a)) (w_db (snd (enqueue_message ushow0 ''t1'' None ''pay.ok'' JNull world_a)))"
  using enqueue_all_or_nothing [OF enqueue_world_a] by (simp only: sum.disc simp_thms) blast

section \<open>Only permitted steps\<close>

definition any_step :: "(uuid \<Rightarrow> string) \<Rightarrow> db \<Rightarrow> db \<Rightarrow> bool" where
  "any_step ushow db db' \<longleftrightarrow> (\<exists>a. db_step ushow a db db')"

lemma any_steps_run: "rtranclp (any_step ushow) db db' \<Longrightarrow> \<exists>as. run ushow as db db'"
proof (induction rule: rtranclp_induct)
  case base
  show ?case by (blast intro: run.nil)
next
  case (step y z)
  then show ?case by (auto simp: any_step_def intro: run.snoc)
qed

lemma any_steps_extends: "rtranclp (any_step ushow) db db' \<Longrightarrow> extends db db'"
  using any_steps_run run_extends by blast

lemma enqueue_message_steps:
  assumes "enqueue_message ushow tenant consumer ty payload w = (r, w')"
    and "env_ok (any_step ushow) w" "in_scope (w_db w) tenant consumer"
  shows "rtranclp (any_step ushow) (w_db w) (w_db w') \<and> w_env w' = w_env w"
proof -
  let ?R = "rtranclp (any_step ushow)"
  have s: "?R (w_db w) (seen (tick w))" using assms(2) seen_steps [of "any_step ushow" "tick w"] by simp
  then have "in_scope (seen (tick w)) tenant consumer" using assms(3) any_steps_extends in_scope_extends by blast
  then have "any_step ushow (seen (tick w)) db'"
    if "enqueued ushow now eid ids tenant consumer ty payload (seen (tick w)) db'" for now eid ids db'
    using that unfolding any_step_def by (blast intro: db_step.enqueue)
  then show ?thesis using enqueue_message_post [OF assms(1)] s by (metis rtranclp.rtrancl_into_rtrancl)
qed

end
