(* ===== verification/Inbox.thy ===== *)
theory Inbox
  imports Outbox
begin

text \<open>
  \<open>crates/dropless-core/src/inbox.rs\<close>: \<open>accept\<close> stores a verified inbound webhook, bridges
  it into an event with its deliveries and links the two, in one transaction. The lemmas: it is
  all or nothing, and a provider's event id is bridged at most once per source.
\<close>

datatype accepted = Duplicate | Bridged uuid uuid "uuid list"

definition accept ::
  "(uuid \<Rightarrow> string) \<Rightarrow> inbound_source \<Rightarrow> string option \<Rightarrow> string \<Rightarrow> bytes \<Rightarrow> json \<Rightarrow> accepted io" where
  "accept ushow source source_event_id event_type raw_body payload =
     with_tx (
       now_v7 (\<lambda>inbound_id.
       await (tsql (\<lambda>a now. insert_inbound_event now inbound_id (is_id source) (is_tenant_id source)
                source_event_id event_type raw_body)) (\<lambda>inserted.
       case inserted of
         None \<Rightarrow> await rollback (\<lambda>_. ok Duplicate)
       | Some inbound_id \<Rightarrow>
           now_v7 (\<lambda>event_id.
           await (tsql (\<lambda>a now. insert_event now event_id (is_tenant_id source) None event_type payload)) (\<lambda>_.
           await (tsql (\<lambda>a now. active_endpoints_for_scope (is_tenant_id source) None)) (\<lambda>endpoints.
           await (deliver_each ushow event_id (is_tenant_id source)
                    (filter (\<lambda>e. subscribes_to e event_type) endpoints)) (\<lambda>delivery_ids.
           await (tsql (\<lambda>a now. link_inbound_event inbound_id event_id)) (\<lambda>_.
           await commit (\<lambda>_.
           ok (Bridged inbound_id event_id delivery_ids)))))))))) "

text \<open>What a committed acceptance did.\<close>

definition accepted_tx ::
  "(uuid \<Rightarrow> string) \<Rightarrow> inbound_source \<Rightarrow> string option \<Rightarrow> string \<Rightarrow> bytes \<Rightarrow> json \<Rightarrow>
   uuid \<Rightarrow> uuid \<Rightarrow> uuid list \<Rightarrow> db \<Rightarrow> db \<Rightarrow> bool" where
  "accepted_tx ushow src sid ty raw payload iid eid ids db db' \<longleftrightarrow>
     (\<exists>now db1 db2. insert_inbound_event now iid (is_id src) (is_tenant_id src) sid ty raw db = Inr (Some iid, db1) \<and>
        enqueued ushow now eid ids (is_tenant_id src) None ty payload db1 db2 \<and>
        link_inbound_event iid eid db2 = Inr ((), db'))"

definition already_received :: "inbound_source \<Rightarrow> string option \<Rightarrow> db \<Rightarrow> bool" where
  "already_received src sid db \<longleftrightarrow> list_ex (dedup_clash (is_id src) sid) (t_inbound db)"

lemma insert_inbound_cases:
  "insert_inbound_event now iid s t sid ty raw db = Inr (x, db') \<Longrightarrow>
   x = None \<and> db' = db \<and> list_ex (dedup_clash s sid) (t_inbound db) \<or>
   x = Some iid \<and> \<not> list_ex (dedup_clash s sid) (t_inbound db)"
  by (auto simp: insert_inbound_event_def unique_violation_def fk_violation_def Let_def split: if_splits)

lemma wp_link_commit:
  assumes "w_tx w = Some (t, view)" "\<And>e w'. outside_same w w' \<Longrightarrow> Q (Inl e) w'"
    and "\<And>view' r w'. link_inbound_event iid eid view = Inr ((), view') \<Longrightarrow> isl r \<or> r = Inr v \<Longrightarrow>
      w_db w' = view' \<Longrightarrow> w_env w' = w_env w \<Longrightarrow> w_sent w' = w_sent w \<Longrightarrow> Q r w'"
  shows "wp (await (tsql (\<lambda>a now. link_inbound_event iid eid)) (\<lambda>_. await commit (\<lambda>_. ok v))) Q w"
  unfolding wp_rules
  by (rule wp_tsql [OF assms(1)])
    (use assms(2,3) in \<open>auto intro!: wp_commit split: sum.splits simp: wp_rules\<close>)

definition accept_outcome ::
  "(uuid \<Rightarrow> string) \<Rightarrow> inbound_source \<Rightarrow> string option \<Rightarrow> string \<Rightarrow> bytes \<Rightarrow> json \<Rightarrow> db \<Rightarrow>
   accepted core_result \<Rightarrow> db \<Rightarrow> bool" where
  "accept_outcome ushow src sid ty raw payload db r db' \<longleftrightarrow>
     db' = db \<and> (isl r \<or> r = Inr Duplicate \<and> already_received src sid db) \<or>
     (\<exists>iid eid ids. accepted_tx ushow src sid ty raw payload iid eid ids db db' \<and>
        \<not> already_received src sid db \<and> (isl r \<or> r = Inr (Bridged iid eid ids)))"

lemma accept_post:
  assumes "accept ushow src sid ty raw payload w = (r, w')"
  shows "w_env w' = w_env w \<and> w_sent w' = w_sent w \<and>
    accept_outcome ushow src sid ty raw payload (seen w) r (w_db w')" (is "?post r w'")
proof -
  have "wp (accept ushow src sid ty raw payload) ?post w"
    unfolding accept_def
  proof (rule wp_with_tx, goal_cases)
    case (1 e)
    then show ?case by (simp add: accept_outcome_def)
  next
    case 2
    let ?t = "an_now (answer_now w)"
    let ?w0 = "(tick w)\<lparr>w_db := seen w, w_tx := Some (?t, seen w)\<rparr>"
    define iid where "iid = an_uuid (answer_now ?w0)"
    show ?case
      unfolding wp_rules(1,3-9) iid_def [symmetric]
    proof (rule wp_tsql [of _ ?t "seen w"], goal_cases)
      case (3 x view1)
      note ins = 3 and c = insert_inbound_cases [OF 3]
      show ?case
      proof (cases x)
        case None
        with c show ?thesis
          by (simp add: wp_rules)
            (rule wp_rollback, auto simp: already_received_def accept_outcome_def wp_rules split: sum.splits)
      next
        case (Some i)
        with c have new: "\<not> already_received src sid (seen w)" and i: "i = iid"
          by (auto simp: already_received_def)
        show ?thesis
          unfolding Some sum.case option.case wp_rules(3-9) i
        proof (rule wp_bridge [of _ ?t view1], goal_cases)
          case (3 ids view2 w2)
          show ?case
          proof (rule wp_link_commit [OF 3(2)], goal_cases)
            case (2 view3 r w3)
            have "\<exists>eid. accepted_tx ushow src sid ty raw payload iid eid ids (seen w) view3 \<and>
                (isl r \<or> r = Inr (Bridged iid eid ids))"
              using ins Some i 3(3) 2(1,2) unfolding accepted_tx_def by blast
            with new 2(3-) 3(1) show ?case by (auto simp: accept_outcome_def outside_same_def)
          qed (use 3(1) in \<open>simp add: accept_outcome_def outside_same_def\<close>)
        qed (simp_all add: accept_outcome_def outside_same_def)
      qed
    qed (simp_all add: accept_outcome_def)
  qed
  then show ?thesis using assms(1) by (rule wpD)
qed

lemma accepted_stores:
  assumes "accepted_tx ushow src sid ty raw payload iid eid ids db db'"
  shows "\<exists>now. t_inbound db' = t_inbound db @ [\<lparr>ie_id = iid, ie_source_id = is_id src,
      ie_tenant_id = is_tenant_id src, ie_source_event_id = sid, ie_event_type = ty, ie_raw_body = raw,
      ie_event_id = Some eid, ie_received_at = now\<rparr>]
    \<and> t_events db' = t_events db @ [\<lparr>ev_id = eid, ev_tenant_id = is_tenant_id src, ev_consumer_id = None,
        ev_event_type = ty, ev_payload = payload, ev_created_at = now\<rparr>]
    \<and> length ids = length (recipients (is_tenant_id src) None ty db)
    \<and> t_deliveries db' = t_deliveries db @ map (\<lambda>(did, ep). new_delivery ushow now did eid (ep_id ep) (is_tenant_id src))
        (zip ids (recipients (is_tenant_id src) None ty db))"
proof -
  obtain now db1 db2 where
    1: "insert_inbound_event now iid (is_id src) (is_tenant_id src) sid ty raw db = Inr (Some iid, db1)" and
    2: "enqueued ushow now eid ids (is_tenant_id src) None ty payload db1 db2" and
    3: "link_inbound_event iid eid db2 = Inr ((), db')"
    using assms by (auto simp: accepted_tx_def)
  let ?row = "\<lparr>ie_id = iid, ie_source_id = is_id src, ie_tenant_id = is_tenant_id src, ie_source_event_id = sid,
    ie_event_type = ty, ie_raw_body = raw, ie_event_id = None, ie_received_at = now\<rparr>"
  have fresh: "iid \<notin> ie_id ` set (t_inbound db)" and db1: "db1 = db\<lparr>t_inbound := t_inbound db @ [?row]\<rparr>"
    using 1 by (auto simp: insert_inbound_event_def unique_violation_def fk_violation_def Let_def split: if_splits)
  have r: "recipients (is_tenant_id src) None ty db1 = recipients (is_tenant_id src) None ty db"
    by (simp add: db1 recipients_def)
  have "update_where (\<lambda>i. ie_id i = iid) (\<lambda>i. i\<lparr>ie_event_id := Some eid\<rparr>) (t_inbound db @ [?row]) =
      t_inbound db @ [?row\<lparr>ie_event_id := Some eid\<rparr>]"
    using fresh update_where_id [of "t_inbound db" "\<lambda>i. ie_id i = iid"] by (auto simp: update_where_def)
  then show ?thesis
    using enqueued_result [OF 2] 3 r
    by (intro exI [of _ now]) (auto simp: db1 link_inbound_event_def fk_violation_def split: if_splits)
qed

text \<open>C29. Accepting an inbound webhook is all or nothing: either the database is as it was
  found, and the result is an error or, exactly when this source's event id is already
  stored, \<open>Duplicate\<close>; or the raw body, the bridged tenant-level event, one delivery per
  subscribed active endpoint and the link between them are all stored, and the result carries
  their ids (or an error when only the reply to the commit got lost).\<close>

theorem accept_all_or_nothing:
  assumes "accept ushow src sid ty raw payload w = (r, w')"
  defines "db \<equiv> seen w" and "db' \<equiv> w_db w'"
  shows "db' = db \<and> (isl r \<or> r = Inr Duplicate \<and> already_received src sid db) \<or>
    \<not> already_received src sid db \<and>
    (\<exists>iid eid ids now. (isl r \<or> r = Inr (Bridged iid eid ids))
      \<and> t_inbound db' = t_inbound db @ [\<lparr>ie_id = iid, ie_source_id = is_id src, ie_tenant_id = is_tenant_id src,
          ie_source_event_id = sid, ie_event_type = ty, ie_raw_body = raw, ie_event_id = Some eid,
          ie_received_at = now\<rparr>]
      \<and> t_events db' = t_events db @ [\<lparr>ev_id = eid, ev_tenant_id = is_tenant_id src, ev_consumer_id = None,
          ev_event_type = ty, ev_payload = payload, ev_created_at = now\<rparr>]
      \<and> length ids = length (recipients (is_tenant_id src) None ty db)
      \<and> t_deliveries db' = t_deliveries db @ map (\<lambda>(did, ep). new_delivery ushow now did eid (ep_id ep)
          (is_tenant_id src)) (zip ids (recipients (is_tenant_id src) None ty db)))"
proof -
  have "accept_outcome ushow src sid ty raw payload db r db'"
    using accept_post [OF assms(1)] by (simp add: db_def db'_def)
  then consider "db' = db" "isl r \<or> r = Inr Duplicate \<and> already_received src sid db"
    | iid eid ids where "accepted_tx ushow src sid ty raw payload iid eid ids db db'"
        "\<not> already_received src sid db" "isl r \<or> r = Inr (Bridged iid eid ids)"
    unfolding accept_outcome_def by blast
  then show ?thesis
  proof cases
    case 2
    then show ?thesis using accepted_stores [OF 2(1)] by blast
  qed blast
qed

definition source0 :: inbound_source where
  "source0 = \<lparr>is_id = 20, is_tenant_id = ''t1'', is_slug = ''st'', is_provider = ''stripe'', is_secret = ''whsec_x'',
     is_disabled = False, is_created_at = 0, is_updated_at = 0\<rparr>"

definition world_in :: world where
  "world_in = quiet_world 5 (Response 200 None) (db_a\<lparr>t_sources := [source0]\<rparr>)"

lemma accept_world_in:
  "accept ushow0 source0 (Some ''evt_1'') ''pay.ok'' [] JNull world_in =
     (Inr (Bridged 2 4 [7]), snd (accept ushow0 source0 (Some ''evt_1'') ''pay.ok'' [] JNull world_in))"
  by (simp add: accept_def world_in_def run_defs insert_inbound_event_def source0_def insert_event_def
      has_key_opt_def db_a_eq empty_db_def active_endpoints_for_scope_def subscribes_to_def sample_endpoint_def
      insert_delivery_def link_inbound_event_def)

theorem accept_all_or_nothing_witness:
  "\<not> already_received source0 (Some ''evt_1'') (seen world_in) \<and>
   length (t_inbound (w_db (snd (accept ushow0 source0 (Some ''evt_1'') ''pay.ok'' [] JNull world_in)))) = 1"
proof -
  have "t_inbound (seen world_in) = []" by (simp add: world_in_def run_defs db_a_eq empty_db_def)
  then show ?thesis using accept_all_or_nothing [OF accept_world_in] by auto
qed

section \<open>Exactly once\<close>

lemma already_received_extends:
  assumes "already_received src sid db" "extends db db'"
  shows "already_received src sid db'"
proof -
  obtain i where i: "i \<in> set (t_inbound db)" "dedup_clash (is_id src) sid i"
    using assms(1) by (auto simp: already_received_def list_ex_iff)
  have "prefix (map ie_identity (t_inbound db)) (map ie_identity (t_inbound db'))"
    using assms(2) by (simp add: extends_def)
  from prefix_map_member [OF this i(1)] obtain j where "j \<in> set (t_inbound db')" "ie_identity j = ie_identity i"
    by blast
  with i(2) show ?thesis by (auto simp: already_received_def list_ex_iff dedup_clash_def ie_identity_def)
qed

text \<open>Exactly once: after an acceptance with a provider event id has been committed, and
  whatever the system commits afterwards, a redelivery with the same id at the same source
  changes nothing, and its result is \<open>Duplicate\<close> or an error.\<close>

theorem redelivery_is_a_duplicate:
  assumes "accept ushow src (Some sid) ty raw payload w = (Inr (Bridged iid eid ids), w1)"
    and "run ushow as (w_db w1) (seen w2)"
    and "accept ushow src (Some sid) ty' raw' payload' w2 = (r, w3)"
  shows "w_db w3 = seen w2 \<and> (isl r \<or> r = Inr Duplicate)"
proof -
  have "accept_outcome ushow src (Some sid) ty raw payload (seen w) (Inr (Bridged iid eid ids)) (w_db w1)"
    using accept_post [OF assms(1)] by blast
  then have "accepted_tx ushow src (Some sid) ty raw payload iid eid ids (seen w) (w_db w1)"
    by (auto simp: accept_outcome_def)
  then have "already_received src (Some sid) (w_db w1)"
    using accepted_stores by (fastforce simp: already_received_def list_ex_iff dedup_clash_def)
  then have "already_received src (Some sid) (seen w2)"
    using run_extends [OF assms(2)] by (rule already_received_extends)
  then show ?thesis using accept_post [OF assms(3)] by (auto simp: accept_outcome_def)
qed

theorem redelivery_is_a_duplicate_witness:
  "w_db (snd (accept ushow0 source0 (Some ''evt_1'') ''pay.ok'' [] JNull
       (quiet_world 6 (Response 200 None) (w_db (snd (accept ushow0 source0 (Some ''evt_1'') ''pay.ok'' [] JNull world_in))))))
   = w_db (snd (accept ushow0 source0 (Some ''evt_1'') ''pay.ok'' [] JNull world_in))"
proof -
  let ?w1 = "snd (accept ushow0 source0 (Some ''evt_1'') ''pay.ok'' [] JNull world_in)"
  let ?w2 = "quiet_world 6 (Response 200 None) (w_db ?w1)"
  have s: "seen ?w2 = w_db ?w1" by (simp add: seen_def answer_now_def quiet_world_def quiet_def)
  have "run ushow0 [] (w_db ?w1) (seen ?w2)" unfolding s by (rule run.nil)
  from redelivery_is_a_duplicate [OF accept_world_in this surjective_pairing] show ?thesis using s by simp
qed

lemma accept_steps:
  assumes "accept ushow src sid ty raw payload w = (r, w')" "env_ok (any_step ushow) w"
  shows "rtranclp (any_step ushow) (w_db w) (w_db w') \<and> w_env w' = w_env w"
proof -
  have s: "rtranclp (any_step ushow) (w_db w) (seen w)" by (rule seen_steps [OF assms(2)])
  have "any_step ushow (seen w) db'" if "accepted_tx ushow src sid ty raw payload iid eid ids (seen w) db'"
    for iid eid ids db'
    using that unfolding any_step_def accepted_tx_def by (blast intro: db_step.accept)
  then show ?thesis
    using accept_post [OF assms(1)] s unfolding accept_outcome_def by (metis rtranclp.rtrancl_into_rtrancl)
qed

end
