(* ===== verification/Dispatcher.thy ===== *)
theory Dispatcher
  imports Signing Inbox
begin

text \<open>
  \<open>crates/dropless-core/src/dispatcher.rs\<close>: processing of one claimed delivery
  (\<open>process_one\<close>, \<open>fail\<close>), the batch loop and the worker loop, with \<open>store::mark_dead\<close>,
  which runs its own transaction. Parameters (\<open>deps\<close>): the text of a UUID, the crypto crates,
  \<open>serde_json::to_vec\<close>, \<open>chrono::Duration::from_std\<close> (microseconds, \<open>None\<close> when out
  of range) and the text of a database error. A string is its UTF-8 bytes.
\<close>

record deps =
  dp_ushow :: "uuid \<Rightarrow> string"
  dp_crypto :: crypto
  dp_to_vec :: "json \<Rightarrow> string + bytes"
  dp_from_std :: "duration \<Rightarrow> int option"
  dp_sqlx_text :: "sqlx_error \<Rightarrow> string"

section \<open>Configuration\<close>

record dispatcher_config =
  dc_worker_count :: nat
  dc_batch_size :: int
  dc_lock_secs :: int
  dc_http_timeout :: duration
  dc_poll_interval :: duration
  dc_retry :: retry_policy
  dc_circuit :: circuit_policy

definition dispatcher_config_default :: dispatcher_config where
  "dispatcher_config_default =
     \<lparr>dc_worker_count = 4, dc_batch_size = 32, dc_lock_secs = 30, dc_http_timeout = from_secs 10,
      dc_poll_interval = from_millis 500, dc_retry = retry_policy_default, dc_circuit = circuit_policy_default\<rparr>"

definition response_snippet_len :: nat where "response_snippet_len = 500"

definition disabled_recheck_secs :: int where "disabled_recheck_secs = 60"

section \<open>Truncation on a character boundary\<close>

definition continuation_byte :: "char \<Rightarrow> bool" where
  "continuation_byte c \<longleftrightarrow> 128 \<le> (of_char c :: nat) \<and> (of_char c :: nat) < 192"

definition is_char_boundary :: "string \<Rightarrow> nat \<Rightarrow> bool" where
  "is_char_boundary s i =
     (if i = 0 then True
      else if i \<ge> length s then i = length s
      else \<not> continuation_byte (s ! i))"

fun back_off :: "string \<Rightarrow> nat \<Rightarrow> nat" where
  "back_off s 0 = 0"
| "back_off s (Suc n) = (if is_char_boundary s (Suc n) then Suc n else back_off s n)"

definition truncate_bytes :: "string \<Rightarrow> nat \<Rightarrow> string" where
  "truncate_bytes s max_len = (if length s \<le> max_len then s else take (back_off s max_len) s)"

section \<open>Processing a delivery\<close>

definition mark_dead :: "delivery \<Rightarrow> string \<Rightarrow> string \<Rightarrow> bool io" where
  "mark_dead delivery worker_id reason =
     with_tx (
       await (tsql (\<lambda>a now. mark_dead_on now (an_uuid a) delivery worker_id reason)) (\<lambda>applied.
       if applied then await commit (\<lambda>_. ok applied) else await rollback (\<lambda>_. ok applied)))"

definition retry_delay :: "deps \<Rightarrow> dispatcher_config \<Rightarrow> (u64 \<Rightarrow> u64) \<Rightarrow> int \<Rightarrow> int" where
  "retry_delay D cfg gen_range attempt_number =
     (case dp_from_std D (backoff gen_range (dc_retry cfg) attempt_number) of
        Some d \<Rightarrow> d
      | None \<Rightarrow> seconds 60)"

text \<open>\<open>fail\<close>: attempt row, retry or dead letter, and circuit update in one transaction.\<close>

definition fail_delivery ::
  "deps \<Rightarrow> dispatcher_config \<Rightarrow> string \<Rightarrow> delivery \<Rightarrow> endpoint \<Rightarrow> int \<Rightarrow> int option \<Rightarrow> string option \<Rightarrow>
   string \<Rightarrow> timestamp \<Rightarrow> timestamp \<Rightarrow> unit io" where
  "fail_delivery D cfg worker_id delivery endpoint attempt_number status_code snippet error started_at finished_at =
     (let exhausted = is_exhausted (dc_retry cfg) attempt_number in
      with_tx (
        await (tsql (\<lambda>a now. record_attempt (an_uuid a) (dl_id delivery) attempt_number status_code snippet
                 (Some error) started_at finished_at)) (\<lambda>_.
        await (if exhausted
               then tsql (\<lambda>a now. mark_dead_on now (an_uuid a) delivery worker_id error)
               else utc_now (\<lambda>t. draw (\<lambda>gen_range.
                      tsql (\<lambda>a now. mark_failed now (dl_id delivery) worker_id attempt_number
                              (t + retry_delay D cfg gen_range attempt_number) error))))
          (\<lambda>applied.
        if \<not> applied then await rollback (\<lambda>_. ok ())
        else utc_now (\<lambda>t.
          let upd = on_failure endpoint (dc_circuit cfg) t in
          await (tsql (\<lambda>a now. update_circuit now (ep_id endpoint) (cu_state upd) (cu_open_until upd)
                   (cu_consecutive_failures upd))) (\<lambda>_.
          await commit (\<lambda>_.
          ok ())))))))"

text \<open>The success branch of \<open>process_one\<close>.\<close>

definition succeed_delivery ::
  "string \<Rightarrow> delivery \<Rightarrow> endpoint \<Rightarrow> int \<Rightarrow> int \<Rightarrow> string \<Rightarrow> timestamp \<Rightarrow> timestamp \<Rightarrow> unit io" where
  "succeed_delivery worker_id delivery endpoint attempt_number code snippet started_at finished_at =
     with_tx (
       await (tsql (\<lambda>a now. record_attempt (an_uuid a) (dl_id delivery) attempt_number (Some code) (Some snippet)
                None started_at finished_at)) (\<lambda>_.
       await (tsql (\<lambda>a now. mark_succeeded now (dl_id delivery) worker_id attempt_number)) (\<lambda>applied.
       if applied
       then await (tsql (\<lambda>a now. update_circuit now (ep_id endpoint) (cu_state on_success)
                     (cu_open_until on_success) (cu_consecutive_failures on_success))) (\<lambda>_.
            await commit (\<lambda>_. ok ()))
       else await rollback (\<lambda>_. ok ()))))"

definition webhook_request :: "delivery \<Rightarrow> endpoint \<Rightarrow> event \<Rightarrow> signature_headers \<Rightarrow> bytes \<Rightarrow> http_request" where
  "webhook_request delivery endpoint ev headers body =
     \<lparr>rq_url = ep_url endpoint,
      rq_headers = [(''content-type'', ''application/json''),
                    (''idempotency-key'', dl_idempotency_key delivery),
                    (''webhook-id'', sh_id headers),
                    (''webhook-timestamp'', sh_timestamp headers),
                    (''webhook-signature'', sh_signature headers),
                    (''dropless-event-type'', ev_event_type ev)],
      rq_body = body\<rparr>"

text \<open>\<open>process_one\<close> from the loaded event on: serialise, sign, POST, settle.\<close>

definition attempt_delivery ::
  "deps \<Rightarrow> dispatcher_config \<Rightarrow> string \<Rightarrow> delivery \<Rightarrow> endpoint \<Rightarrow> timestamp \<Rightarrow> event \<Rightarrow> unit io" where
  "attempt_delivery D cfg worker_id delivery endpoint now ev =
     (case dp_to_vec D (ev_payload ev) of
       Inl e \<Rightarrow> await (mark_dead delivery worker_id (''payload not serializable: '' @ e)) (\<lambda>_. ok ())
     | Inr body \<Rightarrow>
     (let attempt_number = i32_wrap (dl_attempt_count delivery + 1); timestamp = now div 1000000 in
      case signature_headers_for (dp_crypto D) (ep_secret endpoint) (dp_ushow D (dl_id delivery)) timestamp body of
       Inl e \<Rightarrow> await (mark_dead delivery worker_id
                  (''cannot sign request: '' @ error_display (dp_sqlx_text D) e)) (\<lambda>_. ok ())
     | Inr headers \<Rightarrow>
         utc_now (\<lambda>started_at.
         http_send (webhook_request delivery endpoint ev headers body) (\<lambda>result.
         utc_now (\<lambda>finished_at.
         case result of
           Response code text \<Rightarrow>
             (let snippet = truncate_bytes (case text of Some t \<Rightarrow> t | None \<Rightarrow> '''') response_snippet_len in
              if is_success code
              then succeed_delivery worker_id delivery endpoint attempt_number code snippet started_at finished_at
              else fail_delivery D cfg worker_id delivery endpoint attempt_number (Some code) (Some snippet)
                     (''non-2xx status '' @ show_int code) started_at finished_at)
         | Send_error e \<Rightarrow>
             fail_delivery D cfg worker_id delivery endpoint attempt_number None None e started_at finished_at)))))"

definition send_delivery ::
  "deps \<Rightarrow> dispatcher_config \<Rightarrow> string \<Rightarrow> delivery \<Rightarrow> endpoint \<Rightarrow> timestamp \<Rightarrow> unit io" where
  "send_delivery D cfg worker_id delivery endpoint now =
     await (sql (\<lambda>a. get_event (dl_event_id delivery))) (\<lambda>found. case found of
       None \<Rightarrow> await (mark_dead delivery worker_id ''event no longer exists'') (\<lambda>_. ok ())
     | Some ev \<Rightarrow> attempt_delivery D cfg worker_id delivery endpoint now ev)"

definition probe_lease :: "dispatcher_config \<Rightarrow> int" where
  "probe_lease cfg = i32_wrap (max (cp_open_duration (dc_circuit cfg) div 1000000) 1)"

definition process_one :: "deps \<Rightarrow> dispatcher_config \<Rightarrow> string \<Rightarrow> delivery \<Rightarrow> unit io" where
  "process_one D cfg worker_id delivery =
     utc_now (\<lambda>now.
     await (sql (\<lambda>a. get_endpoint (dl_endpoint_id delivery))) (\<lambda>found. case found of
       None \<Rightarrow> await (mark_dead delivery worker_id ''endpoint no longer exists'') (\<lambda>_. ok ())
     | Some endpoint \<Rightarrow>
     if ep_disabled endpoint
     then await (sql (\<lambda>a. defer_delivery (an_now a) (dl_id delivery) worker_id (now + seconds disabled_recheck_secs)))
            (\<lambda>_. ok ())
     else
     (case gate_at endpoint now of
        Skip until \<Rightarrow> await (sql (\<lambda>a. defer_delivery (an_now a) (dl_id delivery) worker_id until)) (\<lambda>_. ok ())
      | Probe \<Rightarrow>
          await (sql (\<lambda>a. try_acquire_probe (an_now a) (ep_id endpoint) (probe_lease cfg))) (\<lambda>acquired.
          if acquired then send_delivery D cfg worker_id delivery endpoint now
          else await (sql (\<lambda>a. defer_delivery (an_now a) (dl_id delivery) worker_id
                        (now + cp_open_duration (dc_circuit cfg)))) (\<lambda>_. ok ()))
      | Allow \<Rightarrow> send_delivery D cfg worker_id delivery endpoint now)))"

section \<open>The worker loop\<close>

text \<open>A wait (\<open>sleep_or_shutdown\<close>, or the idle \<open>select!\<close>) changes nothing that is modelled.\<close>

definition pause :: "'a io \<Rightarrow> 'a io" where
  "pause k w = k (tick w)"

fun process_batch :: "deps \<Rightarrow> dispatcher_config \<Rightarrow> string \<Rightarrow> delivery list \<Rightarrow> unit io" where
  "process_batch D cfg worker_id [] = ok ()"
| "process_batch D cfg worker_id (delivery # rest) =
     read_flag (\<lambda>shutdown.
       if shutdown then ok ()
       else try_await (process_one D cfg worker_id delivery) (\<lambda>_. process_batch D cfg worker_id rest))"

text \<open>One turn of the loop; the result says whether the loop goes on.\<close>

definition worker_turn :: "deps \<Rightarrow> dispatcher_config \<Rightarrow> string \<Rightarrow> bool io" where
  "worker_turn D cfg worker_id =
     read_flag (\<lambda>shutdown.
       if shutdown then ok False
       else try_await (sql (\<lambda>a. claim_due_deliveries (an_now a) (an_locked a) worker_id
                         (dc_batch_size cfg) (dc_lock_secs cfg))) (\<lambda>claimed. case claimed of
              Inl e \<Rightarrow> pause (ok True)
            | Inr rows \<Rightarrow>
                if rows = [] then pause (ok True)
                else await (process_batch D cfg worker_id rows) (\<lambda>_. ok True)))"

text \<open>The loop, for at most the given number of turns; \<open>True\<close> when it has ended.\<close>

fun run_worker :: "nat \<Rightarrow> deps \<Rightarrow> dispatcher_config \<Rightarrow> string \<Rightarrow> bool io" where
  "run_worker 0 D cfg worker_id = ok False"
| "run_worker (Suc n) D cfg worker_id =
     await (worker_turn D cfg worker_id) (\<lambda>again. if again then run_worker n D cfg worker_id else ok True)"

section \<open>Truncation\<close>

lemma back_off_spec:
  "back_off s n \<le> n \<and> is_char_boundary s (back_off s n) \<and> (\<forall>m\<le>n. is_char_boundary s m \<longrightarrow> m \<le> back_off s n)"
proof (induction n)
  case 0
  then show ?case by (simp add: is_char_boundary_def)
next
  case (Suc n)
  then show ?case by (auto simp: le_Suc_eq)
qed

text \<open>The stored response snippet is the longest prefix of the response that ends on a
  character boundary and has at most \<open>max\<close> bytes.\<close>

theorem truncate_longest_prefix:
  "let t = truncate_bytes s n in
   prefix t s \<and> length t \<le> n \<and> is_char_boundary s (length t) \<and>
   (\<forall>m\<le>min n (length s). is_char_boundary s m \<longrightarrow> m \<le> length t)"
proof (cases "length s \<le> n")
  case True
  then show ?thesis by (auto simp: truncate_bytes_def is_char_boundary_def)
next
  case False
  have "back_off s n \<le> length s" using back_off_spec [of s n] False by linarith
  then have len: "length (take (back_off s n) s) = back_off s n" by simp
  show ?thesis
    using False back_off_spec [of s n] unfolding Let_def truncate_bytes_def
    by (simp add: len take_is_prefix)
qed

theorem truncate_longest_prefix_witness:
  "truncate_bytes ''hello'' 3 = ''hel'' \<and> length (truncate_bytes ''hello'' 3) \<le> 3"
  using truncate_longest_prefix [of "''hello''" 3]
  by (simp add: Let_def truncate_bytes_def numeral_3_eq_3 is_char_boundary_def continuation_byte_def)

section \<open>The outcome transactions\<close>

text \<open>What a committed \<open>fail\<close> did.\<close>

definition failed_tx ::
  "deps \<Rightarrow> dispatcher_config \<Rightarrow> string \<Rightarrow> delivery \<Rightarrow> int \<Rightarrow> int option \<Rightarrow> string option \<Rightarrow> string \<Rightarrow>
   timestamp \<Rightarrow> timestamp \<Rightarrow> timestamp \<Rightarrow> bool \<Rightarrow> db \<Rightarrow> db \<Rightarrow> bool" where
  "failed_tx D cfg worker v n code snip er t1 t2 now applied db db2 \<longleftrightarrow>
     (\<exists>fresh db1. record_attempt fresh (dl_id v) n code snip (Some er) t1 t2 db = Inr ((), db1) \<and>
        (if is_exhausted (dc_retry cfg) n
         then \<exists>fresh2. mark_dead_on now fresh2 v worker er db1 = Inr (applied, db2)
         else \<exists>t gen_range.
           mark_failed now (dl_id v) worker n (t + retry_delay D cfg gen_range n) er db1 = Inr (applied, db2)))"

definition circuit_tx :: "endpoint \<Rightarrow> circuit_update \<Rightarrow> timestamp \<Rightarrow> db \<Rightarrow> db \<Rightarrow> bool" where
  "circuit_tx ep u now db db' \<longleftrightarrow>
     update_circuit now (ep_id ep) (cu_state u) (cu_open_until u) (cu_consecutive_failures u) db = Inr ((), db')"

definition fail_outcome ::
  "deps \<Rightarrow> dispatcher_config \<Rightarrow> string \<Rightarrow> delivery \<Rightarrow> endpoint \<Rightarrow> int \<Rightarrow> int option \<Rightarrow> string option \<Rightarrow> string \<Rightarrow>
   timestamp \<Rightarrow> timestamp \<Rightarrow> timestamp \<Rightarrow> db \<Rightarrow> unit core_result \<Rightarrow> db \<Rightarrow> bool" where
  "fail_outcome D cfg worker v ep n code snip er t1 t2 now db r db' \<longleftrightarrow>
     db' = db \<and> (isl r \<or> (\<exists>db2. failed_tx D cfg worker v n code snip er t1 t2 now False db db2)) \<or>
     (\<exists>t db2. failed_tx D cfg worker v n code snip er t1 t2 now True db db2 \<and>
        circuit_tx ep (on_failure ep (dc_circuit cfg) t) now db2 db')"

text \<open>The end of the transaction, once the delivery is settled in the view.\<close>

lemma wp_circuit_commit:
  assumes "w_tx w = Some (t, view)" "\<And>e w'. outside_same w w' \<Longrightarrow> Q (Inl e) w'"
    and "\<And>view' r w'. circuit_tx ep u t view view' \<Longrightarrow> w_db w' = view' \<Longrightarrow> w_env w' = w_env w \<Longrightarrow>
      w_sent w' = w_sent w \<Longrightarrow> Q r w'"
  shows "wp (await (tsql (\<lambda>a now. update_circuit now (ep_id ep) (cu_state u) (cu_open_until u)
      (cu_consecutive_failures u))) (\<lambda>_. await commit (\<lambda>_. ok ()))) Q w"
proof (rule wp_await_tsql [OF assms(1)])
  fix x view'
  assume "update_circuit t (ep_id ep) (cu_state u) (cu_open_until u) (cu_consecutive_failures u) view = Inr (x, view')"
  then have "circuit_tx ep u t view view'" unfolding circuit_tx_def by auto
  then show "wp (await commit (\<lambda>_. ok ())) Q ((tick w)\<lparr>w_tx := Some (t, view')\<rparr>)"
    by (intro wp_await_commit [of _ t view']) (simp_all add: wp_rules assms(2,3))
qed (auto intro: assms(2))

lemma wp_fail_body:
  assumes "w_tx w = Some (t, view)" "\<And>e w'. outside_same w w' \<Longrightarrow> Q (Inl e) w'"
    and "\<And>applied view' w'. failed_tx D cfg worker v n code snip er t1 t2 t applied view view' \<Longrightarrow>
      outside_same w w' \<Longrightarrow> w_tx w' = Some (t, view') \<Longrightarrow> wp (k applied) Q w'"
  shows "wp (await (tsql (\<lambda>a now. record_attempt (an_uuid a) (dl_id v) n code snip (Some er) t1 t2)) (\<lambda>_.
      await (if is_exhausted (dc_retry cfg) n
             then tsql (\<lambda>a now. mark_dead_on now (an_uuid a) v worker er)
             else utc_now (\<lambda>t. draw (\<lambda>gen_range.
                    tsql (\<lambda>a now. mark_failed now (dl_id v) worker n (t + retry_delay D cfg gen_range n) er)))) k)) Q w"
proof (rule wp_await_tsql [OF assms(1)])
  fix x view1
  assume rec: "record_attempt (an_uuid (answer_now w)) (dl_id v) n code snip (Some er) t1 t2 view = Inr (x, view1)"
  let ?w1 = "(tick w)\<lparr>w_tx := Some (t, view1)\<rparr>"
  show "wp (await (if is_exhausted (dc_retry cfg) n
             then tsql (\<lambda>a now. mark_dead_on now (an_uuid a) v worker er)
             else utc_now (\<lambda>t. draw (\<lambda>gen_range.
                    tsql (\<lambda>a now. mark_failed now (dl_id v) worker n (t + retry_delay D cfg gen_range n) er)))) k) Q ?w1"
  proof (cases "is_exhausted (dc_retry cfg) n")
    case True
    have "failed_tx D cfg worker v n code snip er t1 t2 t b view view'"
      if "mark_dead_on t (an_uuid (answer_now ?w1)) v worker er view1 = Inr (b, view')" for b view'
      using rec that True unfolding failed_tx_def by auto
    then show ?thesis
      by (simp add: True) (rule wp_await_tsql [of _ t view1], auto intro!: assms(2,3))
  next
    case False
    have "failed_tx D cfg worker v n code snip er t1 t2 t b view view'"
      if "mark_failed t (dl_id v) worker n (u + retry_delay D cfg g n) er view1 = Inr (b, view')" for u g b view'
      using rec that False unfolding failed_tx_def by (simp, blast)
    then show ?thesis
      by (simp add: False wp_rules Let_def) (rule wp_tsql [of _ t view1], auto intro!: assms(2,3))
  qed
qed (auto intro: assms(2))

lemma fail_post:
  assumes "fail_delivery D cfg worker v ep n code snip er t1 t2 w = (r, w')"
  shows "w_env w' = w_env w \<and> w_sent w' = w_sent w \<and>
    fail_outcome D cfg worker v ep n code snip er t1 t2 (an_now (answer_now w)) (seen w) r (w_db w')" (is "?post r w'")
proof -
  have "wp (fail_delivery D cfg worker v ep n code snip er t1 t2) ?post w"
    unfolding fail_delivery_def Let_def
  proof (rule wp_with_tx, goal_cases)
    case 1
    then show ?case by (simp add: fail_outcome_def)
  next
    case 2
    show ?case
    proof (rule wp_fail_body [of _ "an_now (answer_now w)" "seen w"], goal_cases)
      case (3 applied view' w1)
      then show ?case
      proof (cases applied)
        case True
        show ?thesis
          unfolding eqTrueI [OF True] not_True_eq_False if_False wp_rules(3-9)
          by (rule wp_circuit_commit) (use 3 True in \<open>auto simp: fail_outcome_def outside_same_def\<close>)
      next
        case False
        then show ?thesis
          using 3 by (simp, intro wp_await_rollback) (auto simp: wp_rules fail_outcome_def outside_same_def)
      qed
    qed (auto simp: fail_outcome_def outside_same_def)
  qed
  then show ?thesis using assms by (rule wpD)
qed

definition success_outcome ::
  "string \<Rightarrow> delivery \<Rightarrow> endpoint \<Rightarrow> int \<Rightarrow> int \<Rightarrow> string \<Rightarrow> timestamp \<Rightarrow> timestamp \<Rightarrow> timestamp \<Rightarrow> db \<Rightarrow>
   unit core_result \<Rightarrow> db \<Rightarrow> bool" where
  "success_outcome worker v ep n code snip t1 t2 now db r db' \<longleftrightarrow>
     (\<exists>fresh db1 db2. let rec = (record_attempt fresh (dl_id v) n (Some code) (Some snip) None t1 t2 db = Inr ((), db1)) in
        db' = db \<and> (isl r \<or> rec \<and> mark_succeeded now (dl_id v) worker n db1 = Inr (False, db2)) \<or>
        rec \<and> mark_succeeded now (dl_id v) worker n db1 = Inr (True, db2) \<and> circuit_tx ep on_success now db2 db')"

lemma succeed_post:
  assumes "succeed_delivery worker v ep n code snip t1 t2 w = (r, w')"
  shows "w_env w' = w_env w \<and> w_sent w' = w_sent w \<and>
    success_outcome worker v ep n code snip t1 t2 (an_now (answer_now w)) (seen w) r (w_db w')" (is "?post r w'")
proof -
  let ?now = "an_now (answer_now w)"
  have "wp (succeed_delivery worker v ep n code snip t1 t2) ?post w"
    unfolding succeed_delivery_def
  proof (rule wp_with_tx, goal_cases)
    case 2
    show ?case
    proof (rule wp_await_tsql [of _ ?now "seen w"], goal_cases)
      case (3 x view1)
      note rec = 3
      show ?case
      proof (rule wp_await_tsql [of _ ?now view1], goal_cases)
        case (3 applied view2)
        note ms = 3
        show ?case
        proof (cases applied)
          case True
          show ?thesis
            unfolding if_P [OF True]
            by (rule wp_circuit_commit [of _ ?now view2])
              (use rec ms True in \<open>auto simp: success_outcome_def outside_same_def Let_def\<close>)
        next
          case False
          show ?thesis
            unfolding if_not_P [OF False]
            by (rule wp_await_rollback)
              (use rec ms False in \<open>auto simp: wp_rules success_outcome_def Let_def\<close>)
        qed
      qed (simp_all add: success_outcome_def Let_def)
    qed (simp_all add: success_outcome_def Let_def)
  qed (simp add: success_outcome_def Let_def)
  then show ?thesis using assms by (rule wpD)
qed

lemma mark_dead_post:
  assumes "mark_dead v worker reason w = (r, w')"
  shows "w_env w' = w_env w \<and> w_sent w' = w_sent w \<and>
    (w_db w' = seen w \<or> (\<exists>fresh. mark_dead_on (an_now (answer_now w)) fresh v worker reason (seen w) = Inr (True, w_db w')))"
    (is "?post r w'")
proof -
  let ?now = "an_now (answer_now w)"
  have "wp (mark_dead v worker reason) ?post w"
    unfolding mark_dead_def
  proof (rule wp_with_tx, goal_cases)
    case 2
    show ?case
    proof (rule wp_await_tsql [of _ ?now "seen w"], goal_cases)
      case (3 applied view1)
      show ?case
      proof (cases applied)
        case True
        show ?thesis
          unfolding if_P [OF True]
          by (rule wp_await_commit [of _ ?now view1]) (use 3 True in \<open>auto simp: wp_rules\<close>)
      next
        case False
        show ?thesis unfolding if_not_P [OF False] by (rule wp_await_rollback) (auto simp: wp_rules)
      qed
    qed simp_all
  qed simp
  then show ?thesis using assms by (rule wpD)
qed

section \<open>Only permitted steps\<close>

text \<open>A program whose whole effect on the database is nothing or one step.\<close>

lemma obeys_one_step:
  assumes "\<And>w r w'. m w = (r, w') \<Longrightarrow>
      w_env w' = w_env w \<and> (w_db w' = seen w \<or> R (seen w) (w_db w'))"
  shows "obeys R m"
proof (rule obeysI)
  fix w
  assume "env_ok R w"
  then have s: "rtranclp R (w_db w) (seen w)" by (rule seen_steps)
  obtain r w' where m: "m w = (r, w')" by (cases "m w")
  from assms [OF m] s have "rtranclp R (w_db w) (w_db w') \<and> w_env w' = w_env w" by auto
  with m show "wp m (\<lambda>r w'. rtranclp R (w_db w) (w_db w') \<and> w_env w' = w_env w) w" by (simp add: wp_def)
qed

lemma mark_dead_obeys [obeys_intro]: "obeys (any_step ushow) (mark_dead v worker reason)"
  by (rule obeys_one_step) (use mark_dead_post in \<open>unfold any_step_def, blast intro: db_step.dead\<close>)

lemma failed_tx_step:
  assumes "failed_tx D cfg worker v n code snip er t1 t2 now True db db2" "circuit_tx ep u now db2 db'"
    and u: "u = on_failure ep policy t3"
  shows "db_step ushow (Release worker (dl_id v)) db db'"
proof (cases "is_exhausted (dc_retry cfg) n")
  case True
  with assms(1,2) show ?thesis unfolding failed_tx_def circuit_tx_def by (auto intro: db_step.exhaust [OF _ _ u])
next
  case False
  with assms obtain fresh db1 nxt where
    "record_attempt fresh (dl_id v) n code snip (Some er) t1 t2 db = Inr ((), db1)"
    "mark_failed now (dl_id v) worker n nxt er db1 = Inr (True, db2)"
    "update_circuit now (ep_id ep) (cu_state u) (cu_open_until u) (cu_consecutive_failures u) db2 = Inr ((), db')"
    unfolding failed_tx_def circuit_tx_def by auto
  then show ?thesis using db_step.retry [OF _ _ u] by blast
qed

lemma fail_obeys [obeys_intro]:
  "obeys (any_step ushow) (fail_delivery D cfg worker v ep n code snip er t1 t2)"
proof (rule obeys_one_step)
  fix w r w'
  assume "fail_delivery D cfg worker v ep n code snip er t1 t2 w = (r, w')"
  from fail_post [OF this]
  show "w_env w' = w_env w \<and> (w_db w' = seen w \<or> any_step ushow (seen w) (w_db w'))"
    unfolding fail_outcome_def any_step_def using failed_tx_step by blast
qed

lemma succeed_obeys [obeys_intro]:
  assumes "is_success code"
  shows "obeys (any_step ushow) (succeed_delivery worker v ep n code snip t1 t2)"
proof (rule obeys_one_step)
  fix w r w'
  assume "succeed_delivery worker v ep n code snip t1 t2 w = (r, w')"
  from succeed_post [OF this]
  show "w_env w' = w_env w \<and> (w_db w' = seen w \<or> any_step ushow (seen w) (w_db w'))"
    unfolding success_outcome_def any_step_def circuit_tx_def Let_def
    using db_step.success [OF _ assms _ refl] by blast
qed

lemma sql_obeys [obeys_intro]:
  "obeys (any_step ushow) (sql (\<lambda>a. get_event i))"
  "obeys (any_step ushow) (sql (\<lambda>a. get_endpoint i))"
  "obeys (any_step ushow) (sql (\<lambda>a. defer_delivery (an_now a) i worker nxt))"
  "obeys (any_step ushow) (sql (\<lambda>a. try_acquire_probe (an_now a) i l))"
  "obeys (any_step ushow) (sql (\<lambda>a. claim_due_deliveries (an_now a) (an_locked a) worker b l))"
proof -
  show "obeys (any_step ushow) (sql (\<lambda>a. get_event i))" "obeys (any_step ushow) (sql (\<lambda>a. get_endpoint i))"
    by (rule obeys_sql; simp add: get_event_def get_endpoint_def)+
  show "obeys (any_step ushow) (sql (\<lambda>a. defer_delivery (an_now a) i worker nxt))"
    "obeys (any_step ushow) (sql (\<lambda>a. try_acquire_probe (an_now a) i l))"
    "obeys (any_step ushow) (sql (\<lambda>a. claim_due_deliveries (an_now a) (an_locked a) worker b l))"
    by (rule obeys_sql, metis any_step_def db_step.defers r_into_rtranclp)
      (rule obeys_sql, metis any_step_def db_step.probe r_into_rtranclp,
       rule obeys_sql, metis any_step_def db_step.claim r_into_rtranclp)
qed

lemma attempt_obeys [obeys_intro]: "obeys (any_step ushow) (attempt_delivery D cfg worker v ep now ev)"
  unfolding attempt_delivery_def Let_def
  by (auto split: sum.split http_result.split intro!: obeys_intro)

lemma send_obeys [obeys_intro]: "obeys (any_step ushow) (send_delivery D cfg worker v ep now)"
  unfolding send_delivery_def
  by (intro obeys_intro) (auto split: option.split intro!: obeys_intro)

lemma process_one_obeys [obeys_intro]: "obeys (any_step ushow) (process_one D cfg worker v)"
  unfolding process_one_def
  by (intro obeys_intro) (auto split: option.split gate.split intro!: obeys_intro)

lemma process_batch_obeys [obeys_intro]: "obeys (any_step ushow) (process_batch D cfg worker vs)"
proof (induction vs)
  case Nil
  then show ?case by (simp add: obeys_intro)
next
  case (Cons v vs)
  show ?case
    unfolding process_batch.simps
    by (rule obeys_reads(4)) (simp add: Cons obeys_intro)
qed

lemma pause_obeys [obeys_intro]: "obeys R m \<Longrightarrow> obeys R (pause m)"
  by (rule obeysI) (simp add: wp_def pause_def, rule obeys_wp [unfolded wp_def], auto)

lemma worker_turn_obeys [obeys_intro]: "obeys (any_step ushow) (worker_turn D cfg worker)"
  unfolding worker_turn_def
  by (intro obeys_intro) (auto split: sum.split intro!: obeys_intro)

lemma run_worker_obeys [obeys_intro]: "obeys (any_step ushow) (run_worker n D cfg worker)"
  by (induction n) (simp_all add: obeys_intro)

lemma run_any_steps: "run ushow as db db' \<Longrightarrow> rtranclp (any_step ushow) db db'"
  by (induction rule: run.induct) (auto simp: any_step_def intro: rtranclp.rtrancl_into_rtrancl)

text \<open>C13. Whatever a worker does, for any number of turns, under any faults, and however other
  workers and requests interleave, the database only ever moves by the transactions of the
  system; so a worker started on a reachable database leaves a reachable one.\<close>

theorem worker_commits_only_system_steps:
  assumes "env_ok (any_step ushow) w" "run ushow as empty_db (w_db w)"
    and "run_worker n D cfg worker w = (r, w')"
  shows "\<exists>bs. run ushow bs empty_db (w_db w') \<and> extends (w_db w) (w_db w')"
proof -
  have s: "rtranclp (any_step ushow) (w_db w) (w_db w')"
    using obeysD [OF run_worker_obeys assms(3,1)] by blast
  have "rtranclp (any_step ushow) empty_db (w_db w)" using assms(2) by (rule run_any_steps)
  then have "rtranclp (any_step ushow) empty_db (w_db w')" using s by (rule rtranclp_trans)
  then show ?thesis using any_steps_run any_steps_extends [OF s] by blast
qed

section \<open>Requests\<close>

definition silent :: "'a io \<Rightarrow> bool" where
  "silent m \<longleftrightarrow> (\<forall>w. wp m (\<lambda>r w'. w_sent w' = w_sent w) w)"

lemma silentI: "(\<And>w r w'. m w = (r, w') \<Longrightarrow> w_sent w' = w_sent w) \<Longrightarrow> silent m"
  by (simp add: silent_def wp_def split: prod.split)

lemma silent_wp: "silent m \<Longrightarrow> w_sent w = s \<Longrightarrow> wp m (\<lambda>r w'. w_sent w' = s) w"
  by (auto simp: silent_def)

lemma silent_basic:
  "silent (ok x)" "silent (sql f)" "silent (mark_dead v worker reason)"
  "silent (fail_delivery D cfg worker v ep n c sn er t1 t2)"
  "silent (succeed_delivery worker v ep n c' sn' t1 t2)"
  using mark_dead_post fail_post succeed_post
  by (auto intro!: silentI simp: ok_def sql_def Let_def split: fault.splits sum.splits if_splits)

lemma silent_await: "silent m \<Longrightarrow> (\<And>x. silent (k x)) \<Longrightarrow> silent (await m k)"
  unfolding silent_def wp_iff await_def by (auto split: sum.split prod.split) (metis snd_conv)+

text \<open>A signed request for the delivery \<open>v\<close> to the endpoint \<open>ep\<close>, carrying a stored event.\<close>

definition genuine :: "deps \<Rightarrow> delivery \<Rightarrow> endpoint \<Rightarrow> timestamp \<Rightarrow> event list \<Rightarrow> http_request \<Rightarrow> bool" where
  "genuine D v ep now events rq \<longleftrightarrow>
     (\<exists>ev\<in>set events. \<exists>headers body. rq = webhook_request v ep ev headers body \<and> ev_id ev = dl_event_id v \<and>
        dp_to_vec D (ev_payload ev) = Inr body \<and>
        signature_headers_for (dp_crypto D) (ep_secret ep) (dp_ushow D (dl_id v)) (now div 1000000) body = Inr headers)"

lemma genuine_mono: "genuine D v ep now evs rq \<Longrightarrow> set evs \<subseteq> set evs' \<Longrightarrow> genuine D v ep now evs' rq"
  unfolding genuine_def by blast

lemma attempt_requests:
  assumes "ev \<in> set events" "ev_id ev = dl_event_id v"
  shows "wp (attempt_delivery D cfg worker v ep now ev)
     (\<lambda>r w'. w_sent w' = w_sent w \<or> (\<exists>rq. w_sent w' = w_sent w @ [rq] \<and> genuine D v ep now events rq)) w"
    (is "wp _ ?post w")
proof -
  have dead: "wp (await (mark_dead v worker reason) (\<lambda>_. ok ())) ?post w" for reason
    by (rule wp_mono [OF silent_wp [OF silent_await [OF silent_basic(3) silent_basic(1)]]]) auto
  have post: "wp m ?post w2"
    if "silent m" "w_sent w2 = w_sent w @ [webhook_request v ep ev headers body]"
      "dp_to_vec D (ev_payload ev) = Inr body"
      "signature_headers_for (dp_crypto D) (ep_secret ep) (dp_ushow D (dl_id v)) (now div 1000000) body = Inr headers"
    for m :: "unit io" and w2 headers body
  proof (rule wp_mono [OF silent_wp [OF that(1,2)]])
    fix r :: "unit core_result" and w' :: world
    assume "w_sent w' = w_sent w @ [webhook_request v ep ev headers body]"
    then show "?post r w'" using assms that(3,4) unfolding genuine_def by blast
  qed
  show ?thesis
    unfolding attempt_delivery_def Let_def
    by (auto simp: wp_basic dead silent_basic split: sum.split http_result.split intro!: post)
qed

lemma send_requests:
  assumes "env_ok (any_step ushow) w"
  shows "wp (send_delivery D cfg worker v ep now)
     (\<lambda>r w'. w_sent w' = w_sent w \<or>
        (\<exists>rq. w_sent w' = w_sent w @ [rq] \<and> genuine D v ep now (t_events (w_db w')) rq)) w"
    (is "wp _ ?post w")
  unfolding send_delivery_def
proof (rule wp_await_sql, goal_cases)
  case (2 found db')
  let ?w1 = "(tick w)\<lparr>w_db := db'\<rparr>"
  show ?case
  proof (cases found)
    case None
    have "wp (await (mark_dead v worker ''event no longer exists'') (\<lambda>_. ok ())) ?post ?w1"
      by (rule wp_mono [OF silent_wp [OF silent_await [OF silent_basic(3) silent_basic(1)]]]) auto
    then show ?thesis using None by simp
  next
    case (Some ev)
    with 2 have ev: "ev \<in> set (t_events db')" "ev_id ev = dl_event_id v"
      by (auto simp: get_event_def dest: find_in_set)
    have "env_ok (any_step ushow) ?w1" using assms by (simp add: env_ok_def)
    then have "wp (attempt_delivery D cfg worker v ep now ev)
        (\<lambda>r w'. rtranclp (any_step ushow) (w_db ?w1) (w_db w') \<and> w_env w' = w_env ?w1) ?w1"
      by (intro obeys_wp attempt_obeys) simp_all
    from wp_conj [OF this attempt_requests [OF ev, of D cfg worker ep now ?w1]]
    have "wp (attempt_delivery D cfg worker v ep now ev) ?post ?w1"
    proof (rule wp_mono)
      fix r :: "unit core_result" and w' :: world
      assume a: "(rtranclp (any_step ushow) (w_db ?w1) (w_db w') \<and> w_env w' = w_env ?w1) \<and>
        (w_sent w' = w_sent ?w1 \<or> (\<exists>rq. w_sent w' = w_sent ?w1 @ [rq] \<and> genuine D v ep now (t_events db') rq))"
      then have "set (t_events db') \<subseteq> set (t_events (w_db w'))"
        by (auto dest: any_steps_extends extends_events)
      with a show "?post r w'" using genuine_mono by (auto simp del: subset_code(1))
    qed
    then show ?thesis using Some by simp
  qed
qed simp

text \<open>The breaker lets an attempt through: it is closed, or its open window has passed and this worker
  won the probe with the statement it runs after it loaded the endpoint.\<close>

definition let_through :: "dispatcher_config \<Rightarrow> endpoint \<Rightarrow> world \<Rightarrow> bool" where
  "let_through cfg ep w \<longleftrightarrow>
     (let now = an_now (answer_now w); w2 = (tick (tick w))\<lparr>w_db := seen (tick w)\<rparr> in
      gate_at ep now = Allow \<or>
      gate_at ep now = Probe \<and>
        (\<exists>db. try_acquire_probe (an_now (answer_now w2)) (ep_id ep) (probe_lease cfg) (seen w2) = Inr (True, db)))"

text \<open>What a delivery is taken through: only \<open>send_delivery\<close> sends, and only for an endpoint that is
  found, enabled and let through by the breaker.\<close>

lemma wp_process_one:
  fixes D :: deps and cfg :: dispatcher_config and v :: delivery and w :: world and Post :: "world \<Rightarrow> bool"
  defines "now \<equiv> an_now (answer_now w)"
  assumes same: "\<And>w1. w_sent w1 = w_sent w \<Longrightarrow> Post w1"
    and send: "\<And>ep w3. List.find (\<lambda>e. ep_id e = dl_endpoint_id v) (t_endpoints (seen (tick w))) = Some ep \<Longrightarrow>
      \<not> ep_disabled ep \<Longrightarrow> let_through cfg ep w \<Longrightarrow> w_sent w3 = w_sent w \<Longrightarrow> w_env w3 = w_env w \<Longrightarrow>
      wp (send_delivery D cfg worker v ep now) (\<lambda>r. Post) w3"
  shows "wp (process_one D cfg worker v) (\<lambda>r. Post) w"
proof -
  have quiet_end: "wp (await m (\<lambda>_. ok ())) (\<lambda>r. Post) w1" if "silent m" "w_sent w1 = w_sent w"
    for m :: "'z io" and w1
    by (rule wp_mono [OF silent_wp [OF silent_await [OF that(1) silent_basic(1)] that(2)]]) (rule same)
  show ?thesis
    unfolding process_one_def wp_basic now_def [symmetric]
  proof (rule wp_await_sql, goal_cases)
    case (2 found db')
    let ?w2 = "(tick (tick w))\<lparr>w_db := db'\<rparr>"
    show ?case
    proof (cases found)
      case None
      then show ?thesis using quiet_end [OF silent_basic(3), of ?w2] by (simp add: same)
    next
      case (Some ep)
      then have find: "List.find (\<lambda>e. ep_id e = dl_endpoint_id v) (t_endpoints (seen (tick w))) = Some ep"
        and db': "db' = seen (tick w)"
        using 2 by (auto simp: get_endpoint_def)
      have probe: "wp (await (sql (\<lambda>a. try_acquire_probe (an_now a) (ep_id ep) (probe_lease cfg))) (\<lambda>acquired.
          if acquired then send_delivery D cfg worker v ep now
          else await (sql (\<lambda>a. defer_delivery (an_now a) (dl_id v) worker
                        (now + cp_open_duration (dc_circuit cfg)))) (\<lambda>_. ok ()))) (\<lambda>r. Post) ?w2"
        if "\<not> ep_disabled ep" "gate_at ep now = Probe"
      proof (rule wp_await_sql, goal_cases)
        case (2 acquired db2)
        have "let_through cfg ep w" if acquired
          using \<open>gate_at ep now = Probe\<close> 2 that unfolding db' let_through_def Let_def now_def by auto
        then show ?case using that by (auto intro!: send [OF find] quiet_end silent_basic same)
      qed (rule same, simp)
      have allow: "let_through cfg ep w" if "gate_at ep now = Allow"
        using that by (simp add: let_through_def now_def)
      show ?thesis
        unfolding Some option.case
        using probe send [OF find _ allow, of ?w2] quiet_end [OF silent_basic(2), of ?w2]
        by (auto split: gate.split intro: same)
    qed
  qed (simp add: same)
qed

text \<open>C17. Processing a delivery sends at most one request, and only to the endpoint of the
  delivery as it is stored at that time, when that endpoint is enabled and its circuit breaker
  lets the attempt through: the breaker allows it, or it asks for a probe and this worker's
  probe statement took the probe. The request carries the stored event of the delivery,
  serialised, the delivery's idempotency key, and the signature headers computed with the
  endpoint's secret for the delivery id, the time and that body. The other tasks may do
  anything the system can do.\<close>

theorem requests_are_genuine:
  assumes "process_one D cfg worker v w = (r, w')" "env_ok (any_step ushow) w"
  shows "w_sent w' = w_sent w \<or>
    (let now = an_now (answer_now w); w2 = (tick (tick w))\<lparr>w_db := seen (tick w)\<rparr> in
     \<exists>ep rq ev headers body. w_sent w' = w_sent w @ [rq] \<and>
       List.find (\<lambda>e. ep_id e = dl_endpoint_id v) (t_endpoints (seen (tick w))) = Some ep \<and>
       \<not> ep_disabled ep \<and>
       (gate_at ep now = Allow \<or>
        gate_at ep now = Probe \<and>
          (\<exists>db. try_acquire_probe (an_now (answer_now w2)) (ep_id ep) (probe_lease cfg) (seen w2) = Inr (True, db))) \<and>
       ev \<in> set (t_events (w_db w')) \<and> ev_id ev = dl_event_id v \<and> dp_to_vec D (ev_payload ev) = Inr body \<and>
       signature_headers_for (dp_crypto D) (ep_secret ep) (dp_ushow D (dl_id v)) (now div 1000000) body = Inr headers \<and>
       rq = \<lparr>rq_url = ep_url ep,
             rq_headers = [(''content-type'', ''application/json''),
               (''idempotency-key'', dl_idempotency_key v), (''webhook-id'', sh_id headers),
               (''webhook-timestamp'', sh_timestamp headers), (''webhook-signature'', sh_signature headers),
               (''dropless-event-type'', ev_event_type ev)],
             rq_body = body\<rparr>)" (is "?post w'")
proof -
  let ?now = "an_now (answer_now w)"
  define Post where "Post = ?post"
  have "wp (process_one D cfg worker v) (\<lambda>r. Post) w"
  proof (rule wp_process_one)
    fix ep and w3 :: world
    assume ep: "List.find (\<lambda>e. ep_id e = dl_endpoint_id v) (t_endpoints (seen (tick w))) = Some ep"
      "\<not> ep_disabled ep" "let_through cfg ep w" "w_sent w3 = w_sent w" "w_env w3 = w_env w"
    have "env_ok (any_step ushow) w3" using assms(2) ep(5) env_ok_cong by blast
    from send_requests [OF this, of D cfg worker v ep ?now]
    show "wp (send_delivery D cfg worker v ep ?now) (\<lambda>r. Post) w3"
    proof (rule wp_mono)
      fix r :: "unit core_result" and w4 :: world
      assume "w_sent w4 = w_sent w3 \<or>
        (\<exists>rq. w_sent w4 = w_sent w3 @ [rq] \<and> genuine D v ep ?now (t_events (w_db w4)) rq)"
      then show "Post w4"
        using ep unfolding Post_def genuine_def webhook_request_def let_through_def Let_def by auto
    qed
  qed (simp add: Post_def)
  then show ?thesis using assms(1) unfolding Post_def by (rule wpD)
qed

text \<open>A reply with a NUL byte in its snippet cannot be recorded: the attempt fails with a database
  error and leaves the database as it was, so the delivery stays leased and is sent again.\<close>

lemma nul_reply_is_not_recorded:
  assumes "\<not> text_ok snip"
  shows "\<exists>e w'. succeed_delivery worker v ep n code snip t1 t2 w = (Inl e, w') \<and> w_db w' = seen w"
  using assms
  by (simp add: succeed_delivery_def with_tx_def await_def tsql_def record_attempt_def text_ok_opt_def invalid_text_def Let_def)

section \<open>Outcomes\<close>

definition leased_to :: "timestamp \<Rightarrow> string \<Rightarrow> uuid \<Rightarrow> db \<Rightarrow> bool" where
  "leased_to now worker did db \<longleftrightarrow> (\<exists>d\<in>set (t_deliveries db). dl_id d = did \<and> holds_lease now worker d)"

definition rewrite_delivery :: "uuid \<Rightarrow> (delivery \<Rightarrow> delivery) \<Rightarrow> delivery list \<Rightarrow> delivery list" where
  "rewrite_delivery did f rows = map (\<lambda>d. if dl_id d = did then f d else d) rows"

context lease_release
begin

lemma lease_update_eq:
  assumes "keys_ok db"
  shows "lease_update now did worker upd db =
    (if leased_to now worker did db
     then (1, db\<lparr>t_deliveries := rewrite_delivery did upd (t_deliveries db)\<rparr>) else (0, db))"
proof (cases "leased_to now worker did db")
  case True
  then obtain d where "d \<in> set (t_deliveries db)" "dl_id d = did" "holds_lease now worker d"
    by (auto simp: leased_to_def)
  with holder_writes [OF assms] True show ?thesis by (auto simp: rewrite_delivery_def)
next
  case False
  then show ?thesis using not_holder_no_write [of db did now worker] by (auto simp: leased_to_def)
qed

end

lemma record_attempt_keeps:
  assumes "record_attempt fresh did n c s er t1 t2 db = Inr (r, db1)"
  shows "keys_ok db \<Longrightarrow> keys_ok db1" "leased_to now worker did' db1 = leased_to now worker did' db"
    "t_deliveries db1 = t_deliveries db" "t_endpoints db1 = t_endpoints db" "t_dead_letters db1 = t_dead_letters db"
  using record_attempt_result [OF assms] record_attempt_keys [OF assms] by (simp_all add: leased_to_def)

lemma mark_dead_on_cases:
  assumes "mark_dead_on now fresh v worker er db = Inr (b, db')" "keys_ok db"
  shows "b = leased_to now worker (dl_id v) db"
    and "b \<Longrightarrow> db' = db\<lparr>t_deliveries := rewrite_delivery (dl_id v) (dead_row now er) (t_deliveries db),
      t_dead_letters := t_dead_letters db @ [\<lparr>dd_id = fresh, dd_delivery_id = dl_id v,
        dd_event_id = dl_event_id v, dd_endpoint_id = dl_endpoint_id v, dd_reason = er, dd_created_at = now\<rparr>]\<rparr>"
  using assms(1) dead_r.lease_update_eq [OF assms(2), of now "dl_id v" worker now er]
  by (auto simp: mark_dead_on_def unique_violation_def fk_violation_def Let_def split: if_splits)

text \<open>A handled \<open>fail\<close>, with the ids, the clock readings and the random draw it used.\<close>

definition settled_tx ::
  "deps \<Rightarrow> dispatcher_config \<Rightarrow> string \<Rightarrow> delivery \<Rightarrow> int \<Rightarrow> int option \<Rightarrow> string option \<Rightarrow> string \<Rightarrow>
   timestamp \<Rightarrow> timestamp \<Rightarrow> uuid \<Rightarrow> uuid \<Rightarrow> timestamp \<Rightarrow> (u64 \<Rightarrow> u64) \<Rightarrow> timestamp \<Rightarrow> bool \<Rightarrow> db \<Rightarrow> db \<Rightarrow> bool" where
  "settled_tx D cfg worker v n code snip er t1 t2 fresh fresh2 t g now applied db db2 \<longleftrightarrow>
     (\<exists>db1. record_attempt fresh (dl_id v) n code snip (Some er) t1 t2 db = Inr ((), db1) \<and>
        (if is_exhausted (dc_retry cfg) n
         then mark_dead_on now fresh2 v worker er db1 = Inr (applied, db2)
         else mark_failed now (dl_id v) worker n (t + retry_delay D cfg g n) er db1 = Inr (applied, db2)))"

lemma settled_tx_cases:
  assumes "settled_tx D cfg worker v n code snip er t1 t2 fresh fresh2 t g now b db db2" "keys_ok db"
  shows "b = leased_to now worker (dl_id v) db"
    and "b \<Longrightarrow> db2 = db\<lparr>
        t_attempts := t_attempts db @ [\<lparr>da_id = fresh, da_delivery_id = dl_id v, da_attempt_number = n,
          da_status_code = code, da_response_snippet = snip, da_error = Some er, da_started_at = t1, da_finished_at = t2\<rparr>],
        t_deliveries := rewrite_delivery (dl_id v)
          (if is_exhausted (dc_retry cfg) n then dead_row now er else failed_row now n (t + retry_delay D cfg g n) er) (t_deliveries db),
        t_dead_letters := t_dead_letters db @ (if is_exhausted (dc_retry cfg) n
          then [\<lparr>dd_id = fresh2, dd_delivery_id = dl_id v, dd_event_id = dl_event_id v,
                 dd_endpoint_id = dl_endpoint_id v, dd_reason = er, dd_created_at = now\<rparr>] else [])\<rparr>"
proof -
  let ?nxt = "t + retry_delay D cfg g n"
  obtain db1 where rec: "record_attempt fresh (dl_id v) n code snip (Some er) t1 t2 db = Inr ((), db1)"
    and rest: "if is_exhausted (dc_retry cfg) n then mark_dead_on now fresh2 v worker er db1 = Inr (b, db2)
         else mark_failed now (dl_id v) worker n ?nxt er db1 = Inr (b, db2)"
    using assms(1) by (auto simp only: settled_tx_def)
  note keep = record_attempt_keeps [OF rec] and res = record_attempt_result [OF rec]
  have k1: "keys_ok db1" using keep(1) assms(2) by blast
  note upd = failed_r.lease_update_eq [OF k1, of now "dl_id v" worker now n ?nxt er]
  show "b = leased_to now worker (dl_id v) db"
    using rest mark_dead_on_cases(1) [OF _ k1] upd keep(2) by (auto simp: mark_failed_def split: if_splits)
  assume b
  show "db2 = db\<lparr>
        t_attempts := t_attempts db @ [\<lparr>da_id = fresh, da_delivery_id = dl_id v, da_attempt_number = n,
          da_status_code = code, da_response_snippet = snip, da_error = Some er, da_started_at = t1, da_finished_at = t2\<rparr>],
        t_deliveries := rewrite_delivery (dl_id v)
          (if is_exhausted (dc_retry cfg) n then dead_row now er else failed_row now n (t + retry_delay D cfg g n) er) (t_deliveries db),
        t_dead_letters := t_dead_letters db @ (if is_exhausted (dc_retry cfg) n
          then [\<lparr>dd_id = fresh2, dd_delivery_id = dl_id v, dd_event_id = dl_event_id v,
                 dd_endpoint_id = dl_endpoint_id v, dd_reason = er, dd_created_at = now\<rparr>] else [])\<rparr>"
  proof (cases "is_exhausted (dc_retry cfg) n")
    case True
    then show ?thesis using mark_dead_on_cases(2) [OF _ k1 \<open>b\<close>, of now fresh2 v worker er db2] rest by (simp add: res)
  next
    case False
    with rest upd \<open>b\<close> have "db2 = db1\<lparr>t_deliveries := rewrite_delivery (dl_id v) (failed_row now n ?nxt er) (t_deliveries db1)\<rparr>"
      by (auto simp: mark_failed_def split: if_splits)
    with False show ?thesis by (simp add: res)
  qed
qed

lemma handled_end:
  assumes "w_tx w = Some (t, view)"
    and "(if \<not> applied then await rollback (\<lambda>_. ok ())
        else utc_now (\<lambda>t. let upd = on_failure ep policy t in
          await (tsql (\<lambda>a now. update_circuit now (ep_id ep) (cu_state upd) (cu_open_until upd)
                   (cu_consecutive_failures upd))) (\<lambda>_. await commit (\<lambda>_. ok ())))) w = (Inr (), w')"
  shows "if applied then circuit_tx ep (on_failure ep policy (an_now (answer_now w))) t view (w_db w') else w_db w' = w_db w"
proof (cases applied)
  case True
  let ?u = "on_failure ep policy (an_now (answer_now w))"
  from assms(2) True have "await (tsql (\<lambda>a now. update_circuit now (ep_id ep) (cu_state ?u) (cu_open_until ?u)
      (cu_consecutive_failures ?u))) (\<lambda>_. await commit (\<lambda>_. ok ())) (tick w) = (Inr (), w')"
    by (simp add: utc_now_def Let_def)
  then obtain x w1 where up: "tsql (\<lambda>a now. update_circuit now (ep_id ep) (cu_state ?u) (cu_open_until ?u)
      (cu_consecutive_failures ?u)) (tick w) = (Inr x, w1)" and fin: "await commit (\<lambda>_. ok ()) w1 = (Inr (), w')"
    by (rule await_okE)
  from assms(1) have "w_tx (tick w) = Some (t, view)" by simp
  from tsql_okE [OF up this] obtain view' where
    v: "circuit_tx ep ?u t view view'" "w1 = (tick (tick w))\<lparr>w_tx := Some (t, view')\<rparr>"
    unfolding circuit_tx_def by (metis (full_types) old.unit.exhaust)
  from fin obtain y where "commit w1 = (Inr y, w')" by (auto simp: ok_def elim!: await_okE)
  from commit_okD [OF this, of t view'] v True show ?thesis by simp
next
  case False
  then show ?thesis using assms(2) by (auto simp: ok_def dest!: rollback_okD elim!: await_okE)
qed

lemma fail_handled:
  assumes "fail_delivery D cfg worker v ep n code snip er t1 t2 w = (Inr (), w')"
  defines "ans \<equiv> (\<lambda>k. w_env w (w_pos w + k))" and "now \<equiv> an_now (answer_now w)"
  obtains applied db2 where
    "settled_tx D cfg worker v n code snip er t1 t2 (an_uuid (ans 1)) (an_uuid (ans 2)) (an_now (ans 2)) (an_rand (ans 3))
       now applied (seen w) db2"
    "if applied then circuit_tx ep (on_failure ep (dc_circuit cfg)
         (an_now (ans (if is_exhausted (dc_retry cfg) n then 3 else 5)))) now db2 (w_db w')
     else w_db w' = seen w"
proof -
  let ?dead = "is_exhausted (dc_retry cfg) n"
  let ?mark = "if ?dead then tsql (\<lambda>a now. mark_dead_on now (an_uuid a) v worker er)
     else utc_now (\<lambda>t. draw (\<lambda>gen_range.
       tsql (\<lambda>a now. mark_failed now (dl_id v) worker n (t + retry_delay D cfg gen_range n) er)))"
  let ?fin = "\<lambda>applied. if \<not> applied then await rollback (\<lambda>_. ok ())
        else utc_now (\<lambda>t. let upd = on_failure ep (dc_circuit cfg) t in
          await (tsql (\<lambda>a now. update_circuit now (ep_id ep) (cu_state upd) (cu_open_until upd)
                   (cu_consecutive_failures upd))) (\<lambda>_. await commit (\<lambda>_. ok ())))"
  let ?w0 = "(tick w)\<lparr>w_db := seen w, w_tx := Some (now, seen w)\<rparr>"
  from assms(1) obtain w5 where body: "await (tsql (\<lambda>a now. record_attempt (an_uuid a) (dl_id v) n code snip (Some er) t1 t2))
      (\<lambda>_. await ?mark ?fin) ?w0 = (Inr (), w5)" and w': "w' = w5\<lparr>w_tx := None\<rparr>"
    unfolding fail_delivery_def Let_def now_def by (rule with_tx_okE)
  from body obtain x w1 where r: "tsql (\<lambda>a now. record_attempt (an_uuid a) (dl_id v) n code snip (Some er) t1 t2) ?w0 = (Inr x, w1)"
    and rest: "await ?mark ?fin w1 = (Inr (), w5)" by (rule await_okE)
  obtain db1 where rec: "record_attempt (an_uuid (ans 1)) (dl_id v) n code snip (Some er) t1 t2 (seen w) = Inr ((), db1)"
    and w1: "w1 = (tick ?w0)\<lparr>w_tx := Some (now, db1)\<rparr>"
    using tsql_okE [OF r, of now "seen w"] by (auto simp: ans_def answer_now_def)
  from rest obtain applied w2 where m: "?mark w1 = (Inr applied, w2)" and e: "?fin applied w2 = (Inr (), w5)" by (rule await_okE)
  have "\<exists>db2. settled_tx D cfg worker v n code snip er t1 t2 (an_uuid (ans 1)) (an_uuid (ans 2)) (an_now (ans 2)) (an_rand (ans 3))
       now applied (seen w) db2 \<and> w_tx w2 = Some (now, db2) \<and> w_db w2 = seen w \<and>
       answer_now w2 = ans (if ?dead then 3 else 5)"
  proof (cases ?dead)
    case True
    with m have "tsql (\<lambda>a now. mark_dead_on now (an_uuid a) v worker er) w1 = (Inr applied, w2)" by simp
    then obtain db2 where "mark_dead_on now (an_uuid (ans 2)) v worker er db1 = Inr (applied, db2)"
      "w2 = (tick w1)\<lparr>w_tx := Some (now, db2)\<rparr>"
      by (rule tsql_okE [of _ _ _ _ now db1]) (simp_all add: w1 ans_def answer_now_def)
    with True rec show ?thesis by (auto simp: settled_tx_def w1 ans_def answer_now_def numeral_3_eq_3)
  next
    case False
    with m have "tsql (\<lambda>a now. mark_failed now (dl_id v) worker n (an_now (ans 2) + retry_delay D cfg (an_rand (ans 3)) n) er)
        (tick (tick w1)) = (Inr applied, w2)"
      by (simp add: utc_now_def draw_def w1 ans_def answer_now_def numeral_3_eq_3)
    then obtain db2 where "mark_failed now (dl_id v) worker n (an_now (ans 2) + retry_delay D cfg (an_rand (ans 3)) n) er db1 = Inr (applied, db2)"
      "w2 = (tick (tick (tick w1)))\<lparr>w_tx := Some (now, db2)\<rparr>"
      by (rule tsql_okE [of _ _ _ _ now db1]) (simp_all add: w1)
    with False rec show ?thesis by (auto simp: settled_tx_def w1 ans_def answer_now_def numeral_eq_Suc)
  qed
  then obtain db2 where db2: "settled_tx D cfg worker v n code snip er t1 t2 (an_uuid (ans 1)) (an_uuid (ans 2)) (an_now (ans 2))
      (an_rand (ans 3)) now applied (seen w) db2" "w_tx w2 = Some (now, db2)" "w_db w2 = seen w"
      "answer_now w2 = ans (if ?dead then 3 else 5)" by blast
  have "w_db w' = w_db w5" using w' by simp
  with handled_end [OF db2(2) e] show ?thesis
    by (intro that [OF db2(1)]) (simp only: db2(3,4))
qed

text \<open>C18. A failed attempt that is reported as handled (the result is \<open>Ok\<close>), on a database whose
  ids are unique, is handled completely. If the worker still held its lease when the transaction
  began, one attempt row with the status, the snippet and the error is added; the delivery is dead
  with a dead letter when the attempts are exhausted, and otherwise failed with its next attempt
  at the time the clock showed after the attempt was recorded plus the backoff drawn next; and
  the circuit breaker of the endpoint counts the failure at the time the clock showed after the
  delivery was settled. If the lease was lost, nothing at all is written.\<close>

theorem failed_attempt_outcome:
  assumes "fail_delivery D cfg worker v ep n code snip er t1 t2 w = (Inr (), w')" "keys_ok (seen w)"
  shows "let db = seen w; now = an_now (answer_now w); dead = is_exhausted (dc_retry cfg) n;
      ans = (\<lambda>k. w_env w (w_pos w + k)) in
    w_db w' = (if leased_to now worker (dl_id v) db
    then db\<lparr>
        t_attempts := t_attempts db @ [\<lparr>da_id = an_uuid (ans 1), da_delivery_id = dl_id v, da_attempt_number = n,
          da_status_code = code, da_response_snippet = snip, da_error = Some er, da_started_at = t1, da_finished_at = t2\<rparr>],
        t_deliveries := rewrite_delivery (dl_id v)
          (if dead then dead_row now er
           else failed_row now n (an_now (ans 2) + retry_delay D cfg (an_rand (ans 3)) n) er) (t_deliveries db),
        t_dead_letters := t_dead_letters db @ (if dead
          then [\<lparr>dd_id = an_uuid (ans 2), dd_delivery_id = dl_id v, dd_event_id = dl_event_id v,
                 dd_endpoint_id = dl_endpoint_id v, dd_reason = er, dd_created_at = now\<rparr>] else []),
        t_endpoints := update_where (\<lambda>e. ep_id e = ep_id ep)
          (apply_circuit_update now (on_failure ep (dc_circuit cfg) (an_now (ans (if dead then 3 else 5)))))
          (t_endpoints db)\<rparr>
    else db)"
proof -
  let ?now = "an_now (answer_now w)" and ?ans = "\<lambda>k. w_env w (w_pos w + k)"
  let ?u = "on_failure ep (dc_circuit cfg) (an_now (?ans (if is_exhausted (dc_retry cfg) n then 3 else 5)))"
  obtain applied db2 where
    s: "settled_tx D cfg worker v n code snip er t1 t2 (an_uuid (?ans 1)) (an_uuid (?ans 2)) (an_now (?ans 2)) (an_rand (?ans 3))
       ?now applied (seen w) db2" and
    e: "if applied then circuit_tx ep ?u ?now db2 (w_db w') else w_db w' = seen w"
    using assms(1) by (rule fail_handled)
  note cases = settled_tx_cases [OF s assms(2)]
  show ?thesis
  proof (cases applied)
    case True
    have "w_db w' = db2\<lparr>t_endpoints := update_where (\<lambda>e. ep_id e = ep_id ep) (apply_circuit_update ?now ?u) (t_endpoints db2)\<rparr>"
      using e True by (simp add: circuit_tx_def update_circuit_def apply_circuit_update_def [abs_def])
    then show ?thesis using cases(1) cases(2) [OF True] True by (simp add: Let_def)
  next
    case False
    then show ?thesis using cases(1) e by (simp add: Let_def)
  qed
qed

text \<open>C19. A successful attempt that is reported as handled (the result is \<open>Ok\<close>), on a database
  whose ids are unique: if the worker still held its lease,
  one attempt row with the status code is added, the delivery is succeeded and unlocked, and
  the circuit breaker of the endpoint is closed; if the lease was lost, nothing is written.\<close>

theorem successful_attempt_outcome:
  assumes "succeed_delivery worker v ep n code snip t1 t2 w = (Inr (), w')" "keys_ok (seen w)"
  shows "let db = seen w; now = an_now (answer_now w) in
    if leased_to now worker (dl_id v) db
    then \<exists>fresh. w_db w' = db\<lparr>
        t_attempts := t_attempts db @ [\<lparr>da_id = fresh, da_delivery_id = dl_id v, da_attempt_number = n,
          da_status_code = Some code, da_response_snippet = Some snip, da_error = None, da_started_at = t1,
          da_finished_at = t2\<rparr>],
        t_deliveries := rewrite_delivery (dl_id v) (succeeded_row now n) (t_deliveries db),
        t_endpoints := update_where (\<lambda>e. ep_id e = ep_id ep) (set_circuit now ''closed'' None 0) (t_endpoints db)\<rparr>
    else w_db w' = db"
proof -
  let ?now = "an_now (answer_now w)"
  have "success_outcome worker v ep n code snip t1 t2 ?now (seen w) (Inr ()) (w_db w')"
    using succeed_post [OF assms(1)] by blast
  then obtain fresh db1 db2 b where
    rec: "record_attempt fresh (dl_id v) n (Some code) (Some snip) None t1 t2 (seen w) = Inr ((), db1)" and
    ms: "mark_succeeded ?now (dl_id v) worker n db1 = Inr (b, db2)" and
    fin: "if b then circuit_tx ep on_success ?now db2 (w_db w') else w_db w' = seen w"
    unfolding success_outcome_def Let_def by (simp only: sum.disc simp_thms) (metis (full_types))
  note keep = record_attempt_keeps [OF rec]
  have k1: "keys_ok db1" using keep(1) assms(2) by blast
  have "lease_update ?now (dl_id v) worker (succeeded_row ?now n) db1 =
    (if leased_to ?now worker (dl_id v) (seen w)
     then (1, db1\<lparr>t_deliveries := rewrite_delivery (dl_id v) (succeeded_row ?now n) (t_deliveries db1)\<rparr>) else (0, db1))"
    using succeeded_r.lease_update_eq [OF k1] keep(2) by simp
  then have b: "b = leased_to ?now worker (dl_id v) (seen w)"
    and db2: "b \<Longrightarrow> db2 = db1\<lparr>t_deliveries := rewrite_delivery (dl_id v) (succeeded_row ?now n) (t_deliveries db1)\<rparr>"
    using ms by (auto simp: mark_succeeded_def split: if_splits)
  show ?thesis
  proof (cases b)
    case True
    then have "w_db w' = db2\<lparr>t_endpoints := update_where (\<lambda>e. ep_id e = ep_id ep)
        (set_circuit ?now ''closed'' None 0) (t_endpoints db2)\<rparr>"
      using fin by (auto simp: circuit_tx_def update_circuit_def on_success_def)
    then show ?thesis
      unfolding Let_def if_P [OF True [unfolded b]] using db2 [OF True] record_attempt_result [OF rec] by force
  next
    case False
    then show ?thesis using fin b by (simp add: Let_def)
  qed
qed

section \<open>Shutdown\<close>

text \<open>Every program only moves forward through the answers of its environment.\<close>

definition forward :: "'a io \<Rightarrow> bool" where
  "forward m \<longleftrightarrow> (\<forall>w. w_pos w \<le> w_pos (snd (m w)) \<and> w_env (snd (m w)) = w_env w)"

named_theorems forward_intro "programs that move forward"

lemma forwardD: "forward m \<Longrightarrow> m w = (r, w') \<Longrightarrow> w_pos w \<le> w_pos w' \<and> w_env w' = w_env w"
  unfolding forward_def by (metis snd_conv)

lemma forward_basic [forward_intro]:
  "forward (ok x)" "forward (sql f)" "forward (tsql g)" "forward commit" "forward rollback"
  by (auto simp: forward_def ok_def sql_def tsql_def commit_def rollback_def Let_def
      split: fault.split sum.split option.split)

lemma forward_await [forward_intro]:
  assumes "forward m" "\<And>x. forward (k x)"
  shows "forward (await m k)"
  unfolding forward_def
proof
  fix w
  obtain r w1 where m: "m w = (r, w1)" by (cases "m w")
  note f1 = forwardD [OF assms(1) m]
  show "w_pos w \<le> w_pos (snd (await m k w)) \<and> w_env (snd (await m k w)) = w_env w"
  proof (cases r)
    case (Inr x)
    obtain r2 w2 where k: "k x w1 = (r2, w2)" by (cases "k x w1")
    from forwardD [OF assms(2) k] f1 Inr m k show ?thesis by (simp add: await_def)
  qed (use f1 m in \<open>simp add: await_def\<close>)
qed

lemma forward_try_await [forward_intro]:
  assumes "forward m" "\<And>x. forward (k x)"
  shows "forward (try_await m k)"
  unfolding forward_def
proof
  fix w
  obtain r w1 where m: "m w = (r, w1)" by (cases "m w")
  obtain r2 w2 where k: "k r w1 = (r2, w2)" by (cases "k r w1")
  from forwardD [OF assms(1) m] forwardD [OF assms(2) k] m k
  show "w_pos w \<le> w_pos (snd (try_await m k w)) \<and> w_env (snd (try_await m k w)) = w_env w"
    by (simp add: try_await_def)
qed

lemma forward_via:
  assumes "\<And>w. \<exists>k w1. m w = k w1 \<and> forward k \<and> w_pos w \<le> w_pos w1 \<and> w_env w1 = w_env w"
  shows "forward m"
  unfolding forward_def
proof
  fix w
  from assms obtain k w1 where k: "m w = k w1" "forward k" "w_pos w \<le> w_pos w1" "w_env w1 = w_env w" by blast
  from k(2) have "w_pos w1 \<le> w_pos (snd (k w1)) \<and> w_env (snd (k w1)) = w_env w1" by (simp add: forward_def)
  with k show "w_pos w \<le> w_pos (snd (m w)) \<and> w_env (snd (m w)) = w_env w" by simp
qed

lemma forward_reads [forward_intro]:
  "(\<And>x. forward (k1 x)) \<Longrightarrow> forward (utc_now k1)"
  "(\<And>x. forward (k2 x)) \<Longrightarrow> forward (now_v7 k2)"
  "(\<And>x. forward (k3 x)) \<Longrightarrow> forward (draw k3)"
  "(\<And>x. forward (k4 x)) \<Longrightarrow> forward (read_flag k4)"
  "(\<And>x. forward (k5 x)) \<Longrightarrow> forward (http_send rq k5)"
  "forward m \<Longrightarrow> forward (pause m)"
  unfolding utc_now_def [abs_def] now_v7_def [abs_def] draw_def [abs_def] read_flag_def [abs_def]
    http_send_def [abs_def] pause_def [abs_def]
  by (rule forward_via, intro exI conjI, rule refl; simp)+

lemma forward_with_tx [forward_intro]:
  assumes "forward m"
  shows "forward (with_tx m)"
  unfolding forward_def
proof
  fix w
  let ?w1 = "(tick w)\<lparr>w_db := seen w, w_tx := Some (an_now (answer_now w), seen w)\<rparr>"
  obtain r w2 where m: "m ?w1 = (r, w2)" by (cases "m ?w1")
  from forwardD [OF assms m] m
  show "w_pos w \<le> w_pos (snd (with_tx m w)) \<and> w_env (snd (with_tx m w)) = w_env w"
    by (simp add: with_tx_def Let_def)
qed

lemma forward_programs [forward_intro]:
  "forward (mark_dead v worker reason)"
  "forward (fail_delivery D cfg worker v ep n c sn er t1 t2)"
  "forward (succeed_delivery worker v ep n c' sn' t1 t2)"
  unfolding mark_dead_def fail_delivery_def succeed_delivery_def Let_def
  by (intro forward_intro; auto intro!: forward_intro)+

lemma forward_process_one [forward_intro]: "forward (process_one D cfg worker v)"
  unfolding process_one_def send_delivery_def attempt_delivery_def Let_def
  by (intro forward_intro)
    (auto split: option.split gate.split sum.split http_result.split intro!: forward_intro)

lemma process_batch_runs: "\<exists>w'. process_batch D cfg worker vs w = (Inr (), w') \<and> w_pos w \<le> w_pos w' \<and> w_env w' = w_env w"
proof (induction vs arbitrary: w)
  case Nil
  then show ?case by (simp add: ok_def)
next
  case (Cons v vs)
  obtain r w1 where p: "process_one D cfg worker v (tick w) = (r, w1)" by (cases "process_one D cfg worker v (tick w)")
  from forwardD [OF forward_process_one p] Cons [of w1] p show ?case
    by (auto simp: read_flag_def ok_def try_await_def)
qed

lemma worker_turn_runs:
  "\<exists>w'. worker_turn D cfg worker w = (Inr (\<not> an_flag (answer_now w)), w') \<and> w_pos w < w_pos w' \<and> w_env w' = w_env w"
proof (cases "an_flag (answer_now w)")
  case True
  then show ?thesis by (simp add: worker_turn_def read_flag_def ok_def)
next
  case False
  obtain r w1 where c: "sql (\<lambda>a. claim_due_deliveries (an_now a) (an_locked a) worker (dc_batch_size cfg)
      (dc_lock_secs cfg)) (tick w) = (r, w1)" by (rule prod.exhaust)
  note f = forwardD [OF forward_basic(2) c]
  show ?thesis
  proof (cases r)
    case (Inr rows)
    obtain w2 where "process_batch D cfg worker rows w1 = (Inr (), w2)" "w_pos w1 \<le> w_pos w2" "w_env w2 = w_env w1"
      using process_batch_runs by metis
    with c f False Inr show ?thesis
      by (auto simp: worker_turn_def read_flag_def ok_def try_await_def pause_def await_def)
  qed (use c f False in \<open>auto simp: worker_turn_def read_flag_def ok_def try_await_def pause_def\<close>)
qed

lemma run_worker_more_fuel:
  "run_worker n D cfg worker w = (Inr True, w') \<Longrightarrow> n \<le> m \<Longrightarrow> run_worker m D cfg worker w = (Inr True, w')"
proof (induction n arbitrary: w m)
  case 0
  then show ?case by (simp add: ok_def)
next
  case (Suc n)
  then obtain m' where m: "m = Suc m'" "n \<le> m'" by (cases m) auto
  obtain b w1 where t: "worker_turn D cfg worker w = (Inr b, w1)" using worker_turn_runs by metis
  show ?case
  proof (cases b)
    case True
    then show ?thesis using Suc.prems(1) Suc.IH [of w1 m'] m t by (simp add: await_def)
  next
    case False
    then show ?thesis using Suc.prems(1) m t by (simp add: await_def)
  qed
qed

text \<open>Graceful shutdown: once the shutdown flag is raised for good, the worker loop ends; it
  takes at most one more turn than there are interactions before that point, whatever the
  database, the receivers and the other tasks do.\<close>

theorem worker_stops_after_shutdown:
  assumes "\<And>n. N \<le> n \<Longrightarrow> an_flag (w_env w n)"
  shows "\<exists>w'. run_worker (Suc (N - w_pos w)) D cfg worker w = (Inr True, w')"
  using assms
proof (induction "N - w_pos w" arbitrary: w rule: less_induct)
  case less
  obtain w1 where t: "worker_turn D cfg worker w = (Inr (\<not> an_flag (answer_now w)), w1)"
    "w_pos w < w_pos w1" "w_env w1 = w_env w" using worker_turn_runs by metis
  show ?case
  proof (cases "an_flag (answer_now w)")
    case True
    with t(1) show ?thesis by (simp add: await_def ok_def)
  next
    case False
    then have "w_pos w < N" using less.prems [of "w_pos w"] by (force simp: answer_now_def)
    then have shorter: "N - w_pos w1 < N - w_pos w" using t(2) by simp
    have "an_flag (w_env w1 n)" if "N \<le> n" for n using less.prems [OF that] t(3) by simp
    then obtain w' where "run_worker (Suc (N - w_pos w1)) D cfg worker w1 = (Inr True, w')"
      using less.hyps [OF shorter] by blast
    then have "run_worker (N - w_pos w) D cfg worker w1 = (Inr True, w')"
      by (rule run_worker_more_fuel [OF _ Suc_leI [OF shorter]])
    with t(1) False show ?thesis by (simp add: await_def)
  qed
qed

section \<open>Witnesses\<close>

text \<open>The delivery of the run in theory \<open>Queue\<close>, processed by the worker that claimed it, in a
  quiet environment whose receiver answers with the given reply.\<close>

definition deps0 :: deps where
  "deps0 = \<lparr>dp_ushow = ushow0, dp_crypto = toy_crypto, dp_to_vec = (\<lambda>_. Inr [110]),
     dp_from_std = (\<lambda>d. Some (int (d div 1000))), dp_sqlx_text = (\<lambda>_. ''db'')\<rparr>"

definition row0 :: delivery where
  "row0 = claim_row 10 ''worker-0'' 30 (new_delivery ushow0 5 1 3 7 ''t1'')"

definition world_c :: "http_result \<Rightarrow> world" where
  "world_c reply = quiet_world 11 reply db_c"

lemma quiet_env_ok [simp]: "env_ok R (quiet_world t reply db)"
  by (simp add: env_ok_def quiet_world_def quiet_def)

lemma row0_simps [simp]:
  "dl_id row0 = 1" "dl_event_id row0 = 3" "dl_endpoint_id row0 = 7" "dl_attempt_count row0 = 0"
  "dl_locked_by row0 = Some ''worker-0''" "dl_locked_until row0 = Some 30000010"
  "dl_idempotency_key row0 = ushow0 1"
  by (simp_all add: row0_def claim_row_def new_delivery_def seconds_def)

lemma db_c_tables [simp]:
  "t_deliveries db_c = [row0]" "t_events db_c = [event0]" "t_endpoints db_c = [sample_endpoint]"
  "t_attempts db_c = []" "t_dead_letters db_c = []"
  by (simp_all add: db_c_eq row0_def db_b_def db_a_eq empty_db_def)

lemma keys_c [simp]: "keys_ok db_c"
  using run_keys [OF run_abc] by simp

lemma sample_endpoint_simps [simp]:
  "ep_id sample_endpoint = 7" "ep_disabled sample_endpoint = False" "ep_url sample_endpoint = ''http://x''"
  "ep_circuit_state sample_endpoint = ''closed''" "ep_consecutive_failures sample_endpoint = 0"
  by (simp_all add: sample_endpoint_def)

lemma sign0: "\<exists>h. signature_headers_for toy_crypto sec i t body = Inr h"
  by (simp add: signature_headers_for_def sign_def)

theorem worker_commits_only_system_steps_witness:
  "\<exists>bs. run ushow0 bs empty_db
     (w_db (snd (run_worker 3 deps0 dispatcher_config_default ''worker-1'' (world_c (Response 200 None)))))"
proof -
  have "run ushow0 [Manage, Enqueue 3, Claim 10 ''worker-0''] empty_db (w_db (world_c (Response 200 None)))"
    using run_abc by (simp add: world_c_def quiet_world_def)
  from worker_commits_only_system_steps [OF _ this, of 3 deps0 dispatcher_config_default "''worker-1''"]
  show ?thesis by (metis prod.collapse quiet_env_ok world_c_def)
qed

theorem worker_stops_after_shutdown_witness:
  "\<exists>w'. run_worker 1 deps0 dispatcher_config_default ''worker-1''
     ((world_c (Response 200 None))\<lparr>w_env := \<lambda>n. (quiet 11 (Response 200 None) n)\<lparr>an_flag := True\<rparr>\<rparr>) = (Inr True, w')"
  using worker_stops_after_shutdown [of 0
      "(world_c (Response 200 None))\<lparr>w_env := \<lambda>n. (quiet 11 (Response 200 None) n)\<lparr>an_flag := True\<rparr>\<rparr>"
      deps0 dispatcher_config_default "''worker-1''"]
  by (simp del: run_worker.simps)

lemma process0_sends:
  "w_sent (snd (process_one deps0 dispatcher_config_default ''worker-0'' row0 (world_c (Response 200 None)))) \<noteq> []"
proof -
  obtain h where "signature_headers_for toy_crypto (ep_secret sample_endpoint) (ushow0 1) 0 [110] = Inr h"
    using sign0 by blast
  then show ?thesis
    by (simp add: process_one_def send_delivery_def attempt_delivery_def succeed_delivery_def world_c_def
        run_defs get_endpoint_def get_event_def gate_at_def deps0_def event0_def is_success_def
        record_attempt_def text_ok_opt_def text_ok_def mark_succeeded_def lease_update_def update_circuit_def split: if_splits sum.splits)
qed

theorem requests_are_genuine_witness:
  "\<exists>rq. w_sent (snd (process_one deps0 dispatcher_config_default ''worker-0'' row0 (world_c (Response 200 None)))) = [rq]
     \<and> rq_url rq = ''http://x'' \<and> (''idempotency-key'', ushow0 1) \<in> set (rq_headers rq)"
proof -
  let ?w = "world_c (Response 200 None)"
  have "w_sent ?w = []" "seen (tick ?w) = db_c" by (simp_all add: world_c_def run_defs)
  then show ?thesis
    using requests_are_genuine [OF surjective_pairing, of ushow0 ?w deps0 dispatcher_config_default "''worker-0''" row0]
      process0_sends by (auto simp: world_c_def Let_def)
qed

definition world_fail :: world where
  "world_fail = snd (fail_delivery deps0 dispatcher_config_default ''worker-0'' row0 sample_endpoint 1 (Some 500)
     (Some ''no'') ''non-2xx status 500'' 11 11 (world_c (Response 500 None)))"

lemma fail0:
  "fail_delivery deps0 dispatcher_config_default ''worker-0'' row0 sample_endpoint 1 (Some 500) (Some ''no'')
     ''non-2xx status 500'' 11 11 (world_c (Response 500 None)) = (Inr (), world_fail)"
  unfolding world_fail_def
  by (simp add: fail_delivery_def world_c_def run_defs is_exhausted_def dispatcher_config_default_def
      retry_policy_default_def record_attempt_def text_ok_opt_def text_ok_def mark_failed_def lease_update_def holds_lease_def rows_affected_def
      update_circuit_def)

lemma leased0: "leased_to 11 ''worker-0'' 1 db_c"
  by (simp add: leased_to_def holds_lease_def)

theorem failed_attempt_outcome_witness:
  "map dl_status (t_deliveries (w_db world_fail)) = [''failed''] \<and> length (t_attempts (w_db world_fail)) = 1"
proof -
  have "seen (world_c (Response 500 None)) = db_c" "an_now (answer_now (world_c (Response 500 None))) = 11"
    by (simp_all add: world_c_def run_defs)
  moreover have "\<not> is_exhausted (dc_retry dispatcher_config_default) 1"
    by (simp add: is_exhausted_def dispatcher_config_default_def retry_policy_default_def)
  ultimately show ?thesis
    using failed_attempt_outcome [OF fail0] leased0
    by (auto simp: Let_def rewrite_delivery_def failed_row_def)
qed

definition world_ok :: world where
  "world_ok = snd (succeed_delivery ''worker-0'' row0 sample_endpoint 1 200 '''' 11 11 (world_c (Response 200 None)))"

lemma succeed0:
  "succeed_delivery ''worker-0'' row0 sample_endpoint 1 200 '''' 11 11 (world_c (Response 200 None)) = (Inr (), world_ok)"
  unfolding world_ok_def
  by (simp add: succeed_delivery_def world_c_def run_defs record_attempt_def text_ok_opt_def text_ok_def mark_succeeded_def lease_update_def
      holds_lease_def rows_affected_def update_circuit_def)

theorem successful_attempt_outcome_witness:
  "map dl_status (t_deliveries (w_db world_ok)) = [''succeeded''] \<and> length (t_attempts (w_db world_ok)) = 1"
proof -
  have "seen (world_c (Response 200 None)) = db_c" "an_now (answer_now (world_c (Response 200 None))) = 11"
    by (simp_all add: world_c_def run_defs)
  then show ?thesis
    using successful_attempt_outcome [OF succeed0] leased0
    by (auto simp: Let_def rewrite_delivery_def succeeded_row_def)
qed

end
