(* ===== verification/Columns.thy ===== *)
theory Columns
  imports Queue
begin

text \<open>
  What the text and number columns hold. \<open>model.rs\<close> stores statuses, circuit states and
  providers as text and parses them on use (\<open>Delivery::status\<close>, \<open>Provider::from_str\<close>, the
  \<open>match\<close> of \<open>circuit::gate\<close>), and the schema links rows by id. The theorem: in every
  reachable database all of these columns are well typed, so the error branches of the parsers
  and the catch-all of the gate are never taken.
\<close>

definition circuit_columns :: "endpoint \<Rightarrow> bool" where
  "circuit_columns p \<longleftrightarrow>
     (ep_circuit_state p = ''closed'' \<and> ep_circuit_open_until p = None \<or>
      ep_circuit_state p \<in> {''open'', ''half_open''} \<and> ep_circuit_open_until p \<noteq> None) \<and>
     is_i32 (ep_consecutive_failures p)"

lemma circuit_columns_written:
  "circuit_columns (set_circuit now (cu_state on_success) (cu_open_until on_success)
     (cu_consecutive_failures on_success) p)"
  "circuit_columns (set_circuit now (cu_state (on_failure q pol t)) (cu_open_until (on_failure q pol t))
     (cu_consecutive_failures (on_failure q pol t)) p)"
  by (simp_all add: circuit_columns_def on_success_def on_failure_def Let_def is_i32_def i32_saturating_add_def
      int_width_defs)

lemma circuit_columns_rows [simp]:
  "circuit_columns p \<Longrightarrow> circuit_columns (half_open_row now l p)"
  "circuit_columns (patch_endpoint now url dis tys p) \<longleftrightarrow> circuit_columns p"
  by (simp_all add: circuit_columns_def half_open_row_def patch_endpoint_def)

definition circuits_ok :: "db \<Rightarrow> bool" where
  "circuits_ok db \<longleftrightarrow> (\<forall>p\<in>set (t_endpoints db). circuit_columns p)"

definition providers_ok :: "db \<Rightarrow> bool" where
  "providers_ok db \<longleftrightarrow> (\<forall>s\<in>set (t_sources db). is_provider s \<in> range provider_as_str)"

definition references_ok :: "db \<Rightarrow> bool" where
  "references_ok db \<longleftrightarrow>
     da_delivery_id ` set (t_attempts db) \<subseteq> dl_id ` set (t_deliveries db) \<and>
     dd_delivery_id ` set (t_dead_letters db) \<subseteq> dl_id ` set (t_deliveries db) \<and>
     ie_source_id ` set (t_inbound db) \<subseteq> is_id ` set (t_sources db)"

section \<open>Circuit columns\<close>

lemma circuits_ok_cong: "t_endpoints db' = t_endpoints db \<Longrightarrow> circuits_ok db \<Longrightarrow> circuits_ok db'"
  by (simp add: circuits_ok_def)

lemma circuits_ok_rewrite:
  "t_endpoints db' = update_where P f (t_endpoints db) \<Longrightarrow> (\<And>p. circuit_columns p \<Longrightarrow> circuit_columns (f p)) \<Longrightarrow>
   circuits_ok db \<Longrightarrow> circuits_ok db'"
  by (auto simp: circuits_ok_def set_update_where)

lemma lease_update_endpoints: "lease_update now did w f db = (k, db') \<Longrightarrow> t_endpoints db' = t_endpoints db"
  by (auto simp: lease_update_def Let_def)

lemma circuits_ok_settled:
  assumes "t_endpoints db2 = t_endpoints db" "circuits_ok db" "u = on_success \<or> (\<exists>p pol t. u = on_failure p pol t)"
    and "update_circuit now pid (cu_state u) (cu_open_until u) (cu_consecutive_failures u) db2 = Inr (r, db')"
  shows "circuits_ok db'"
proof -
  have "circuit_columns (set_circuit now (cu_state u) (cu_open_until u) (cu_consecutive_failures u) p)" for p
    using assms(3) circuit_columns_written by auto
  then show ?thesis
    using assms(2) update_circuit_result [OF assms(4)] assms(1) by (auto simp: circuits_ok_def set_update_where)
qed

lemma accept_endpoints:
  assumes "insert_inbound_event now iid s t sid ty raw db = Inr (x, db1)"
    and "enqueued ushow now eid dids t c ty payload db1 db2" "link_inbound_event iid eid db2 = Inr ((), db')"
  shows "t_endpoints db' = t_endpoints db" "t_sources db' = t_sources db" "t_attempts db' = t_attempts db"
    "t_dead_letters db' = t_dead_letters db" "ie_source_id ` set (t_inbound db') \<subseteq> insert s (ie_source_id ` set (t_inbound db))"
    "x = Some iid \<Longrightarrow> s \<in> is_id ` set (t_sources db)"
  using enqueued_result [OF assms(2)] assms(1,3)
  by (auto simp: insert_inbound_event_def unique_violation_def fk_violation_def link_inbound_event_def Let_def
      set_update_where split: if_splits)

lemma step_circuits:
  assumes "db_step ushow a db db'" "circuits_ok db"
  shows "circuits_ok db'"
  using assms
proof (induction rule: db_step.induct)
  case (enqueue db tenant consumer now eid dids ty payload db')
  then show ?case using enqueued_result [OF enqueue.hyps(2)] by (auto intro: circuits_ok_cong)
next
  case (accept now iid src sid ty raw db db1 eid dids payload db2 db')
  show ?case by (rule circuits_ok_cong [OF accept_endpoints(1) [OF accept.hyps] accept.prems])
next
  case (defers now did worker nxt db applied db')
  then show ?case using defer_delivery_result [OF defers.hyps] lease_update_endpoints by (metis circuits_ok_cong)
next
  case (dead now fresh v worker reason db db')
  then show ?case using mark_dead_on_result [OF dead.hyps] lease_update_endpoints
    by (fastforce intro: circuits_ok_cong)
next
  case (success fresh did n code snip t1 t2 db db1 now worker db2 upd pid db')
  then have "t_endpoints db2 = t_endpoints db"
    using record_attempt_result [OF success.hyps(1)] mark_succeeded_result [OF success.hyps(3)]
      lease_update_endpoints by fastforce
  then show ?case
    by (rule circuits_ok_settled [OF _ success.prems _ success.hyps(5)]) (use success.hyps(4) in auto)
next
  case (retry fresh did n code snip er t1 t2 db db1 now worker nxt db2 upd p policy t3 pid db')
  then have "t_endpoints db2 = t_endpoints db"
    using record_attempt_result [OF retry.hyps(1)] mark_failed_result [OF retry.hyps(2)]
      lease_update_endpoints by fastforce
  then show ?case
    by (rule circuits_ok_settled [OF _ retry.prems _ retry.hyps(4)]) (use retry.hyps(3) in auto)
next
  case (exhaust fresh v n code snip er t1 t2 db db1 now fresh2 worker db2 upd p policy t3 pid db')
  then have "t_endpoints db2 = t_endpoints db"
    using record_attempt_result [OF exhaust.hyps(1)] mark_dead_on_result [OF exhaust.hyps(2)]
      lease_update_endpoints by fastforce
  then show ?case
    by (rule circuits_ok_settled [OF _ exhaust.prems _ exhaust.hyps(4)]) (use exhaust.hyps(3) in auto)
next
  case (create_endpoint db tenant consumer now fresh url secret tys p db')
  then show ?case
    by (auto simp: create_endpoint_def circuits_ok_def circuit_columns_def unique_violation_def fk_violation_def Let_def
        is_i32_def int_width_defs split: if_splits)
qed (auto simp: circuits_ok_def claim_due_deliveries_def try_acquire_probe_def reset_for_replay_def
  create_consumer_def update_endpoint_def create_inbound_source_def insert_api_key_def unique_violation_def
  fk_violation_def set_update_where Let_def split: if_splits option.splits) 

section \<open>Providers and references\<close>

lemma step_providers: "db_step ushow a db db' \<Longrightarrow> providers_ok db \<Longrightarrow> providers_ok db'"
proof (induction rule: db_step.induct)
  case (create_source prov now fresh tenant slug secret db s db')
  then show ?case
    by (auto simp: create_inbound_source_def providers_ok_def unique_violation_def Let_def split: if_splits)
next
  case (enqueue db tenant consumer now eid dids ty payload db')
  then show ?case using enqueued_result [OF enqueue.hyps(2)] by (simp add: providers_ok_def)
next
  case (accept now iid src sid ty raw db db1 eid dids payload db2 db')
  then show ?case using accept_endpoints(2) [OF accept.hyps] by (simp add: providers_ok_def)
next
  case (success fresh did n code snip t1 t2 db db1 now worker db2 upd pid db')
  then show ?case
    using record_attempt_result [OF success.hyps(1)] mark_succeeded_result [OF success.hyps(3)]
      update_circuit_result [OF success.hyps(5)] by (auto simp: providers_ok_def lease_update_def Let_def)
next
  case (retry fresh did n code snip er t1 t2 db db1 now worker nxt db2 upd p policy t3 pid db')
  then show ?case
    using record_attempt_result [OF retry.hyps(1)] mark_failed_result [OF retry.hyps(2)]
      update_circuit_result [OF retry.hyps(4)] by (auto simp: providers_ok_def lease_update_def Let_def)
next
  case (exhaust fresh v n code snip er t1 t2 db db1 now fresh2 worker db2 upd p policy t3 pid db')
  then show ?case
    using record_attempt_result [OF exhaust.hyps(1)] mark_dead_on_result [OF exhaust.hyps(2)]
      update_circuit_result [OF exhaust.hyps(4)] by (auto simp: providers_ok_def lease_update_def Let_def)
next
  case (dead now fresh v worker reason db db')
  then show ?case using mark_dead_on_result [OF dead.hyps] by (auto simp: providers_ok_def lease_update_def Let_def)
qed (auto simp: providers_ok_def claim_due_deliveries_def defer_delivery_def lease_update_def try_acquire_probe_def
  reset_for_replay_def create_endpoint_def create_consumer_def update_endpoint_def insert_api_key_def
  unique_violation_def fk_violation_def Let_def split: if_splits option.splits)

lemma ids_grow:
  assumes "extends db db'"
  shows "dl_id ` set (t_deliveries db) \<subseteq> dl_id ` set (t_deliveries db')"
    "is_id ` set (t_sources db) \<subseteq> is_id ` set (t_sources db')"
proof -
  show "dl_id ` set (t_deliveries db) \<subseteq> dl_id ` set (t_deliveries db')"
  proof
    fix i
    assume "i \<in> dl_id ` set (t_deliveries db)"
    then obtain d where d: "d \<in> set (t_deliveries db)" "i = dl_id d" by auto
    obtain d' where "d' \<in> set (t_deliveries db')" "dl_identity d' = dl_identity d"
      using extends_delivery [OF assms d(1)] by blast
    moreover from this(2) have "dl_id d' = i" using d(2) by (simp add: dl_identity_def)
    ultimately show "i \<in> dl_id ` set (t_deliveries db')" by (metis imageI)
  qed
  show "is_id ` set (t_sources db) \<subseteq> is_id ` set (t_sources db')"
    using assms by (auto simp: extends_def dest: set_mono_prefix)
qed

lemma references_step:
  assumes "references_ok db" "extends db db'"
    and "da_delivery_id ` set (t_attempts db') \<subseteq> da_delivery_id ` set (t_attempts db) \<union> dl_id ` set (t_deliveries db)"
    and "dd_delivery_id ` set (t_dead_letters db') \<subseteq> dd_delivery_id ` set (t_dead_letters db) \<union> dl_id ` set (t_deliveries db)"
    and "ie_source_id ` set (t_inbound db') \<subseteq> ie_source_id ` set (t_inbound db) \<union> is_id ` set (t_sources db)"
  shows "references_ok db'"
proof -
  note g = ids_grow [OF assms(2)]
  have r: "da_delivery_id ` set (t_attempts db) \<subseteq> dl_id ` set (t_deliveries db)"
    "dd_delivery_id ` set (t_dead_letters db) \<subseteq> dl_id ` set (t_deliveries db)"
    "ie_source_id ` set (t_inbound db) \<subseteq> is_id ` set (t_sources db)"
    using assms(1) by (simp_all add: references_ok_def)
  show ?thesis
    unfolding references_ok_def
    using order_trans [OF assms(3) Un_least [OF order_trans [OF r(1) g(1)] g(1)]]
      order_trans [OF assms(4) Un_least [OF order_trans [OF r(2) g(1)] g(1)]]
      order_trans [OF assms(5) Un_least [OF order_trans [OF r(3) g(2)] g(2)]] by simp
qed

lemma references_cong:
  assumes "references_ok db" "extends db db'"
    and "t_attempts db' = t_attempts db" "t_dead_letters db' = t_dead_letters db" "t_inbound db' = t_inbound db"
  shows "references_ok db'"
  using assms by (intro references_step [OF assms(1,2)]) auto

lemma lease_update_references:
  "lease_update now did w f db = (k, db') \<Longrightarrow>
     t_attempts db' = t_attempts db \<and> t_dead_letters db' = t_dead_letters db \<and> t_inbound db' = t_inbound db"
  by (auto simp: lease_update_def Let_def)

lemma record_attempt_references:
  "record_attempt fresh did n c s er t1 t2 db = Inr (r, db1) \<Longrightarrow> references_ok db \<Longrightarrow> references_ok db1"
  by (rule references_step [OF _ record_attempt_extends])
    (auto simp: record_attempt_def invalid_text_def unique_violation_def fk_violation_def Let_def split: if_splits)

lemma mark_dead_on_references:
  assumes "mark_dead_on now fresh v w er db = Inr (b, db')" "references_ok db"
  shows "references_ok db'"
proof (rule references_step [OF assms(2) mark_dead_on_extends [OF assms(1)]])
  obtain k db1 where l: "lease_update now (dl_id v) w (dead_row now er) db = (k, db1)" by (rule prod.exhaust)
  have "map dl_identity (t_deliveries db1) = map dl_identity (t_deliveries db)"
    using l by (auto simp: lease_update_def Let_def)
  then have "map dl_id (t_deliveries db1) = map dl_id (t_deliveries db)" by (rule dl_keys_same)
  then have "dl_id ` set (t_deliveries db1) = dl_id ` set (t_deliveries db)" by (metis list.set_map)
  then show "dd_delivery_id ` set (t_dead_letters db') \<subseteq> dd_delivery_id ` set (t_dead_letters db) \<union> dl_id ` set (t_deliveries db)"
    using assms(1) l lease_update_references [OF l]
    by (auto simp: mark_dead_on_def unique_violation_def fk_violation_def Let_def split: if_splits)
qed (use assms(1) in \<open>auto simp: mark_dead_on_def lease_update_def unique_violation_def fk_violation_def Let_def
       split: if_splits prod.splits\<close>)

lemma update_circuit_references:
  assumes "update_circuit now pid st u n db = Inr (r, db')" "references_ok db"
  shows "references_ok db'"
  by (rule references_cong [OF assms(2) update_circuit_extends [OF assms(1)]])
    (use assms(1) in \<open>auto simp: update_circuit_def\<close>)

lemma leased_write_references:
  assumes "references_ok db"
  shows "mark_succeeded now did w n db = Inr (b, db') \<Longrightarrow> references_ok db'"
    "mark_failed now did w n nxt er db = Inr (b, db') \<Longrightarrow> references_ok db'"
    "defer_delivery now did w nxt db = Inr (b, db') \<Longrightarrow> references_ok db'"
  using mark_succeeded_extends [of now did w n db b db'] mark_failed_extends [of now did w n nxt er db b db']
    defer_delivery_extends [of now did w nxt db b db']
  by (auto simp: mark_succeeded_def mark_failed_def defer_delivery_def lease_update_def Let_def
      intro!: references_cong [OF assms])

lemma step_references:
  assumes "db_step ushow a db db'" "references_ok db"
  shows "references_ok db'"
  using assms
proof (induction rule: db_step.induct)
  case (enqueue db tenant consumer now eid dids ty payload db')
  then show ?case
    using enqueued_result [OF enqueue.hyps(2)]
    by (intro references_cong [OF enqueue.prems enqueued_extends [OF enqueue.hyps(2)]]) auto
next
  case (accept now iid src sid ty raw db db1 eid dids payload db2 db')
  show ?case
    using accept_endpoints [OF accept.hyps] step_extends [OF db_step.accept [OF accept.hyps]]
    by (intro references_step [OF accept.prems]) auto
next
  case (success fresh did n code snip t1 t2 db db1 now worker db2 upd pid db')
  then show ?case by (blast intro: record_attempt_references leased_write_references update_circuit_references)
next
  case (retry fresh did n code snip er t1 t2 db db1 now worker nxt db2 upd p policy t3 pid db')
  then show ?case by (blast intro: record_attempt_references leased_write_references update_circuit_references)
next
  case (exhaust fresh v n code snip er t1 t2 db db1 now fresh2 worker db2 upd p policy t3 pid db')
  then show ?case by (blast intro: record_attempt_references mark_dead_on_references update_circuit_references)
next
  case (claim now locked worker batch lock db rows db')
  then show ?case
    by (intro references_cong [OF claim.prems claim_extends [OF claim.hyps]])
      (auto simp: claim_due_deliveries_def Let_def split: if_splits)
next
  case (defers now did worker nxt db applied db')
  then show ?case by (blast intro: leased_write_references)
next
  case (dead now fresh v worker reason db db')
  then show ?case by (blast intro: mark_dead_on_references)
next
  case (probe now pid lease db won db')
  then show ?case
    by (intro references_cong [OF probe.prems try_acquire_probe_extends [OF probe.hyps]])
      (auto simp: try_acquire_probe_def Let_def)
next
  case (replay now did db found db')
  then show ?case
    by (intro references_cong [OF replay.prems reset_for_replay_extends [OF replay.hyps]])
      (auto simp: reset_for_replay_def Let_def)
next
  case (create_endpoint db tenant consumer now fresh url secret tys p db')
  then show ?case
    by (intro references_cong [OF create_endpoint.prems create_endpoint_extends [OF create_endpoint.hyps(2)]])
      (auto simp: create_endpoint_def unique_violation_def fk_violation_def Let_def split: if_splits)
next
  case (create_consumer now fresh tenant uid name db c db')
  then show ?case
    by (intro references_cong [OF create_consumer.prems create_consumer_extends [OF create_consumer.hyps]])
      (auto simp: create_consumer_def unique_violation_def Let_def split: if_splits option.splits)
next
  case (update_endpoint now pid tenant url dis tys db p db')
  then show ?case
    by (intro references_cong [OF update_endpoint.prems update_endpoint_extends [OF update_endpoint.hyps]])
      (auto simp: update_endpoint_def Let_def)
next
  case (create_source prov now fresh tenant slug secret db s db')
  then show ?case
    by (intro references_cong [OF create_source.prems create_inbound_source_extends [OF create_source.hyps(2)]])
      (auto simp: create_inbound_source_def unique_violation_def Let_def split: if_splits)
next
  case (api_key now fresh tenant hash db db')
  then show ?case
    by (intro references_cong [OF api_key.prems insert_api_key_extends [OF api_key.hyps]])
      (auto simp: insert_api_key_def unique_violation_def Let_def split: if_splits)
qed

lemma run_columns:
  "run ushow as db db' \<Longrightarrow> circuits_ok db \<and> providers_ok db \<and> references_ok db \<Longrightarrow>
   circuits_ok db' \<and> providers_ok db' \<and> references_ok db'"
  by (induction rule: run.induct) (auto intro: step_circuits step_providers step_references)

lemma empty_columns: "circuits_ok empty_db \<and> providers_ok empty_db \<and> references_ok empty_db"
  by (simp add: circuits_ok_def providers_ok_def references_ok_def empty_db_def)

text \<open>C28. Stored columns are well typed: in every reachable database each delivery status and
  each provider parses, each breaker is closed with no deadline or open or half-open with one,
  its failure count fits 32 bits, and every attempt, dead letter and inbound event refers to an
  existing row.\<close>

theorem stored_columns_are_typed:
  assumes "run ushow as empty_db db"
  shows "(\<forall>d\<in>set (t_deliveries db). \<exists>s. delivery_status_of dbg d = Inr s) \<and>
    (\<forall>s\<in>set (t_sources db). \<exists>p. provider_from_str dbg (is_provider s) = Inr p) \<and>
    (\<forall>p\<in>set (t_endpoints db). circuit_columns p) \<and>
    (\<forall>a\<in>set (t_attempts db). has_key dl_id (da_delivery_id a) (t_deliveries db)) \<and>
    (\<forall>l\<in>set (t_dead_letters db). has_key dl_id (dd_delivery_id l) (t_deliveries db)) \<and>
    (\<forall>i\<in>set (t_inbound db). has_key is_id (ie_source_id i) (t_sources db))"
proof -
  have "\<exists>s. delivery_status_of dbg d = Inr s" if "d \<in> set (t_deliveries db)" for d
    using reachable_delivery_ok [OF assms that]
    by (auto simp: delivery_ok_def lock_ok_def delivery_status_of_def status_from_str_Inr_iff)
  moreover have "\<exists>p. provider_from_str dbg (is_provider s) = Inr p" if "s \<in> set (t_sources db)" for s
    using run_columns [OF assms empty_columns] that by (auto simp: providers_ok_def provider_from_str_Inr_iff)
  ultimately show ?thesis
    using run_columns [OF assms empty_columns] by (auto simp: circuits_ok_def references_ok_def)
qed

theorem stored_columns_are_typed_witness:
  "circuit_columns sample_endpoint \<and> (\<exists>s. delivery_status_of id (claim_row 10 ''worker-0'' 30 (new_delivery ushow0 5 1 3 7 ''t1'')) = Inr s)"
proof -
  have "sample_endpoint \<in> set (t_endpoints db_c)"
    "claim_row 10 ''worker-0'' 30 (new_delivery ushow0 5 1 3 7 ''t1'') \<in> set (t_deliveries db_c)"
    by (simp_all add: db_c_eq db_b_def db_a_eq)
  then show ?thesis using stored_columns_are_typed [OF run_abc] by blast
qed

end
