(* ===== verification/Responses.thy ===== *)
theory Responses
  imports Dispatcher Columns
begin

text \<open>
  What the HTTP API sends: status codes, the \<open>Serialize\<close> instances of the rows
  (\<open>model.rs\<close>, \<open>store.rs\<close>: every field in order, except those marked
  \<open>skip_serializing\<close>) and \<open>ApiError\<close> (\<open>api.rs\<close>). A response body is kept as the JSON
  value or text that is rendered. Parameters (\<open>api_deps\<close>): the text of a UUID and of a
  \<open>DateTime\<close>, the crypto crates, \<open>serde_json::from_slice\<close>, \<open>HeaderValue::to_str\<close>, the
  rounding of \<open>f64\<close>, \<open>{:?}\<close> of a string, the collation of the database, the two embedded
  pages, and the response of the body-limit layer.
\<close>

datatype body = Empty_body | Text string | Html string | Json json

record response =
  rs_status :: int
  rs_headers :: "(string \<times> string) list"
  rs_body :: body

record api_deps =
  ad_ushow :: "uuid \<Rightarrow> string"
  ad_show_time :: "timestamp \<Rightarrow> string"
  ad_crypto :: crypto
  ad_from_slice :: "bytes \<Rightarrow> json option"
  ad_to_str :: "bytes \<Rightarrow> string option"
  ad_rnd :: "real \<Rightarrow> real"
  ad_dbg :: "string \<Rightarrow> string"
  ad_collate :: "string \<Rightarrow> real"
  ad_dashboard :: string
  ad_admin_page :: string
  ad_too_large :: response

definition respond_with :: "int \<Rightarrow> body \<Rightarrow> response" where
  "respond_with code b = \<lparr>rs_status = code, rs_headers = [], rs_body = b\<rparr>"

section \<open>Serialised rows\<close>

definition opt_json :: "('a \<Rightarrow> json) \<Rightarrow> 'a option \<Rightarrow> json" where
  "opt_json f x = (case x of None \<Rightarrow> JNull | Some y \<Rightarrow> f y)"

definition jid :: "api_deps \<Rightarrow> uuid \<Rightarrow> json" where "jid A u = JString (ad_ushow A u)"

definition jtime :: "api_deps \<Rightarrow> timestamp \<Rightarrow> json" where "jtime A t = JString (ad_show_time A t)"

definition jint :: "int \<Rightarrow> json" where "jint i = JNumber (show_int i)"

definition consumer_json :: "api_deps \<Rightarrow> consumer \<Rightarrow> json" where
  "consumer_json A c =
     JObject [(''id'', jid A (co_id c)), (''tenant_id'', JString (co_tenant_id c)), (''uid'', JString (co_uid c)),
       (''name'', opt_json JString (co_name c)), (''created_at'', jtime A (co_created_at c)),
       (''updated_at'', jtime A (co_updated_at c))]"

definition event_json :: "api_deps \<Rightarrow> event \<Rightarrow> json" where
  "event_json A e =
     JObject [(''id'', jid A (ev_id e)), (''tenant_id'', JString (ev_tenant_id e)),
       (''consumer_id'', opt_json (jid A) (ev_consumer_id e)), (''event_type'', JString (ev_event_type e)),
       (''payload'', ev_payload e), (''created_at'', jtime A (ev_created_at e))]"

text \<open>\<open>secret\<close> is \<open>skip_serializing\<close>.\<close>

definition endpoint_fields :: "api_deps \<Rightarrow> endpoint \<Rightarrow> (string \<times> json) list" where
  "endpoint_fields A p =
     [(''id'', jid A (ep_id p)), (''tenant_id'', JString (ep_tenant_id p)),
      (''consumer_id'', opt_json (jid A) (ep_consumer_id p)), (''url'', JString (ep_url p)),
      (''disabled'', JBool (ep_disabled p)), (''circuit_state'', JString (ep_circuit_state p)),
      (''circuit_open_until'', opt_json (jtime A) (ep_circuit_open_until p)),
      (''consecutive_failures'', jint (ep_consecutive_failures p)),
      (''event_types'', opt_json (\<lambda>ts. JArray (map JString ts)) (ep_event_types p)),
      (''created_at'', jtime A (ep_created_at p)), (''updated_at'', jtime A (ep_updated_at p))]"

definition endpoint_json :: "api_deps \<Rightarrow> endpoint \<Rightarrow> json" where
  "endpoint_json A p = JObject (endpoint_fields A p)"

definition delivery_json :: "api_deps \<Rightarrow> delivery \<Rightarrow> json" where
  "delivery_json A d =
     JObject [(''id'', jid A (dl_id d)), (''event_id'', jid A (dl_event_id d)),
       (''endpoint_id'', jid A (dl_endpoint_id d)), (''tenant_id'', JString (dl_tenant_id d)),
       (''status'', JString (dl_status d)), (''attempt_count'', jint (dl_attempt_count d)),
       (''next_attempt_at'', jtime A (dl_next_attempt_at d)),
       (''locked_until'', opt_json (jtime A) (dl_locked_until d)),
       (''locked_by'', opt_json JString (dl_locked_by d)), (''idempotency_key'', JString (dl_idempotency_key d)),
       (''last_error'', opt_json JString (dl_last_error d)), (''created_at'', jtime A (dl_created_at d)),
       (''updated_at'', jtime A (dl_updated_at d))]"

definition attempt_json :: "api_deps \<Rightarrow> delivery_attempt \<Rightarrow> json" where
  "attempt_json A a =
     JObject [(''id'', jid A (da_id a)), (''delivery_id'', jid A (da_delivery_id a)),
       (''attempt_number'', jint (da_attempt_number a)), (''status_code'', opt_json jint (da_status_code a)),
       (''response_snippet'', opt_json JString (da_response_snippet a)), (''error'', opt_json JString (da_error a)),
       (''started_at'', jtime A (da_started_at a)), (''finished_at'', jtime A (da_finished_at a))]"

definition source_fields :: "api_deps \<Rightarrow> inbound_source \<Rightarrow> (string \<times> json) list" where
  "source_fields A s =
     [(''id'', jid A (is_id s)), (''tenant_id'', JString (is_tenant_id s)), (''slug'', JString (is_slug s)),
      (''provider'', JString (is_provider s)), (''disabled'', JBool (is_disabled s)),
      (''created_at'', jtime A (is_created_at s)), (''updated_at'', jtime A (is_updated_at s))]"

definition source_json :: "api_deps \<Rightarrow> inbound_source \<Rightarrow> json" where
  "source_json A s = JObject (source_fields A s)"

definition summary_json :: "api_deps \<Rightarrow> consumer_summary \<Rightarrow> json" where
  "summary_json A c =
     JObject [(''id'', jid A (cs_id c)), (''tenant_id'', JString (cs_tenant_id c)), (''uid'', JString (cs_uid c)),
       (''name'', opt_json JString (cs_name c)), (''endpoints'', jint (cs_endpoints c)),
       (''events'', jint (cs_events c)), (''created_at'', jtime A (cs_created_at c))]"

definition tenant_stat_json :: "tenant_stat \<Rightarrow> json" where
  "tenant_stat_json s =
     JObject [(''tenant_id'', JString (ts_tenant_id s)), (''endpoints'', jint (ts_endpoints s)),
       (''events'', jint (ts_events s)), (''succeeded'', jint (ts_succeeded s)), (''failed'', jint (ts_failed s)),
       (''dead'', jint (ts_dead s))]"

definition recent_failure_json :: "api_deps \<Rightarrow> recent_failure \<Rightarrow> json" where
  "recent_failure_json A f =
     JObject [(''tenant_id'', JString (rf_tenant_id f)), (''event_type'', JString (rf_event_type f)),
       (''endpoint_url'', JString (rf_endpoint_url f)), (''status'', JString (rf_status f)),
       (''attempt_count'', jint (rf_attempt_count f)), (''last_error'', opt_json JString (rf_last_error f)),
       (''updated_at'', jtime A (rf_updated_at f)), (''delivery_id'', jid A (rf_delivery_id f))]"

section \<open>Errors\<close>

datatype api_error = ApiError int string

fun api_error_from :: "core_error \<Rightarrow> api_error" where
  "api_error_from (NotFound m) = ApiError 404 m"
| "api_error_from (Invalid m) = ApiError 400 m"
| "api_error_from (Db (Unique_violation c)) = ApiError 409 ''already exists''"
| "api_error_from other = ApiError 500 ''internal error''"

fun error_response :: "api_error \<Rightarrow> response" where
  "error_response (ApiError code message) = respond_with code (Json (JObject [(''error'', JString message)]))"

text \<open>A handler that returns \<open>Result<_, ApiError>\<close>: both cases become a response.\<close>

definition respond :: "'a io \<Rightarrow> ('a \<Rightarrow> response) \<Rightarrow> response io" where
  "respond m render =
     try_await m (\<lambda>r. case r of Inl e \<Rightarrow> ok (error_response (api_error_from e)) | Inr x \<Rightarrow> ok (render x))"

section \<open>Headers\<close>

type_synonym headers = "(string \<times> bytes) list"

definition header_str :: "api_deps \<Rightarrow> headers \<Rightarrow> string \<Rightarrow> string option" where
  "header_str A hs name = Option.bind (map_of hs name) (ad_to_str A)"

text \<open>\<open>Authorization: Bearer <token>\<close>.\<close>

definition bearer_token :: "api_deps \<Rightarrow> headers \<Rightarrow> string option" where
  "bearer_token A hs =
     map_option trim (Option.bind (header_str A hs ''authorization'') (\<lambda>v. strip_prefix v ''Bearer ''))"

definition sha256_hex :: "api_deps \<Rightarrow> bytes \<Rightarrow> string" where
  "sha256_hex A bs = cx_hex_encode (ad_crypto A) (cx_sha256 (ad_crypto A) bs)"

definition hash_key :: "api_deps \<Rightarrow> string \<Rightarrow> string" where
  "hash_key A key = cx_hex_encode (ad_crypto A) (cx_sha256 (ad_crypto A) (as_bytes key))"

section \<open>Sample parameters\<close>

definition api0 :: api_deps where
  "api0 = \<lparr>ad_ushow = ushow0, ad_show_time = show_int, ad_crypto = toy_crypto, ad_from_slice = (\<lambda>_. None),
     ad_to_str = (\<lambda>bs. Some (map (\<lambda>b. char_of (unat b)) bs)), ad_rnd = exact, ad_dbg = id, ad_collate = (\<lambda>_. 0),
     ad_dashboard = '''', ad_admin_page = '''', ad_too_large = respond_with 413 Empty_body\<rparr>"

lemma api0_simps [simp]:
  "ad_ushow api0 = ushow0" "ad_crypto api0 = toy_crypto" "ad_from_slice api0 b = None" "ad_dbg api0 s = s"
  "ad_to_str api0 (as_bytes t) = Some t"
  by (simp_all add: api0_def as_bytes_def comp_def unat_of_char_u8)

lemma header_str0 [simp]:
  "header_str api0 [] name = None"
  "header_str api0 ((n, as_bytes v) # hs) name = (if n = name then Some v else header_str api0 hs name)"
  by (simp_all add: header_str_def)

end
