(* ===== verification/Gateway.thy ===== *)
theory Gateway
  imports Responses
begin

text \<open>
  The inbound gateway \<open>POST /ingest/{slug}\<close> of \<open>api.rs\<close>: the source is looked up, the
  provider's signature verified, a deduplication key derived from signed material, and the
  webhook accepted in one transaction (theory \<open>Inbox\<close>). The outer \<open>option\<close> of a response
  is \<open>None\<close> when the task panics (the \<open>expect\<close> of \<open>hmac_hex\<close>). The theorems: nothing is
  stored and no success is answered unless an enabled source verified the body; rejections look
  alike; a replay of the same signed body is never bridged again.
\<close>

definition ingest_body_limit :: nat where "ingest_body_limit = 256 * 1024"

definition unauthorized :: response where
  "unauthorized = respond_with 401 (Json (JObject [(''error'', JString ''unauthorized'')]))"

text \<open>\<open>Value::get\<close> with \<open>as_str\<close>.\<close>

definition str_field :: "json option \<Rightarrow> string \<Rightarrow> string option" where
  "str_field j k =
     (case j of
        Some (JObject kvs) \<Rightarrow> (case map_of kvs k of Some (JString s) \<Rightarrow> Some s | _ \<Rightarrow> None)
      | _ \<Rightarrow> None)"

definition or_default :: "'a option \<Rightarrow> 'a \<Rightarrow> 'a" where
  "or_default x y = (case x of Some v \<Rightarrow> v | None \<Rightarrow> y)"

text \<open>The verdict, the deduplication key and the event type, per provider.\<close>

fun check_inbound ::
  "api_deps \<Rightarrow> inbound_source \<Rightarrow> provider \<Rightarrow> headers \<Rightarrow> bytes \<Rightarrow> int \<Rightarrow>
   unit core_result option \<times> string \<times> string" where
  "check_inbound A source Stripe hs raw now =
     (let v = verify_stripe (ad_crypto A) (is_secret source) (or_default (header_str A hs ''stripe-signature'') '''')
                raw now 300;
          meta = ad_from_slice A raw;
          key = or_default (str_field meta ''id'') (sha256_hex A raw);
          ty = or_default (str_field meta ''type'') ''stripe.event''
      in (v, key, ty))"
| "check_inbound A source Github hs raw now =
     (let v = verify_github (ad_crypto A) (is_secret source)
                (or_default (header_str A hs ''x-hub-signature-256'') '''') raw;
          ty = or_default (header_str A hs ''x-github-event'') ''github.event''
      in (v, sha256_hex A raw, ty))"
| "check_inbound A source Hmac hs raw now =
     (let mid = or_default (header_str A hs ''webhook-id'') '''';
          ts = or_default (Option.bind (header_str A hs ''webhook-timestamp'') parse_i64) 0;
          sig = or_default (header_str A hs ''webhook-signature'') '''';
          v = verify_hmac (ad_crypto A) (is_secret source) mid ts raw sig now 300;
          key = (if mid = '''' then sha256_hex A raw else mid);
          ty = or_default (header_str A hs ''dropless-event-type'') ''inbound.event''
      in (Some v, key, ty))"

definition outbound_payload :: "api_deps \<Rightarrow> bytes \<Rightarrow> json" where
  "outbound_payload A raw =
     (case ad_from_slice A raw of
        Some v \<Rightarrow> v
      | None \<Rightarrow> JObject [(''raw'', JString (from_utf8_lossy raw))])"

definition accepted_response :: "api_deps \<Rightarrow> accepted core_result \<Rightarrow> response" where
  "accepted_response A r =
     (case r of
        Inr (Bridged _ event_id delivery_ids) \<Rightarrow>
          respond_with 202 (Json (JObject [(''status'', JString ''accepted''), (''event_id'', jid A event_id),
            (''deliveries'', jint (int (length delivery_ids)))]))
      | Inr Duplicate \<Rightarrow> respond_with 200 (Json (JObject [(''status'', JString ''duplicate'')]))
      | Inl e \<Rightarrow> respond_with 500 (Text ''ingest failed''))"

definition ingest :: "api_deps \<Rightarrow> string \<Rightarrow> headers \<Rightarrow> bytes \<Rightarrow> response option io" where
  "ingest A slug hs raw =
     try_await (sql (\<lambda>a. get_inbound_source_by_slug slug)) (\<lambda>found. case found of
       Inl e \<Rightarrow> ok (Some (respond_with 503 (Text ''db unavailable'')))
     | Inr None \<Rightarrow> ok (Some unauthorized)
     | Inr (Some source) \<Rightarrow>
     if is_disabled source then ok (Some unauthorized) else
     case provider_from_str (ad_dbg A) (is_provider source) of
       Inl e \<Rightarrow> ok (Some (respond_with 500 (Text ''misconfigured provider'')))
     | Inr provider \<Rightarrow>
     utc_now (\<lambda>now.
     case check_inbound A source provider hs raw (now div 1000000) of
       (None, key, ty) \<Rightarrow> ok None
     | (Some (Inl e), key, ty) \<Rightarrow> ok (Some unauthorized)
     | (Some (Inr _), key, ty) \<Rightarrow>
         try_await (accept (ad_ushow A) source (Some key) ty raw (outbound_payload A raw)) (\<lambda>r.
         case r of
           Inr (Bridged _ _ _) \<Rightarrow> ping (ok (Some (accepted_response A r)))
         | _ \<Rightarrow> ok (Some (accepted_response A r)))))"

section \<open>What an ingest may do\<close>

text \<open>The source, the provider and the verdict of a verified webhook.\<close>

definition verified_by ::
  "api_deps \<Rightarrow> db \<Rightarrow> string \<Rightarrow> headers \<Rightarrow> bytes \<Rightarrow> timestamp \<Rightarrow> inbound_source \<Rightarrow> string \<Rightarrow> string \<Rightarrow> bool" where
  "verified_by A db slug hs raw now source key ty \<longleftrightarrow>
     List.find (\<lambda>s. is_slug s = slug) (t_sources db) = Some source \<and> \<not> is_disabled source \<and>
     (\<exists>p. provider_from_str (ad_dbg A) (is_provider source) = Inr p \<and>
        check_inbound A source p hs raw (now div 1000000) = (Some (Inr ()), key, ty))"

definition after_lookup :: "world \<Rightarrow> world" where
  "after_lookup w = (tick (tick w))\<lparr>w_db := seen w\<rparr>"

definition ingest_outcome ::
  "api_deps \<Rightarrow> string \<Rightarrow> headers \<Rightarrow> bytes \<Rightarrow> world \<Rightarrow> response option core_result \<Rightarrow> db \<Rightarrow> bool" where
  "ingest_outcome A slug hs raw w r db' \<longleftrightarrow>
     (db' = seen w \<and> (\<exists>resp. r = Inr resp \<and> resp \<in> {None, Some unauthorized,
        Some (respond_with 503 (Text ''db unavailable'')), Some (respond_with 500 (Text ''misconfigured provider''))})) \<or>
     (\<exists>source key ty ra. verified_by A (seen w) slug hs raw (an_now (w_env w (Suc (w_pos w)))) source key ty \<and>
        accept_outcome (ad_ushow A) source (Some key) ty raw (outbound_payload A raw) (seen (after_lookup w)) ra db' \<and>
        r = Inr (Some (accepted_response A ra)))"

lemma ingest_post:
  assumes "ingest A slug hs raw w = (r, w')"
  shows "w_env w' = w_env w \<and> w_sent w' = w_sent w \<and> ingest_outcome A slug hs raw w r (w_db w')"
    (is "?post r w'")
proof -
  let ?w1 = "(tick w)\<lparr>w_db := seen w\<rparr>"
  have "wp (ingest A slug hs raw) ?post w"
    unfolding ingest_def wp_try_await
  proof (rule wp_sql, goal_cases)
    case (1 e)
    then show ?case by (simp add: wp_rules ingest_outcome_def)
  next
    case (2 found db1)
    then have db1: "db1 = seen w" and found: "found = List.find (\<lambda>s. is_slug s = slug) (t_sources (seen w))"
      by (auto simp: get_inbound_source_by_slug_def)
    show ?case
    proof (cases found)
      case None
      then show ?thesis by (simp add: wp_rules db1 ingest_outcome_def)
    next
      case (Some source)
      show ?thesis
      proof (cases "is_disabled source \<or> isl (provider_from_str (ad_dbg A) (is_provider source))")
        case True
        then show ?thesis by (auto simp: Some wp_rules db1 ingest_outcome_def split: sum.split)
      next
        case False
        then obtain p where p: "provider_from_str (ad_dbg A) (is_provider source) = Inr p"
          by (cases "provider_from_str (ad_dbg A) (is_provider source)") auto
        let ?now = "an_now (w_env w (Suc (w_pos w)))"
        obtain v key ty where c: "check_inbound A source p hs raw (?now div 1000000) = (v, key, ty)"
          by (cases "check_inbound A source p hs raw (?now div 1000000)")
        have w2: "tick ?w1 = after_lookup w" by (simp add: after_lookup_def tick_def)
        have now: "an_now (answer_now ?w1) = ?now" by (simp add: answer_now_def)
        have acc: "wp (accept (ad_ushow A) source (Some key) ty raw (outbound_payload A raw))
            (\<lambda>r w'. wp (case r of Inr (Bridged _ _ _) \<Rightarrow> ping (ok (Some (accepted_response A r)))
               | _ \<Rightarrow> ok (Some (accepted_response A r))) ?post w') (after_lookup w)"
          if v: "v = Some (Inr ())"
        proof -
          obtain ra w3 where a: "accept (ad_ushow A) source (Some key) ty raw (outbound_payload A raw) (after_lookup w) = (ra, w3)"
            by (rule prod.exhaust)
          have ver: "verified_by A (seen w) slug hs raw ?now source key ty"
            using found Some False p c v by (simp add: verified_by_def)
          have post: "?post (Inr (Some (accepted_response A ra))) (w3\<lparr>w_pos := x, w_pings := y\<rparr>)" for x y
            using accept_post [OF a] ver by (auto simp: ingest_outcome_def after_lookup_def)
          show ?thesis
            using post [of "w_pos w3" "w_pings w3"] post
            by (auto simp: wp_def a ping_def ok_def tick_def split: sum.split accepted.split)
        qed
        show ?thesis
          using acc False c
          by (auto simp: Some wp_rules db1 p now w2 ingest_outcome_def split: option.split sum.split)
             (auto simp: after_lookup_def ingest_outcome_def)
      qed
    qed
  qed
  then show ?thesis using assms by (rule wpD)
qed

lemma ingest_cases:
  assumes "ingest A slug hs raw w = (r, w')"
  obtains (refused) resp where "w_db w' = seen w" "r = Inr resp" "\<forall>x. resp = Some x \<longrightarrow> rs_status x \<in> {401, 500, 503}"
  | (verified) source key ty ra where
      "verified_by A (seen w) slug hs raw (an_now (w_env w (Suc (w_pos w)))) source key ty"
      "accept_outcome (ad_ushow A) source (Some key) ty raw (outbound_payload A raw) (seen (after_lookup w)) ra (w_db w')"
      "r = Inr (Some (accepted_response A ra))"
proof -
  have "rs_status x \<in> {401, 500, 503}" if "Some x \<in> {None, Some unauthorized,
      Some (respond_with 503 (Text ''db unavailable'')), Some (respond_with 500 (Text ''misconfigured provider''))}" for x
    using that by (auto simp: unauthorized_def respond_with_def)
  moreover have "ingest_outcome A slug hs raw w r (w_db w')" using ingest_post [OF assms] by blast
  ultimately show thesis using that unfolding ingest_outcome_def by blast
qed

text \<open>C11. Only verified webhooks count: an ingest either leaves the database as it found it and
  answers with an error (401, 503, 500, or a panic), or the slug names an enabled source, the
  provider's check of the signature over this very body succeeded, and the body was accepted
  under the derived key: stored and answered 202 when it was new, answered 200 when it was
  already stored, 500 on a database error.\<close>

theorem ingest_only_verified:
  assumes "ingest A slug hs raw w = (r, w')"
  shows "w_db w' = seen w \<and>
      (\<exists>resp. r = Inr resp \<and> (\<forall>x. resp = Some x \<longrightarrow> rs_status x \<in> {401, 500, 503})) \<or>
    (\<exists>source p key ty ra. source \<in> set (t_sources (seen w)) \<and> is_slug source = slug \<and> \<not> is_disabled source \<and>
       provider_from_str (ad_dbg A) (is_provider source) = Inr p \<and>
       check_inbound A source p hs raw (an_now (w_env w (Suc (w_pos w))) div 1000000) = (Some (Inr ()), key, ty) \<and>
       accept_outcome (ad_ushow A) source (Some key) ty raw (outbound_payload A raw) (seen (after_lookup w)) ra (w_db w') \<and>
       r = Inr (Some (accepted_response A ra)))"
proof -
  have src: "source \<in> set (t_sources db) \<and> is_slug source = slug"
    if "List.find (\<lambda>s. is_slug s = slug) (t_sources db) = Some source" for source db
    using that by (auto simp: find_Some_iff)
  from assms show ?thesis
  proof (cases rule: ingest_cases)
    case (verified source key ty ra)
    then show ?thesis using src unfolding verified_by_def by blast
  qed blast
qed

section \<open>Rejections look alike\<close>

text \<open>No oracle: when the database answers, an unknown slug, a disabled source and a body
  whose signature does not verify get one and the same response, and nothing is stored.\<close>

theorem ingest_rejections_look_alike:
  assumes "an_fault (answer_now w) = No_fault"
    and "case List.find (\<lambda>s. is_slug s = slug) (t_sources (seen w)) of
        None \<Rightarrow> True
      | Some source \<Rightarrow> is_disabled source \<or>
          (\<exists>p e key ty. provider_from_str (ad_dbg A) (is_provider source) = Inr p \<and>
             check_inbound A source p hs raw (an_now (w_env w (Suc (w_pos w))) div 1000000) = (Some (Inl e), key, ty))"
  shows "\<exists>w'. ingest A slug hs raw w = (Inr (Some unauthorized), w') \<and> w_db w' = seen w"
proof -
  have l: "sql (\<lambda>a. get_inbound_source_by_slug slug) w =
      (Inr (List.find (\<lambda>s. is_slug s = slug) (t_sources (seen w))), (tick w)\<lparr>w_db := seen w\<rparr>)"
    using assms(1) by (simp add: sql_def get_inbound_source_by_slug_def Let_def)
  have now: "an_now (answer_now ((tick w)\<lparr>w_db := x\<rparr>)) = an_now (w_env w (Suc (w_pos w)))" for x
    by (simp add: answer_now_def)
  show ?thesis
    using assms(2)
    by (auto simp: ingest_def try_await_def l ok_def utc_now_def now split: option.splits)
qed

section \<open>Replays\<close>

lemma find_prefix: "prefix xs ys \<Longrightarrow> List.find P xs = Some x \<Longrightarrow> List.find P ys = Some x"
proof (induction xs arbitrary: ys)
  case (Cons a xs)
  then obtain zs where "ys = a # zs" "prefix xs zs" by (cases ys) auto
  with Cons show ?case by (auto split: if_splits)
qed simp

lemma accept_outcome_extends: "accept_outcome ushow src sid ty raw p db r db' \<Longrightarrow> extends db db'"
  using step_extends [OF db_step.accept] unfolding accept_outcome_def accepted_tx_def by (auto; blast)

lemma lookup_extends:
  assumes "env_ok (any_step ushow) w"
  shows "extends (seen w) (seen (after_lookup w))"
proof -
  have "env_ok (any_step ushow) (after_lookup w)" using assms by (simp add: env_ok_def after_lookup_def)
  from any_steps_extends [OF seen_steps [OF this]] show ?thesis by (simp add: after_lookup_def)
qed

text \<open>The key is a function of signed material: the body, and for the generic scheme the signed
  message id.\<close>

lemma key_from_signed_material:
  assumes "check_inbound A source p hs raw now = (v, key, ty)" "check_inbound A source p hs' raw now' = (v', key', ty')"
    and "p = Hmac \<Longrightarrow> header_str A hs' ''webhook-id'' = header_str A hs ''webhook-id''"
  shows "key' = key"
  using assms by (cases p) (auto simp: Let_def)

lemma accepted_response_202:
  "rs_status (accepted_response A r) = 202 \<longleftrightarrow> (\<exists>iid eid ids. r = Inr (Bridged iid eid ids))"
  by (auto simp: accepted_response_def respond_with_def split: sum.split accepted.split)

text \<open>After a \<open>202\<close>, at any later time: the source that verified the body is still the one of the slug,
  and the body counts as received.\<close>

lemma bridged_then_received:
  assumes "ingest A slug hs raw w = (Inr (Some resp), w1)" "rs_status resp = 202"
    and "env_ok (any_step (ad_ushow A)) w" "run (ad_ushow A) as (w_db w1) (seen w2)" "env_ok (any_step (ad_ushow A)) w2"
  obtains source key ty where "verified_by A (seen w) slug hs raw (an_now (w_env w (Suc (w_pos w)))) source key ty"
    "already_received source (Some key) (seen (after_lookup w2))" "prefix (t_sources (seen w)) (t_sources (seen w2))"
proof -
  let ?ush = "ad_ushow A"
  obtain source key ty iid eid ids where
    ver: "verified_by A (seen w) slug hs raw (an_now (w_env w (Suc (w_pos w)))) source key ty" and
    acc: "accept_outcome ?ush source (Some key) ty raw (outbound_payload A raw) (seen (after_lookup w))
      (Inr (Bridged iid eid ids)) (w_db w1)"
    using ingest_post [OF assms(1)] assms(2) accepted_response_202 [of A]
    unfolding ingest_outcome_def by (auto simp: unauthorized_def respond_with_def)
  have "accepted_tx ?ush source (Some key) ty raw (outbound_payload A raw) iid eid ids (seen (after_lookup w)) (w_db w1)"
    using acc by (auto simp: accept_outcome_def)
  then have rec1: "already_received source (Some key) (w_db w1)"
    using accepted_stores by (fastforce simp: already_received_def list_ex_iff dedup_clash_def)
  have ext12: "extends (w_db w1) (seen w2)" using run_extends [OF assms(4)] .
  have "already_received source (Some key) (seen (after_lookup w2))"
    using already_received_extends [OF already_received_extends [OF rec1 ext12] lookup_extends [OF assms(5)]] .
  moreover have "extends (seen w) (seen w2)"
    using lookup_extends [OF assms(3)] accept_outcome_extends [OF acc] ext12 by (blast intro: extends_trans)
  then have "prefix (t_sources (seen w)) (t_sources (seen w2))" by (simp add: extends_def)
  ultimately show ?thesis using that ver by blast
qed

text \<open>C12. A replay of the same signed body is harmless: after an ingest has been answered 202, and
  whatever the system commits afterwards, any later request to the same slug with the same body
  (and, for the generic scheme, the same signed message id), under any other headers, commits
  nothing: the database holds what the others left there, and the answer is not 202.\<close>

theorem replayed_body_is_not_bridged:
  assumes "ingest A slug hs raw w = (Inr (Some resp), w1)" "rs_status resp = 202"
    and "env_ok (any_step (ad_ushow A)) w" "run (ad_ushow A) as (w_db w1) (seen w2)" "env_ok (any_step (ad_ushow A)) w2"
    and "\<And>s. s \<in> set (t_sources (seen w)) \<Longrightarrow> is_slug s = slug \<Longrightarrow> is_provider s = ''hmac'' \<Longrightarrow>
        header_str A hs' ''webhook-id'' = header_str A hs ''webhook-id''"
    and "ingest A slug hs' raw w2 = (r, w3)"
  shows "w_db w3 \<in> {seen w2, seen (after_lookup w2)} \<and>
    (\<forall>resp'. r = Inr (Some resp') \<longrightarrow> rs_status resp' \<noteq> 202)"
proof -
  obtain source key ty where ver: "verified_by A (seen w) slug hs raw (an_now (w_env w (Suc (w_pos w)))) source key ty"
    and rec: "already_received source (Some key) (seen (after_lookup w2))"
    and "prefix (t_sources (seen w)) (t_sources (seen w2))"
    using bridged_then_received [OF assms(1-5)] .
  then have same: "source' = source" if "verified_by A (seen w2) slug hs' raw now' source' key' ty'" for now' source' key' ty'
    using ver that find_prefix unfolding verified_by_def by fastforce
  have src: "source \<in> set (t_sources (seen w))" "is_slug source = slug"
    using ver by (auto simp: verified_by_def find_Some_iff)
  obtain p where p: "provider_from_str (ad_dbg A) (is_provider source) = Inr p"
    "check_inbound A source p hs raw (an_now (w_env w (Suc (w_pos w))) div 1000000) = (Some (Inr ()), key, ty)"
    using ver by (auto simp: verified_by_def)
  have mid: "header_str A hs' ''webhook-id'' = header_str A hs ''webhook-id''" if "p = Hmac"
    using assms(6) [OF src] p(1) that by (simp add: provider_from_str_Inr_iff)
  have key: "key' = key" if "verified_by A (seen w2) slug hs' raw now' source' key' ty'" for now' source' key' ty'
  proof -
    have "check_inbound A source p hs' raw (now' div 1000000) = (Some (Inr ()), key', ty')"
      using that p(1) same [OF that] by (auto simp: verified_by_def)
    then show ?thesis by (rule key_from_signed_material [OF p(2) _ mid])
  qed
  from assms(7) show ?thesis
  proof (cases rule: ingest_cases)
    case (verified source' key' ty' ra)
    have "accept_outcome (ad_ushow A) source (Some key) ty' raw (outbound_payload A raw) (seen (after_lookup w2)) ra (w_db w3)"
      using verified(2) same [OF verified(1)] key [OF verified(1)] by simp
    then have "w_db w3 = seen (after_lookup w2)" "isl ra \<or> ra = Inr Duplicate"
      using rec by (auto simp: accept_outcome_def)
    then show ?thesis using verified(3) accepted_response_202 by auto
  qed auto
qed

section \<open>Witnesses\<close>

definition source1 :: inbound_source where
  "source1 = source0\<lparr>is_slug := ''gh'', is_provider := ''github'', is_secret := ''k''\<rparr>"

definition signed1 :: headers where
  "signed1 = [(''x-hub-signature-256'', as_bytes (''sha256='' @ toy_encode (as_bytes ''k'' @ [1])))]"

definition world_gh :: world where
  "world_gh = quiet_world 5 (Response 200 None) (db_a\<lparr>t_sources := [source1]\<rparr>)"

definition world_gh1 :: world where
  "world_gh1 = snd (ingest api0 ''gh'' signed1 [1] world_gh)"

lemma ingest_gh:
  "\<exists>resp. ingest api0 ''gh'' signed1 [1] world_gh = (Inr (Some resp), world_gh1) \<and> rs_status resp = 202"
  unfolding world_gh1_def
  by (simp add: ingest_def world_gh_def run_defs get_inbound_source_by_slug_def source1_def provider_from_str_def
      check_inbound.simps verify_github_def hmac_hex_def signed1_def strip_prefix_def starts_with_def or_default_def source0_def accept_def
      insert_inbound_event_def insert_event_def has_key_opt_def db_a_eq empty_db_def active_endpoints_for_scope_def
      subscribes_to_def sample_endpoint_def insert_delivery_def link_inbound_event_def accepted_response_def
      respond_with_def)

lemma seen_gh [simp]: "seen world_gh = db_a\<lparr>t_sources := [source1]\<rparr>"
  by (simp add: world_gh_def run_defs)

theorem ingest_only_verified_witness:
  "\<exists>source\<in>set (t_sources (seen world_gh)). is_slug source = ''gh'' \<and> \<not> is_disabled source"
proof -
  obtain resp where "ingest api0 ''gh'' signed1 [1] world_gh = (Inr (Some resp), world_gh1)" "rs_status resp = 202"
    using ingest_gh by blast
  then show ?thesis using ingest_only_verified [of api0 "''gh''" signed1 "[1]" world_gh "Inr (Some resp)" world_gh1] by auto
qed

theorem ingest_rejections_look_alike_witness:
  "fst (ingest api0 ''gh'' [] [1] world_gh) = fst (ingest api0 ''nobody'' [] [1] world_gh)"
proof -
  have "an_fault (answer_now world_gh) = No_fault" by (simp add: world_gh_def run_defs)
  note r = ingest_rejections_look_alike [where A = api0 and hs = "[]" and raw = "[1]", OF this, unfolded seen_gh]
  have "toy_encode (as_bytes ''k'' @ [1]) \<noteq> []" by (simp add: toy_encode_def as_bytes_def)
  then have "check_inbound api0 source1 Github [] [1] now =
      (Some (Inl (reject ''github: signature mismatch'')), sha256_hex api0 [1], ''github.event'')" for now
    by (simp add: verify_github_def hmac_hex_def or_default_def source1_def strip_prefix_def starts_with_def)
  then show ?thesis using r [where slug = "''gh''"] r [where slug = "''nobody''"]
    by (fastforce simp: source1_def provider_from_str_def)
qed

theorem replayed_body_is_not_bridged_witness:
  "w_db (snd (ingest api0 ''gh'' [] [1] (quiet_world 6 (Response 200 None) (w_db world_gh1)))) = w_db world_gh1"
proof -
  let ?w2 = "quiet_world 6 (Response 200 None) (w_db world_gh1)"
  obtain resp where i: "ingest api0 ''gh'' signed1 [1] world_gh = (Inr (Some resp), world_gh1)" "rs_status resp = 202"
    using ingest_gh by blast
  have s: "seen ?w2 = w_db world_gh1" "seen (after_lookup ?w2) = w_db world_gh1"
    by (simp_all add: seen_def answer_now_def after_lookup_def quiet_world_def quiet_def)
  have "run (ad_ushow api0) [] (w_db world_gh1) (seen ?w2)" unfolding s by (rule run.nil)
  from replayed_body_is_not_bridged [OF i _ this _ _ surjective_pairing, of "[]"]
  show ?thesis unfolding s seen_gh by (simp add: world_gh_def source1_def)
qed

end
