(* ===== verification/Api.thy ===== *)
theory Api
  imports Gateway
begin

text \<open>
  \<open>crates/dropless/src/api.rs\<close>: authentication, the handlers of the \<open>/v1\<close> routes, the
  operational and operator routes, and the router. A request is a value of the type \<open>call\<close>
  with the path, query and body already extracted by the framework; the pool, the limiter and
  the notifier of \<open>AppState\<close> are the world of theory \<open>Effects\<close>. The theorems: a protected
  route runs only for the tenant that owns the presented key; \<open>201\<close> means the message is
  stored with its fan-out; every request commits only transactions of the system; listing never
  fails on its query; error bodies show only fixed texts and what the caller sent.
\<close>

record app_state =
  st_metrics_token :: "string option"
  st_admin_token :: "string option"

section \<open>Authentication\<close>

definition auth :: "api_deps \<Rightarrow> headers \<Rightarrow> (string \<Rightarrow> response io) \<Rightarrow> response io" where
  "auth A hs next_handler =
     (case bearer_token A hs of
        None \<Rightarrow> ok (respond_with 401 Empty_body)
      | Some token \<Rightarrow>
          try_await (sql (\<lambda>a. tenant_for_api_key (hash_key A token))) (\<lambda>r. case r of
            Inr (Some tenant) \<Rightarrow> next_handler tenant
          | Inr None \<Rightarrow> ok (respond_with 401 Empty_body)
          | Inl e \<Rightarrow> ok (respond_with 500 Empty_body)))"

section \<open>Messages and deliveries\<close>

definition created_response :: "api_deps \<Rightarrow> enqueued_result \<Rightarrow> response" where
  "created_response A enq =
     respond_with 201 (Json (JObject [(''id'', jid A (en_event_id enq)),
       (''delivery_ids'', JArray (map (jid A) (en_delivery_ids enq)))]))"

definition limited :: "api_deps \<Rightarrow> string \<Rightarrow> response io \<Rightarrow> response io" where
  "limited A tenant k =
     limiter_check (ad_rnd A) tenant (\<lambda>refused. case refused of
       Some retry_after \<Rightarrow>
         ok \<lparr>rs_status = 429, rs_headers = [(''retry-after'', show_int retry_after)],
             rs_body = Json (JObject [(''error'', JString ''rate limit exceeded'')])\<rparr>
     | None \<Rightarrow> k)"

definition publish :: "api_deps \<Rightarrow> string \<Rightarrow> uuid option \<Rightarrow> string \<Rightarrow> json \<Rightarrow> response io" where
  "publish A tenant consumer_id event_type payload =
     try_await (enqueue_message (ad_ushow A) tenant consumer_id event_type payload) (\<lambda>r. case r of
       Inr enq \<Rightarrow> ping (ok (created_response A enq))
     | Inl e \<Rightarrow> ok (error_response (api_error_from e)))"

definition create_message :: "api_deps \<Rightarrow> string \<Rightarrow> string \<Rightarrow> json \<Rightarrow> response io" where
  "create_message A tenant event_type payload = limited A tenant (publish A tenant None event_type payload)"

definition page_limit :: "int option \<Rightarrow> int" where
  "page_limit limit = min (max (case limit of Some l \<Rightarrow> l | None \<Rightarrow> 50) 1) 200"

definition page_offset :: "int option \<Rightarrow> int" where
  "page_offset offset = max (case offset of Some x \<Rightarrow> x | None \<Rightarrow> 0) 0"

definition list_messages :: "api_deps \<Rightarrow> string \<Rightarrow> int option \<Rightarrow> int option \<Rightarrow> response io" where
  "list_messages A tenant limit offset =
     respond (sql (\<lambda>a. list_events tenant (page_limit limit) (page_offset offset)))
       (\<lambda>es. respond_with 200 (Json (JArray (map (event_json A) es))))"

definition get_message :: "api_deps \<Rightarrow> string \<Rightarrow> uuid \<Rightarrow> response io" where
  "get_message A tenant i =
     respond
       (await (sql (\<lambda>a. get_event i)) (\<lambda>found.
        await (ok_or_not_found (''event '' @ ad_ushow A i) found) (\<lambda>ev.
        if ev_tenant_id ev \<noteq> tenant then err (NotFound (''event '' @ ad_ushow A i))
        else await (sql (\<lambda>a. deliveries_for_event i)) (\<lambda>deliveries. ok (ev, deliveries)))))
       (\<lambda>(ev, deliveries). respond_with 200 (Json (JObject [(''event'', event_json A ev),
          (''deliveries'', JArray (map (delivery_json A) deliveries))])))"

definition get_delivery_detail :: "api_deps \<Rightarrow> string \<Rightarrow> uuid \<Rightarrow> response io" where
  "get_delivery_detail A tenant i =
     respond
       (await (sql (\<lambda>a. get_delivery i)) (\<lambda>found.
        await (ok_or_not_found (''delivery '' @ ad_ushow A i)
                 (Option.bind found (\<lambda>d. if dl_tenant_id d = tenant then Some d else None))) (\<lambda>delivery.
        await (sql (\<lambda>a. attempts_for_delivery i)) (\<lambda>attempts. ok (delivery, attempts)))))
       (\<lambda>(delivery, attempts). respond_with 200 (Json (JObject [(''delivery'', delivery_json A delivery),
          (''attempts'', JArray (map (attempt_json A) attempts))])))"

definition replay_delivery :: "api_deps \<Rightarrow> string \<Rightarrow> uuid \<Rightarrow> response io" where
  "replay_delivery A tenant i =
     respond
       (await (require_delivery (ad_ushow A) i) (\<lambda>delivery.
        if dl_tenant_id delivery \<noteq> tenant then err (NotFound (''delivery '' @ ad_ushow A i))
        else await (sql (\<lambda>a. reset_for_replay (an_now a) i)) (\<lambda>_. ok ())))
       (\<lambda>_. respond_with 202 Empty_body)"

section \<open>Endpoints\<close>

text \<open>\<open>secret.unwrap_or_else(generate_secret)\<close>.\<close>

definition secret_or_generated :: "api_deps \<Rightarrow> string option \<Rightarrow> (string \<Rightarrow> 'a io) \<Rightarrow> 'a io" where
  "secret_or_generated A secret k =
     (case secret of Some s \<Rightarrow> k s | None \<Rightarrow> fill_bytes (\<lambda>bs. k (generate_secret (ad_crypto A) bs)))"

definition created_endpoint_response :: "api_deps \<Rightarrow> endpoint \<times> string \<Rightarrow> response" where
  "created_endpoint_response A es =
     (case es of (endpoint, secret) \<Rightarrow>
        respond_with 201 (Json (JObject (endpoint_fields A endpoint @ [(''secret'', JString secret)]))))"

definition create_endpoint_for ::
  "api_deps \<Rightarrow> string \<Rightarrow> uuid option \<Rightarrow> string \<Rightarrow> string option \<Rightarrow> string list option \<Rightarrow> (endpoint \<times> string) io" where
  "create_endpoint_for A tenant consumer_id url secret event_types =
     secret_or_generated A secret (\<lambda>secret.
       await (sql (\<lambda>a. create_endpoint (an_now a) (an_uuid a) tenant consumer_id url secret event_types))
         (\<lambda>endpoint. ok (endpoint, secret)))"

definition create_endpoint_handler ::
  "api_deps \<Rightarrow> string \<Rightarrow> string \<Rightarrow> string option \<Rightarrow> string list option \<Rightarrow> response io" where
  "create_endpoint_handler A tenant url secret event_types =
     respond (create_endpoint_for A tenant None url secret event_types) (created_endpoint_response A)"

definition endpoints_response :: "api_deps \<Rightarrow> endpoint list \<Rightarrow> response" where
  "endpoints_response A eps = respond_with 200 (Json (JArray (map (endpoint_json A) eps)))"

definition list_endpoints_handler :: "api_deps \<Rightarrow> string \<Rightarrow> response io" where
  "list_endpoints_handler A tenant = respond (sql (\<lambda>a. list_endpoints tenant)) (endpoints_response A)"

definition get_endpoint_handler :: "api_deps \<Rightarrow> string \<Rightarrow> uuid \<Rightarrow> response io" where
  "get_endpoint_handler A tenant i =
     respond
       (await (sql (\<lambda>a. get_endpoint i)) (\<lambda>found.
        ok_or_not_found (''endpoint '' @ ad_ushow A i)
          (Option.bind found (\<lambda>e. if ep_tenant_id e = tenant then Some e else None))))
       (\<lambda>ep. respond_with 200 (Json (endpoint_json A ep)))"

definition update_endpoint_handler ::
  "api_deps \<Rightarrow> string \<Rightarrow> uuid \<Rightarrow> string option \<Rightarrow> bool option \<Rightarrow> string list option \<Rightarrow> response io" where
  "update_endpoint_handler A tenant i url disabled event_types =
     respond
       (await (sql (\<lambda>a. update_endpoint (an_now a) i tenant url disabled event_types)) (\<lambda>updated.
        ok_or_not_found (''endpoint '' @ ad_ushow A i) updated))
       (\<lambda>ep. respond_with 200 (Json (endpoint_json A ep)))"

section \<open>Consumers\<close>

definition resolve_consumer :: "string \<Rightarrow> string \<Rightarrow> consumer io" where
  "resolve_consumer tenant uid =
     await (sql (\<lambda>a. get_consumer tenant uid)) (\<lambda>found. ok_or_not_found (''consumer '' @ uid) found)"

definition create_consumer_handler :: "api_deps \<Rightarrow> string \<Rightarrow> string \<Rightarrow> string option \<Rightarrow> response io" where
  "create_consumer_handler A tenant uid name =
     respond
       (if trim uid = '''' then err (Invalid ''uid must not be empty'')
        else sql (\<lambda>a. create_consumer (an_now a) (an_uuid a) tenant uid name))
       (\<lambda>c. respond_with 201 (Json (consumer_json A c)))"

definition list_consumers_handler :: "api_deps \<Rightarrow> string \<Rightarrow> response io" where
  "list_consumers_handler A tenant =
     respond (sql (\<lambda>a. list_consumers tenant))
       (\<lambda>cs. respond_with 200 (Json (JArray (map (summary_json A) cs))))"

definition get_consumer_handler :: "api_deps \<Rightarrow> string \<Rightarrow> string \<Rightarrow> response io" where
  "get_consumer_handler A tenant uid =
     respond (resolve_consumer tenant uid) (\<lambda>c. respond_with 200 (Json (consumer_json A c)))"

definition create_consumer_endpoint_handler ::
  "api_deps \<Rightarrow> string \<Rightarrow> string \<Rightarrow> string \<Rightarrow> string option \<Rightarrow> string list option \<Rightarrow> response io" where
  "create_consumer_endpoint_handler A tenant uid url secret event_types =
     respond
       (await (resolve_consumer tenant uid) (\<lambda>consumer.
        create_endpoint_for A tenant (Some (co_id consumer)) url secret event_types))
       (created_endpoint_response A)"

definition list_consumer_endpoints_handler :: "api_deps \<Rightarrow> string \<Rightarrow> string \<Rightarrow> response io" where
  "list_consumer_endpoints_handler A tenant uid =
     respond
       (await (resolve_consumer tenant uid) (\<lambda>consumer. sql (\<lambda>a. list_endpoints_for_consumer (co_id consumer))))
       (endpoints_response A)"

definition create_consumer_message_handler ::
  "api_deps \<Rightarrow> string \<Rightarrow> string \<Rightarrow> string \<Rightarrow> json \<Rightarrow> response io" where
  "create_consumer_message_handler A tenant uid event_type payload =
     limited A tenant
       (try_await (resolve_consumer tenant uid) (\<lambda>r. case r of
          Inr consumer \<Rightarrow> publish A tenant (Some (co_id consumer)) event_type payload
        | Inl e \<Rightarrow> ok (error_response (api_error_from e))))"

definition list_consumer_messages_handler ::
  "api_deps \<Rightarrow> string \<Rightarrow> string \<Rightarrow> int option \<Rightarrow> int option \<Rightarrow> response io" where
  "list_consumer_messages_handler A tenant uid limit offset =
     respond
       (await (resolve_consumer tenant uid) (\<lambda>consumer.
        sql (\<lambda>a. list_events_for_consumer (co_id consumer) (page_limit limit) (page_offset offset))))
       (\<lambda>es. respond_with 200 (Json (JArray (map (event_json A) es))))"

section \<open>Inbound sources\<close>

text \<open>\<open>s.len()\<close> counts bytes.\<close>

definition create_inbound_source_handler ::
  "api_deps \<Rightarrow> string \<Rightarrow> string \<Rightarrow> string \<Rightarrow> string option \<Rightarrow> response io" where
  "create_inbound_source_handler A tenant slug provider secret =
     respond
       (case provider_from_str (ad_dbg A) provider of
          Inl e \<Rightarrow> err e
        | Inr _ \<Rightarrow>
            if (case secret of Some s \<Rightarrow> length s < 16 | None \<Rightarrow> False)
            then err (Invalid ''secret must be at least 16 characters'')
            else secret_or_generated A secret (\<lambda>secret.
              await (sql (\<lambda>a. create_inbound_source (an_now a) (an_uuid a) tenant slug provider secret))
                (\<lambda>source. ok (source, secret))))
       (\<lambda>(source, secret).
          respond_with 201 (Json (JObject (source_fields A source @ [(''secret'', JString secret)]))))"

definition list_inbound_sources_handler :: "api_deps \<Rightarrow> string \<Rightarrow> response io" where
  "list_inbound_sources_handler A tenant =
     respond (sql (\<lambda>a. list_inbound_sources tenant))
       (\<lambda>ss. respond_with 200 (Json (JArray (map (source_json A) ss))))"

section \<open>Health, metrics, operator console\<close>

definition healthz :: "response io" where
  "healthz = ok (respond_with 200 (Text ''ok''))"

definition db_unavailable :: response where
  "db_unavailable = respond_with 503 (Text ''db unavailable'')"

definition readyz :: "response io" where
  "readyz = try_await (sql (\<lambda>a db. Inr ((), db))) (\<lambda>r. case r of
     Inr _ \<Rightarrow> ok (respond_with 200 (Text ''ready'')) | Inl e \<Rightarrow> ok db_unavailable)"

definition metrics_text :: "int \<Rightarrow> (string \<times> int) list \<Rightarrow> string" where
  "metrics_text events counts =
     ''# HELP dropless_events_total Events accepted (ingest volume).'' @ [CHR 0x0A] @
     ''# TYPE dropless_events_total counter'' @ [CHR 0x0A] @
     ''dropless_events_total '' @ show_int events @ [CHR 0x0A] @
     ''# HELP dropless_deliveries Deliveries by status.'' @ [CHR 0x0A] @
     ''# TYPE dropless_deliveries gauge'' @ [CHR 0x0A] @
     concat (map (\<lambda>(status, count).
       ''dropless_deliveries{status='' @ [CHR 0x22] @ status @ [CHR 0x22] @ ''} '' @ show_int count @ [CHR 0x0A]) counts)"

definition metrics :: "api_deps \<Rightarrow> app_state \<Rightarrow> headers \<Rightarrow> response io" where
  "metrics A S hs =
     (if st_metrics_token S \<noteq> None \<and> bearer_token A hs \<noteq> st_metrics_token S
      then ok (respond_with 401 (Text ''unauthorized''))
      else try_await (sql (\<lambda>a. status_counts)) (\<lambda>r. case r of
        Inl e \<Rightarrow> ok db_unavailable
      | Inr counts \<Rightarrow>
          try_await (sql (\<lambda>a. total_events)) (\<lambda>n.
          ok (respond_with 200 (Text (metrics_text (case n of Inr k \<Rightarrow> k | Inl e \<Rightarrow> 0) counts))))))"

definition admin_gate :: "api_deps \<Rightarrow> app_state \<Rightarrow> headers \<Rightarrow> response option" where
  "admin_gate A S hs =
     (case st_admin_token S of
        None \<Rightarrow> Some (respond_with 404 Empty_body)
      | Some expected \<Rightarrow>
          if bearer_token A hs = Some expected then None
          else Some (respond_with 401 (Text ''unauthorized'')))"

definition admin_overview :: "api_deps \<Rightarrow> app_state \<Rightarrow> headers \<Rightarrow> response io" where
  "admin_overview A S hs =
     (case admin_gate A S hs of
        Some rej \<Rightarrow> ok rej
      | None \<Rightarrow> try_await (sql (\<lambda>a. admin_tenant_stats (ad_collate A))) (\<lambda>r. case r of
          Inr stats \<Rightarrow> ok (respond_with 200 (Json (JArray (map tenant_stat_json stats))))
        | Inl e \<Rightarrow> ok db_unavailable))"

definition admin_failures :: "api_deps \<Rightarrow> app_state \<Rightarrow> headers \<Rightarrow> response io" where
  "admin_failures A S hs =
     (case admin_gate A S hs of
        Some rej \<Rightarrow> ok rej
      | None \<Rightarrow> try_await (sql (\<lambda>a. admin_recent_failures 100)) (\<lambda>r. case r of
          Inr f \<Rightarrow> ok (respond_with 200 (Json (JArray (map (recent_failure_json A) f))))
        | Inl e \<Rightarrow> ok db_unavailable))"

definition admin_dashboard :: "api_deps \<Rightarrow> app_state \<Rightarrow> response io" where
  "admin_dashboard A S =
     (if st_admin_token S = None then ok (respond_with 404 Empty_body)
      else ok (respond_with 200 (Html (ad_admin_page A))))"

definition dashboard :: "api_deps \<Rightarrow> response io" where
  "dashboard A = ok (respond_with 200 (Html (ad_dashboard A)))"

section \<open>The router\<close>

datatype v1_call =
  CreateMessage string json
| ListMessages "int option" "int option"
| GetMessage uuid
| GetDelivery uuid
| ReplayDelivery uuid
| CreateEndpoint string "string option" "string list option"
| ListEndpoints
| GetEndpoint uuid
| UpdateEndpoint uuid "string option" "bool option" "string list option"
| CreateConsumer string "string option"
| ListConsumers
| GetConsumer string
| CreateConsumerEndpoint string string "string option" "string list option"
| ListConsumerEndpoints string
| CreateConsumerMessage string string json
| ListConsumerMessages string "int option" "int option"
| CreateInboundSource string string "string option"
| ListInboundSources

datatype call = V1 v1_call | Dashboard | Healthz | Readyz | Metrics | Ingest string bytes
| AdminDashboard | AdminOverview | AdminFailures

fun v1_handler :: "api_deps \<Rightarrow> v1_call \<Rightarrow> string \<Rightarrow> response io" where
  "v1_handler A (CreateMessage ty payload) t = create_message A t ty payload"
| "v1_handler A (ListMessages l f) t = list_messages A t l f"
| "v1_handler A (GetMessage i) t = get_message A t i"
| "v1_handler A (GetDelivery i) t = get_delivery_detail A t i"
| "v1_handler A (ReplayDelivery i) t = replay_delivery A t i"
| "v1_handler A (CreateEndpoint url sec tys) t = create_endpoint_handler A t url sec tys"
| "v1_handler A ListEndpoints t = list_endpoints_handler A t"
| "v1_handler A (GetEndpoint i) t = get_endpoint_handler A t i"
| "v1_handler A (UpdateEndpoint i url dis tys) t = update_endpoint_handler A t i url dis tys"
| "v1_handler A (CreateConsumer uid name) t = create_consumer_handler A t uid name"
| "v1_handler A ListConsumers t = list_consumers_handler A t"
| "v1_handler A (GetConsumer uid) t = get_consumer_handler A t uid"
| "v1_handler A (CreateConsumerEndpoint uid url sec tys) t = create_consumer_endpoint_handler A t uid url sec tys"
| "v1_handler A (ListConsumerEndpoints uid) t = list_consumer_endpoints_handler A t uid"
| "v1_handler A (CreateConsumerMessage uid ty payload) t = create_consumer_message_handler A t uid ty payload"
| "v1_handler A (ListConsumerMessages uid l f) t = list_consumer_messages_handler A t uid l f"
| "v1_handler A (CreateInboundSource slug prov sec) t = create_inbound_source_handler A t slug prov sec"
| "v1_handler A ListInboundSources t = list_inbound_sources_handler A t"

fun router :: "api_deps \<Rightarrow> app_state \<Rightarrow> headers \<Rightarrow> call \<Rightarrow> response option io" where
  "router A S hs (V1 c) = await (auth A hs (v1_handler A c)) (\<lambda>r. ok (Some r))"
| "router A S hs Dashboard = await (dashboard A) (\<lambda>r. ok (Some r))"
| "router A S hs Healthz = await healthz (\<lambda>r. ok (Some r))"
| "router A S hs Readyz = await readyz (\<lambda>r. ok (Some r))"
| "router A S hs Metrics = await (metrics A S hs) (\<lambda>r. ok (Some r))"
| "router A S hs (Ingest slug raw) =
     (if length raw > ingest_body_limit then ok (Some (ad_too_large A)) else ingest A slug hs raw)"
| "router A S hs AdminDashboard = await (admin_dashboard A S) (\<lambda>r. ok (Some r))"
| "router A S hs AdminOverview = await (admin_overview A S hs) (\<lambda>r. ok (Some r))"
| "router A S hs AdminFailures = await (admin_failures A S hs) (\<lambda>r. ok (Some r))"

section \<open>Only transactions of the system\<close>

lemma read_obeys:
  assumes "\<And>a db x db'. f a db = Inr (x, db') \<Longrightarrow> db' = db"
  shows "obeys R (sql f)"
  by (rule obeys_sql) (use assms in auto)

lemma step_obeys:
  assumes "\<And>a db x db'. f a db = Inr (x, db') \<Longrightarrow> \<exists>l. db_step ushow l db db'"
  shows "obeys (any_step ushow) (sql f)"
  by (rule obeys_sql) (use assms in \<open>auto simp: any_step_def\<close>)

lemma reads_obey [obeys_intro]:
  "obeys R (sql (\<lambda>a. tenant_for_api_key h))" "obeys R (sql (\<lambda>a. list_events t l f))"
  "obeys R (sql (\<lambda>a. get_event i))" "obeys R (sql (\<lambda>a. deliveries_for_event i))"
  "obeys R (sql (\<lambda>a. get_delivery i))" "obeys R (sql (\<lambda>a. attempts_for_delivery i))"
  "obeys R (sql (\<lambda>a. list_endpoints t))"
  "obeys R (sql (\<lambda>a. get_endpoint i))" "obeys R (sql (\<lambda>a. get_consumer t uid))"
  "obeys R (sql (\<lambda>a. list_consumers t))" "obeys R (sql (\<lambda>a. list_endpoints_for_consumer i))"
  "obeys R (sql (\<lambda>a. list_events_for_consumer i l f))" "obeys R (sql (\<lambda>a. list_inbound_sources t))"
  "obeys R (sql (\<lambda>a. get_inbound_source_by_slug s))" "obeys R (sql (\<lambda>a db. Inr ((), db)))"
  "obeys R (sql (\<lambda>a. status_counts))" "obeys R (sql (\<lambda>a. total_events))"
  "obeys R (sql (\<lambda>a. admin_tenant_stats c))" "obeys R (sql (\<lambda>a. admin_recent_failures l))"
  by (rule read_obeys; auto simp: stmt_defs list_events_def list_events_for_consumer_def limit_offset_def
      admin_tenant_stats_def admin_recent_failures_def split: if_splits option.splits)+

lemma writes_obey [obeys_intro]:
  "obeys (any_step ushow) (sql (\<lambda>a. reset_for_replay (an_now a) i))"
  "obeys (any_step ushow) (sql (\<lambda>a. update_endpoint (an_now a) i t url dis tys))"
  "obeys (any_step ushow) (sql (\<lambda>a. create_consumer (an_now a) (an_uuid a) t uid name))"
  by (rule step_obeys, blast intro: db_step.replay db_step.update_endpoint db_step.create_consumer)+

lemma source_obeys [obeys_intro]:
  assumes "provider_from_str dbg prov = Inr p"
  shows "obeys (any_step ushow) (sql (\<lambda>a. create_inbound_source (an_now a) (an_uuid a) t slug prov sec))"
  using assms by (intro step_obeys) (auto simp: provider_from_str_Inr_iff intro: db_step.create_source)

lemma in_scope_stable: "rtranclp (any_step ushow) db db' \<Longrightarrow> in_scope db t c \<Longrightarrow> in_scope db' t c"
  using any_steps_extends in_scope_extends by blast

lemma create_endpoint_obeys:
  "obeys_from (\<lambda>db. in_scope db t c) (any_step ushow)
     (sql (\<lambda>a. create_endpoint (an_now a) (an_uuid a) t c url sec tys))"
proof (rule obeys_from_sql)
  fix a db x db'
  assume "in_scope db t c" "create_endpoint (an_now a) (an_uuid a) t c url sec tys db = Inr (x, db')"
  then have "any_step ushow db db'" unfolding any_step_def by (blast intro: db_step.create_endpoint)
  then show "rtranclp (any_step ushow) db db'" by (rule r_into_rtranclp)
qed (use in_scope_stable in \<open>auto simp: kept_by_def\<close>)

lemma create_endpoint_for_obeys:
  "obeys_from (\<lambda>db. in_scope db t c) (any_step ushow) (create_endpoint_for A t c url sec tys)"
  unfolding create_endpoint_for_def secret_or_generated_def
  by (auto split: option.split intro!: obeys_from_await obeys_from_server create_endpoint_obeys obeys_intro)

lemma enqueue_obeys: "obeys_from (\<lambda>db. in_scope db t c) (any_step ushow) (enqueue_message ushow t c ty p)"
  by (rule obeys_fromI) (use enqueue_message_steps in blast)

lemma publish_obeys: "obeys_from (\<lambda>db. in_scope db t c) (any_step (ad_ushow A)) (publish A t c ty p)"
  unfolding publish_def
  by (rule obeys_from_try_await [OF enqueue_obeys]) (auto split: sum.split intro!: obeys_intro)

lemma obeys_from_None: "obeys_from (\<lambda>db. in_scope db t None) R m \<Longrightarrow> obeys R m"
  by (simp add: obeys_from_def obeys_def)

lemma found_obeys [obeys_intro]: "obeys R (ok_or_not_found s x)"
  unfolding ok_or_not_found_def by (auto split: option.split intro!: obeys_intro)

lemma require_obeys [obeys_intro]: "obeys R (require_delivery u i)"
  unfolding require_delivery_def by (intro obeys_intro)

text \<open>A resolved consumer belongs to the tenant, and stays so.\<close>

lemma resolve_obeys [obeys_intro]: "obeys R (resolve_consumer t uid)"
  unfolding resolve_consumer_def ok_or_not_found_def
  by (intro obeys_intro) (auto split: option.split intro!: obeys_intro)

lemma found_consumer_in_scope:
  assumes "sql (\<lambda>a. get_consumer t uid) w = (Inr (Some c), w')"
  shows "in_scope (w_db w') t (Some (co_id c))"
proof -
  have "wp (sql (\<lambda>a. get_consumer t uid)) (\<lambda>r w'. \<forall>c. r = Inr (Some c) \<longrightarrow> in_scope (w_db w') t (Some (co_id c))) w"
    by (rule wp_sql) (auto simp: get_consumer_def in_scope_def find_Some_iff)
  from wpD [OF this assms] show ?thesis by simp
qed

lemma resolved_in_scope:
  assumes "resolve_consumer t uid w = (Inr c, w')"
  shows "in_scope (w_db w') t (Some (co_id c))"
proof -
  have "sql (\<lambda>a. get_consumer t uid) w = (Inr (Some c), w')"
    using assms by (auto simp: resolve_consumer_def ok_or_not_found_def await_def ok_def err_def
      split: prod.splits sum.splits option.splits)
  then show ?thesis by (rule found_consumer_in_scope)
qed

lemma obeys_after_resolve:
  assumes "\<And>e. obeys R (k (Inl e))" "\<And>c. obeys_from (\<lambda>db. in_scope db t (Some (co_id c))) R (k (Inr c))"
  shows "obeys R (try_await (resolve_consumer t uid) k)"
proof (rule obeys_established [where P = "\<lambda>r db. \<forall>c. r = Inr c \<longrightarrow> in_scope db t (Some (co_id c))"])
  show "obeys_from (\<lambda>db. \<forall>c. r = Inr c \<longrightarrow> in_scope db t (Some (co_id c))) R (k r)" for r
    using assms by (cases r) (simp_all add: obeys_from_weaken)
qed (use resolved_in_scope in \<open>auto intro: resolve_obeys\<close>)

lemma respond_obeys [obeys_intro]: "obeys R m \<Longrightarrow> obeys R (respond m f)"
  unfolding respond_def by (intro obeys_intro) (auto split: sum.split intro!: obeys_intro)

lemma limited_obeys [obeys_intro]: "obeys R m \<Longrightarrow> obeys R (limited A t m)"
  unfolding limited_def by (intro obeys_intro) (auto split: option.split intro!: obeys_intro)

lemmas handler_defs = list_messages_def get_message_def get_delivery_detail_def replay_delivery_def
  list_endpoints_handler_def get_endpoint_handler_def update_endpoint_handler_def create_consumer_handler_def
  list_consumers_handler_def get_consumer_handler_def list_consumer_endpoints_handler_def
  list_consumer_messages_handler_def list_inbound_sources_handler_def create_endpoint_handler_def
  create_consumer_endpoint_handler_def

lemma v1_obeys: "obeys (any_step (ad_ushow A)) (v1_handler A c t)"
proof (cases c)
  case (CreateConsumerEndpoint uid url sec tys)
  show ?thesis
    unfolding CreateConsumerEndpoint v1_handler.simps create_consumer_endpoint_handler_def await_as_try
    by (intro respond_obeys obeys_after_resolve) (auto intro: obeys_intro create_endpoint_for_obeys)
next
  case (CreateConsumerMessage uid ty p)
  show ?thesis
    unfolding CreateConsumerMessage v1_handler.simps create_consumer_message_handler_def
    by (intro limited_obeys obeys_after_resolve) (auto intro: obeys_intro publish_obeys)
next
  case (CreateMessage ty p)
  show ?thesis
    unfolding CreateMessage v1_handler.simps create_message_def
    by (intro limited_obeys obeys_from_None [OF publish_obeys])
next
  case (CreateEndpoint url sec tys)
  show ?thesis
    unfolding CreateEndpoint v1_handler.simps create_endpoint_handler_def
    by (intro respond_obeys obeys_from_None [OF create_endpoint_for_obeys])
next
  case (CreateInboundSource slug prov sec)
  show ?thesis
    unfolding CreateInboundSource v1_handler.simps create_inbound_source_handler_def secret_or_generated_def
    by (intro respond_obeys) (auto split: sum.split option.split intro!: obeys_intro)
qed (auto simp: handler_defs intro!: obeys_intro)

lemma auth_obeys [obeys_intro]: "(\<And>t. obeys R (k t)) \<Longrightarrow> obeys R (auth A hs k)"
  unfolding auth_def by (auto split: option.split sum.split intro!: obeys_intro)

lemma accept_obeys [obeys_intro]: "obeys (any_step ushow) (accept ushow src sid ty raw p)"
  by (rule obeysI) (use accept_steps in \<open>auto simp: wp_def split: prod.splits\<close>)

lemma ingest_obeys [obeys_intro]: "obeys (any_step (ad_ushow A)) (ingest A slug hs raw)"
  unfolding ingest_def
  by (intro obeys_intro)
    (auto split: sum.split option.split prod.split accepted.split simp: unit_all_eq1 intro!: obeys_intro)

lemma router_obeys: "obeys (any_step (ad_ushow A)) (router A S hs c)"
  by (cases c)
    (auto simp: dashboard_def healthz_def readyz_def metrics_def admin_dashboard_def admin_overview_def
      admin_failures_def split: sum.split option.split intro!: obeys_intro v1_obeys)

lemma obeys_reachable:
  assumes "obeys (any_step ushow) m" "env_ok (any_step ushow) w" "run ushow as empty_db (w_db w)" "m w = (r, w')"
  shows "\<exists>bs. run ushow bs empty_db (w_db w') \<and> extends (w_db w) (w_db w')"
proof -
  let ?R = "rtranclp (any_step ushow)"
  have s: "?R (w_db w) (w_db w')" using obeysD [OF assms(1,4,2)] by blast
  have "?R empty_db (w_db w)" using assms(3) by (rule run_any_steps)
  then have "?R empty_db (w_db w')" using s by (rule rtranclp_trans)
  then show ?thesis using any_steps_run any_steps_extends [OF s] by blast
qed

text \<open>Whatever the API is asked, by anybody, under any faults and any interleaving, the database
  only moves by transactions of the system: a request to a reachable database leaves a reachable
  one, in which nothing that was stored is lost.\<close>

theorem api_commits_only_system_steps:
  assumes "env_ok (any_step (ad_ushow A)) w" "run (ad_ushow A) as empty_db (w_db w)"
    and "router A S hs c w = (r, w')"
  shows "\<exists>bs. run (ad_ushow A) bs empty_db (w_db w') \<and> extends (w_db w) (w_db w')"
  using obeys_reachable [OF router_obeys assms] .

section \<open>Authentication is required\<close>

lemma auth_cases:
  assumes "auth A hs handler w = (r, w')"
  shows "(\<exists>code\<in>{401, 500}. r = Inr (respond_with code Empty_body) \<and> w_db w' \<in> {w_db w, seen w}) \<or>
    (\<exists>token k. bearer_token A hs = Some token \<and> k \<in> set (t_api_keys (seen w)) \<and> ak_key_hash k = hash_key A token \<and>
       (r, w') = handler (ak_tenant_id k) ((tick w)\<lparr>w_db := seen w\<rparr>))"
proof (cases "bearer_token A hs")
  case None
  then show ?thesis using assms by (auto simp: auth_def ok_def)
next
  case (Some token)
  let ?f = "\<lambda>a. tenant_for_api_key (hash_key A token)"
  obtain x w1 where q: "sql ?f w = (x, w1)" by (rule prod.exhaust)
  have "wp (sql ?f) (\<lambda>r w'. w_db w' = seen w \<and> (\<forall>t. r = Inr (Some t) \<longrightarrow> w' = (tick w)\<lparr>w_db := seen w\<rparr> \<and>
      (\<exists>k\<in>set (t_api_keys (seen w)). ak_key_hash k = hash_key A token \<and> ak_tenant_id k = t))) w"
    by (rule wp_sql) (auto simp: tenant_for_api_key_def find_Some_iff)
  from wpD [OF this q] have db: "w_db w1 = seen w" and found: "\<And>t. x = Inr (Some t) \<Longrightarrow> w1 = (tick w)\<lparr>w_db := seen w\<rparr> \<and>
      (\<exists>k\<in>set (t_api_keys (seen w)). ak_key_hash k = hash_key A token \<and> ak_tenant_id k = t)" by auto
  show ?thesis
  proof (cases "\<exists>t. x = Inr (Some t)")
    case True
    then obtain k where "x = Inr (Some (ak_tenant_id k))" "k \<in> set (t_api_keys (seen w))" "ak_key_hash k = hash_key A token"
      using found by blast
    moreover from this found have "w1 = (tick w)\<lparr>w_db := seen w\<rparr>" by blast
    ultimately show ?thesis using assms Some q by (auto simp: auth_def try_await_def)
  next
    case False
    then show ?thesis using assms Some q db
      by (cases x) (auto simp: auth_def try_await_def ok_def split: option.splits)
  qed
qed

lemma authenticated:
  assumes "router A S hs (V1 c) w = (r, w')"
  shows "(\<exists>code\<in>{401, 500}. r = Inr (Some (respond_with code Empty_body)) \<and> w_db w' \<in> {w_db w, seen w}) \<or>
    (\<exists>token k. bearer_token A hs = Some token \<and> k \<in> set (t_api_keys (seen w)) \<and> ak_key_hash k = hash_key A token \<and>
       (r, w') = await (v1_handler A c (ak_tenant_id k)) (\<lambda>x. ok (Some x)) ((tick w)\<lparr>w_db := seen w\<rparr>))"
proof -
  obtain x w1 where x: "auth A hs (v1_handler A c) w = (x, w1)" by (rule prod.exhaust)
  have r: "(r, w') = (case x of Inl e \<Rightarrow> (Inl e, w1) | Inr y \<Rightarrow> (Inr (Some y), w1))"
    using assms x by (auto simp: await_def ok_def split: sum.splits)
  from auth_cases [OF x] show ?thesis
  proof (elim disjE exE conjE bexE)
    fix token k
    assume k: "bearer_token A hs = Some token" "k \<in> set (t_api_keys (seen w))" "ak_key_hash k = hash_key A token"
      and h: "(x, w1) = v1_handler A c (ak_tenant_id k) ((tick w)\<lparr>w_db := seen w\<rparr>)"
    have "(r, w') = await (v1_handler A c (ak_tenant_id k)) (\<lambda>x. ok (Some x)) ((tick w)\<lparr>w_db := seen w\<rparr>)"
      unfolding await_def h [symmetric] using r by (auto simp: ok_def split: sum.splits)
    with k show ?thesis by blast
  qed (use r in auto)
qed

text \<open>A protected route either answers 401 or 500 with an empty body and commits nothing, or the
  bearer token hashes to a stored API key and the handler runs for the tenant that owns this
  key.\<close>

theorem protected_routes_need_a_key:
  assumes "router A S hs (V1 c) w = (r, w')"
  shows "(\<exists>code\<in>{401, 500}. r = Inr (Some (respond_with code Empty_body)) \<and> w_db w' \<in> {w_db w, seen w}) \<or>
    (\<exists>token k. bearer_token A hs = Some token \<and> k \<in> set (t_api_keys (seen w)) \<and> ak_key_hash k = hash_key A token \<and>
       (r, w') = await (v1_handler A c (ak_tenant_id k)) (\<lambda>x. ok (Some x)) ((tick w)\<lparr>w_db := seen w\<rparr>))"
  using authenticated [OF assms] .

section \<open>201 means stored\<close>

lemma error_status: "rs_status (error_response (api_error_from e)) \<in> {400, 404, 409, 500}"
  by (cases e rule: api_error_from.cases) (simp_all add: respond_with_def)

lemma publish_post:
  assumes "publish A t c ty p w = (Inr resp, w')" "rs_status resp = 201"
  shows "\<exists>now (q :: enqueued_result). resp = created_response A q \<and>
    enqueued (ad_ushow A) now (en_event_id q) (en_delivery_ids q) t c ty p (seen (tick w)) (w_db w')"
proof -
  obtain x w1 where e: "enqueue_message (ad_ushow A) t c ty p w = (x, w1)" by (rule prod.exhaust)
  show ?thesis
  proof (cases x)
    case (Inl er)
    then show ?thesis using assms e error_status [of er] by (simp add: publish_def try_await_def ok_def)
  next
    case (Inr q)
    have "resp = created_response A q" "w_db w' = w_db w1"
      using assms(1) e Inr by (auto simp: publish_def try_await_def ping_def ok_def)
    then show ?thesis using enqueue_message_post [OF e] Inr by (auto intro!: exI [of _ q])
  qed
qed

lemma limited_cases:
  assumes "limited A t k w = (Inr resp, w')"
  obtains "rs_status resp = 429" | l where "k ((tick w)\<lparr>w_limiter := l\<rparr>) = (Inr resp, w')"
  using assms by (auto simp: limited_def limiter_check_def ok_def Let_def split: prod.splits option.splits)

lemma message_created:
  assumes "router A S hs (V1 (CreateMessage ty payload)) w = (Inr (Some resp), w')" "rs_status resp = 201"
  shows "\<exists>token k now (q :: enqueued_result) db. bearer_token A hs = Some token \<and> k \<in> set (t_api_keys (seen w)) \<and>
    ak_key_hash k = hash_key A token \<and> resp = created_response A q \<and>
    enqueued (ad_ushow A) now (en_event_id q) (en_delivery_ids q) (ak_tenant_id k) None ty payload db (w_db w')"
proof -
  obtain token k where k: "bearer_token A hs = Some token" "k \<in> set (t_api_keys (seen w))" "ak_key_hash k = hash_key A token"
    and run: "await (v1_handler A (CreateMessage ty payload) (ak_tenant_id k)) (\<lambda>x. ok (Some x)) ((tick w)\<lparr>w_db := seen w\<rparr>)
      = (Inr (Some resp), w')"
    using authenticated [OF assms(1)] assms(2) by (auto simp: respond_with_def)
  then have "limited A (ak_tenant_id k) (publish A (ak_tenant_id k) None ty payload) ((tick w)\<lparr>w_db := seen w\<rparr>) = (Inr resp, w')"
    by (auto simp: create_message_def await_def ok_def split: prod.splits sum.splits)
  then obtain w1 where "publish A (ak_tenant_id k) None ty payload w1 = (Inr resp, w')"
    by (rule limited_cases) (use assms(2) in auto)
  from publish_post [OF this assms(2)] obtain now and q :: enqueued_result where q: "resp = created_response A q"
    "enqueued (ad_ushow A) now (en_event_id q) (en_delivery_ids q) (ak_tenant_id k) None ty payload (seen (tick w1)) (w_db w')"
    by blast
  then show ?thesis using k by blast
qed

text \<open>Created means stored: when \<open>POST /v1/messages\<close> answers 201, the caller's token names a
  stored key, and the last commit turned some database into the present one by adding, for the
  key's tenant, the event with the returned id and the payload sent, and exactly one pending,
  immediately due delivery, with the returned ids, for each enabled tenant-level endpoint that
  subscribes to the event type.\<close>

theorem created_means_stored:
  assumes "router A S hs (V1 (CreateMessage ty payload)) w = (Inr (Some resp), w')" "rs_status resp = 201"
  shows "\<exists>token k now (q :: enqueued_result) db. bearer_token A hs = Some token \<and> k \<in> set (t_api_keys (seen w)) \<and>
    ak_key_hash k = hash_key A token \<and> resp = created_response A q \<and>
    t_events (w_db w') = t_events db @ [\<lparr>ev_id = en_event_id q, ev_tenant_id = ak_tenant_id k, ev_consumer_id = None,
        ev_event_type = ty, ev_payload = payload, ev_created_at = now\<rparr>] \<and>
    t_deliveries (w_db w') = t_deliveries db @
      map (\<lambda>(did, ep). new_delivery (ad_ushow A) now did (en_event_id q) (ep_id ep) (ak_tenant_id k))
        (zip (en_delivery_ids q) (recipients (ak_tenant_id k) None ty db)) \<and>
    length (en_delivery_ids q) = length (recipients (ak_tenant_id k) None ty db) \<and>
    t_endpoints (w_db w') = t_endpoints db"
proof -
  obtain token k now db and q :: enqueued_result where k: "bearer_token A hs = Some token" "k \<in> set (t_api_keys (seen w))"
    "ak_key_hash k = hash_key A token" "resp = created_response A q"
    and q: "enqueued (ad_ushow A) now (en_event_id q) (en_delivery_ids q) (ak_tenant_id k) None ty payload db (w_db w')"
    using message_created [OF assms] by blast
  from enqueued_result [OF q] show ?thesis
    by (intro exI [of _ token] exI [of _ k] exI [of _ now] exI [of _ q] exI [of _ db]) (simp add: k)
qed

section \<open>Listing\<close>

lemma page_bounds: "1 \<le> page_limit l" "page_limit l \<le> 200" "0 \<le> page_offset f"
  by (auto simp: page_limit_def page_offset_def)

text \<open>Listing never fails on its query: for every limit and offset the caller may send, negative
  and huge ones included, \<open>GET /v1/messages\<close> answers 200 as long as the database does, with at
  most 200 events, all of the caller's tenant, newest first.\<close>

theorem listing_never_fails:
  assumes "an_fault (answer_now w) = No_fault"
  shows "\<exists>es w'. list_messages A t limit offset w =
      (Inr (respond_with 200 (Json (JArray (map (event_json A) es)))), w') \<and>
    length es \<le> 200 \<and> (\<forall>e\<in>set es. e \<in> set (t_events (seen w)) \<and> ev_tenant_id e = t) \<and>
    sorted (map (\<lambda>e. - ev_created_at e) es)"
proof -
  let ?rows = "sort_key (\<lambda>e. - ev_created_at e) (filter (\<lambda>e. ev_tenant_id e = t) (t_events (seen w)))"
  let ?es = "take (nat (page_limit limit)) (drop (nat (page_offset offset)) ?rows)"
  have "list_messages A t limit offset w =
      (Inr (respond_with 200 (Json (JArray (map (event_json A) ?es)))), (tick w)\<lparr>w_db := seen w\<rparr>)"
    using assms page_bounds [of limit] page_bounds(3) [of offset]
    by (simp add: list_messages_def respond_def try_await_def sql_def list_events_def limit_offset_def ok_def Let_def)
  moreover have "length ?es \<le> 200" using page_bounds(2) [of limit] by auto
  moreover have "set ?es \<subseteq> set ?rows" by (meson set_drop_subset set_take_subset subset_trans)
  moreover have "sorted (map (\<lambda>e. - ev_created_at e) ?es)"
    by (simp only: take_map [symmetric] drop_map [symmetric] sorted_wrt_take sorted_wrt_drop sorted_sort_key)
  ultimately show ?thesis by (intro exI conjI) auto
qed

section \<open>Error bodies\<close>

text \<open>The errors a program may end with.\<close>

definition raises :: "core_error set \<Rightarrow> 'a io \<Rightarrow> bool" where
  "raises E m \<longleftrightarrow> (\<forall>w e. fst (m w) = Inl e \<longrightarrow> e \<in> E)"

named_theorems raises_intro "the errors a program may end with"

lemma raises_basic [raises_intro]: "raises E (ok x)" "e \<in> E \<Longrightarrow> raises E (err e)"
  by (simp_all add: raises_def ok_def err_def)

lemma raises_await [raises_intro]: "raises E m \<Longrightarrow> (\<And>x. raises E (k x)) \<Longrightarrow> raises E (await m k)"
  by (auto simp: raises_def await_def split: prod.splits sum.splits) (metis fst_conv)+

lemma raises_reads [raises_intro]:
  "(\<And>x. raises E (k x)) \<Longrightarrow> raises E (fill_bytes k)" "(\<And>x. raises E (k' x)) \<Longrightarrow> raises E (now_v7 k')"
  by (simp_all add: raises_def fill_bytes_def now_v7_def)

text \<open>Database errors are always possible.\<close>

lemma raises_sql [raises_intro]:
  assumes "range Db \<subseteq> E" "\<And>a db e. f a db = Inl e \<Longrightarrow> e \<in> E"
  shows "raises E (sql f)"
proof -
  have "connection_error \<in> E" using assms(1) by (auto simp: connection_error_def)
  then show ?thesis
    using assms(2) by (auto simp: raises_def sql_def Let_def split: fault.splits sum.splits)
qed

lemma raises_tx [raises_intro]:
  assumes "range Db \<subseteq> E"
  shows "(\<And>a t db e. f a t db = Inl e \<Longrightarrow> e \<in> E) \<Longrightarrow> raises E (tsql f)" "raises E m \<Longrightarrow> raises E (with_tx m)"
    "raises E commit"
proof -
  have c: "connection_error \<in> E" using assms by (auto simp: connection_error_def)
  then show "(\<And>a t db e. f a t db = Inl e \<Longrightarrow> e \<in> E) \<Longrightarrow> raises E (tsql f)" "raises E commit"
    by (auto simp: raises_def tsql_def commit_def Let_def split: option.splits sum.splits if_splits fault.splits)
  show "raises E (with_tx m)" if "raises E m"
    using c that by (auto simp: raises_def with_tx_def Let_def split: prod.splits) (metis fst_conv)
qed

lemma db_errors:
  "create_endpoint now fresh t c url sec tys db = Inl e \<Longrightarrow> e \<in> range Db"
  "create_consumer now fresh t uid name db = Inl e \<Longrightarrow> e \<in> range Db"
  "create_inbound_source now fresh t slug prov sec db = Inl e \<Longrightarrow> e \<in> range Db"
  "insert_event now eid t c ty p db = Inl e \<Longrightarrow> e \<in> range Db"
  "insert_delivery ush now did eid pid t db = Inl e \<Longrightarrow> e \<in> range Db"
  "list_events t l f db = Inl e \<Longrightarrow> e \<in> range Db" "list_events_for_consumer i l f db = Inl e \<Longrightarrow> e \<in> range Db"
  by (auto simp: create_endpoint_def create_consumer_def create_inbound_source_def insert_event_def insert_delivery_def
      list_events_def list_events_for_consumer_def limit_offset_def unique_violation_def fk_violation_def Let_def
      split: if_splits option.splits)

lemma raises_enqueue [raises_intro]:
  assumes E: "range Db \<subseteq> E"
  shows "raises E (enqueue_message ush t c ty p)"
proof -
  have each: "raises E (deliver_each ush eid t es)" for eid es
    by (induction es) (use E db_errors in \<open>auto intro!: raises_intro\<close>)
  show ?thesis
    unfolding enqueue_message_def
    by (intro raises_intro E each) (use E db_errors in \<open>auto simp: active_endpoints_for_scope_def\<close>)
qed

text \<open>The fixed texts, and what a request may be quoted back.\<close>

definition fixed_texts :: "string set" where
  "fixed_texts = {''rate limit exceeded'', ''already exists'', ''internal error'', ''uid must not be empty'',
     ''secret must be at least 16 characters''}"

fun echoed :: "api_deps \<Rightarrow> v1_call \<Rightarrow> string set" where
  "echoed A (GetMessage i) = {''event '' @ ad_ushow A i}"
| "echoed A (GetDelivery i) = {''delivery '' @ ad_ushow A i}"
| "echoed A (ReplayDelivery i) = {''delivery '' @ ad_ushow A i}"
| "echoed A (GetEndpoint i) = {''endpoint '' @ ad_ushow A i}"
| "echoed A (UpdateEndpoint i url dis tys) = {''endpoint '' @ ad_ushow A i}"
| "echoed A (GetConsumer uid) = {''consumer '' @ uid}"
| "echoed A (CreateConsumerEndpoint uid url sec tys) = {''consumer '' @ uid}"
| "echoed A (ListConsumerEndpoints uid) = {''consumer '' @ uid}"
| "echoed A (CreateConsumerMessage uid ty p) = {''consumer '' @ uid}"
| "echoed A (ListConsumerMessages uid l f) = {''consumer '' @ uid}"
| "echoed A (CreateInboundSource slug prov sec) = {''unknown provider '' @ ad_dbg A prov}"
| "echoed A c = {}"

definition allowed_errors :: "api_deps \<Rightarrow> v1_call \<Rightarrow> core_error set" where
  "allowed_errors A c = range Db \<union> NotFound ` echoed A c \<union> Invalid ` (echoed A c \<union> fixed_texts)"

definition tells_only :: "string set \<Rightarrow> response io \<Rightarrow> bool" where
  "tells_only T m \<longleftrightarrow> (\<forall>w. \<exists>resp. fst (m w) = Inr resp \<and>
     (400 \<le> rs_status resp \<longrightarrow> (\<exists>text\<in>T. rs_body resp = Json (JObject [(''error'', JString text)]))))"

lemma error_tells:
  "e \<in> allowed_errors A c \<Longrightarrow>
   \<exists>text\<in>fixed_texts \<union> echoed A c. rs_body (error_response (api_error_from e)) = Json (JObject [(''error'', JString text)])"
  by (cases e rule: api_error_from.cases) (auto simp: allowed_errors_def respond_with_def fixed_texts_def)

lemma respond_tells:
  assumes "raises (allowed_errors A c) m" "\<And>x. rs_status (f x) < 400"
  shows "tells_only (fixed_texts \<union> echoed A c) (respond m f)"
  unfolding tells_only_def
proof
  fix w
  obtain r w1 where m: "m w = (r, w1)" by (cases "m w")
  show "\<exists>resp. fst (respond m f w) = Inr resp \<and> (400 \<le> rs_status resp \<longrightarrow>
      (\<exists>text\<in>fixed_texts \<union> echoed A c. rs_body resp = Json (JObject [(''error'', JString text)])))"
  proof (cases r)
    case (Inl e)
    then have "e \<in> allowed_errors A c" using assms(1) m unfolding raises_def by (metis fst_conv)
    from error_tells [OF this] Inl m show ?thesis by (simp add: respond_def try_await_def ok_def)
  next
    case (Inr x)
    then show ?thesis using m assms(2) [of x] by (simp add: respond_def try_await_def ok_def)
  qed
qed

lemma limited_tells: "tells_only T k \<Longrightarrow> ''rate limit exceeded'' \<in> T \<Longrightarrow> tells_only T (limited A t k)"
  by (auto simp: tells_only_def limited_def limiter_check_def ok_def Let_def split: prod.splits option.splits)

lemma publish_as_respond: "fst (publish A t c ty p w) = fst (respond (enqueue_message (ad_ushow A) t c ty p) (created_response A) w)"
  by (simp add: publish_def respond_def try_await_def ping_def ok_def split: prod.split sum.split)

lemma publish_tells: "tells_only (fixed_texts \<union> echoed A call) (publish A t c ty p)"
proof -
  have "tells_only (fixed_texts \<union> echoed A call) (respond (enqueue_message (ad_ushow A) t c ty p) (created_response A))"
    by (rule respond_tells) (auto simp: allowed_errors_def created_response_def respond_with_def intro!: raises_intro)
  then show ?thesis by (simp add: tells_only_def publish_as_respond)
qed

lemma raises_found [raises_intro]: "NotFound what \<in> E \<Longrightarrow> raises E (ok_or_not_found what x)"
  by (auto simp: ok_or_not_found_def intro!: raises_intro split: option.split)

lemma raises_resolve [raises_intro]:
  "range Db \<subseteq> E \<Longrightarrow> NotFound (''consumer '' @ uid) \<in> E \<Longrightarrow> raises E (resolve_consumer t uid)"
  unfolding resolve_consumer_def by (intro raises_intro) (auto simp: get_consumer_def)

lemma raises_create_endpoint [raises_intro]:
  "range Db \<subseteq> E \<Longrightarrow> raises E (create_endpoint_for A t c url sec tys)"
  unfolding create_endpoint_for_def secret_or_generated_def
  using db_errors(1) by (auto split: option.split intro!: raises_intro)

lemma provider_error: "provider_from_str dbg s = Inl e \<Longrightarrow> e = Invalid (''unknown provider '' @ dbg s)"
  by (simp add: provider_from_str_def split: if_splits)

lemma raises_if: "raises E m \<Longrightarrow> raises E m' \<Longrightarrow> raises E (if b then m else m')"
  by simp

lemma allowedI:
  "range Db \<subseteq> allowed_errors A c" "Db d \<in> allowed_errors A c" "x \<in> echoed A c \<Longrightarrow> NotFound x \<in> allowed_errors A c"
  "x \<in> echoed A c \<union> fixed_texts \<Longrightarrow> Invalid x \<in> allowed_errors A c"
  by (auto simp: allowed_errors_def)

lemma raises_source:
  assumes "range Db \<subseteq> E"
  shows "raises E (secret_or_generated A sec (\<lambda>s.
    await (sql (\<lambda>a. create_inbound_source (an_now a) (an_uuid a) t slug prov s)) (\<lambda>source. ok (source, s))))"
proof -
  have "raises E (await (sql (\<lambda>a. create_inbound_source (an_now a) (an_uuid a) t slug prov s)) (\<lambda>source. ok (source, s)))" for s
    by (intro raises_intro assms) (rule subsetD [OF assms db_errors(3)])
  then show ?thesis unfolding secret_or_generated_def by (auto split: option.split intro!: raises_reads)
qed

lemma raises_require [raises_intro]:
  "range Db \<subseteq> E \<Longrightarrow> NotFound (''delivery '' @ u i) \<in> E \<Longrightarrow> raises E (require_delivery u i)"
  unfolding require_delivery_def by (intro raises_intro) (auto simp: get_delivery_def)

lemma consumer_message_tells:
  "tells_only (fixed_texts \<union> {''consumer '' @ uid}) (create_consumer_message_handler A t uid ty p)"
  unfolding create_consumer_message_handler_def
proof (rule limited_tells)
  let ?c = "CreateConsumerMessage uid ty p"
  have r: "raises (allowed_errors A ?c) (resolve_consumer t uid)"
    by (intro raises_intro) (auto simp: allowed_errors_def)
  show "tells_only (fixed_texts \<union> {''consumer '' @ uid}) (try_await (resolve_consumer t uid) (\<lambda>r. case r of
       Inr consumer \<Rightarrow> publish A t (Some (co_id consumer)) ty p | Inl e \<Rightarrow> ok (error_response (api_error_from e))))"
    unfolding tells_only_def
  proof
    fix w
    obtain x w1 where m: "resolve_consumer t uid w = (x, w1)" by (rule prod.exhaust)
    have "\<exists>text\<in>fixed_texts \<union> echoed A ?c. rs_body (error_response (api_error_from e)) = Json (JObject [(''error'', JString text)])"
      if "x = Inl e" for e using error_tells [of e A ?c] r m that unfolding raises_def by (metis fst_conv)
    then show "\<exists>resp. fst (try_await (resolve_consumer t uid) (\<lambda>r. case r of
        Inr consumer \<Rightarrow> publish A t (Some (co_id consumer)) ty p | Inl e \<Rightarrow> ok (error_response (api_error_from e))) w) = Inr resp \<and>
      (400 \<le> rs_status resp \<longrightarrow> (\<exists>text\<in>fixed_texts \<union> {''consumer '' @ uid}. rs_body resp = Json (JObject [(''error'', JString text)])))"
      using publish_tells [of A ?c t _ ty p] m
      by (cases x) (auto simp: tells_only_def try_await_def ok_def)
  qed
qed (simp add: fixed_texts_def)

lemma v1_tells: "tells_only (fixed_texts \<union> echoed A c) (v1_handler A c t)"
proof (cases c)
  case (CreateMessage ty p)
  show ?thesis
    unfolding CreateMessage v1_handler.simps create_message_def
    by (rule limited_tells [OF publish_tells]) (simp add: fixed_texts_def)
next
  case (CreateConsumerMessage uid ty p)
  then show ?thesis using consumer_message_tells by simp
next
  case (CreateInboundSource slug prov sec)
  have "raises (allowed_errors A c) (case provider_from_str (ad_dbg A) prov of
      Inl e \<Rightarrow> err e
    | Inr _ \<Rightarrow> if (case sec of Some s \<Rightarrow> length s < 16 | None \<Rightarrow> False)
        then err (Invalid ''secret must be at least 16 characters'')
        else secret_or_generated A sec (\<lambda>s.
          await (sql (\<lambda>a. create_inbound_source (an_now a) (an_uuid a) t slug prov s)) (\<lambda>source. ok (source, s))))"
  proof (cases "provider_from_str (ad_dbg A) prov")
    case (Inl e)
    then have "e = Invalid (''unknown provider '' @ ad_dbg A prov)" by (rule provider_error)
    then have "e \<in> allowed_errors A c" by (simp add: allowedI CreateInboundSource)
    then show ?thesis unfolding Inl sum.case by (rule raises_basic)
  next
    case (Inr p)
    show ?thesis
      unfolding Inr sum.case
      by (rule raises_if [OF raises_basic(2) raises_source]) (simp_all add: allowedI fixed_texts_def)
  qed
  then show ?thesis
    unfolding CreateInboundSource v1_handler.simps create_inbound_source_handler_def
    by (rule respond_tells) (auto simp: respond_with_def split: prod.split)
qed (simp only: v1_handler.simps handler_defs, rule respond_tells;
  auto simp: created_endpoint_response_def endpoints_response_def respond_with_def fixed_texts_def stmt_defs
    update_endpoint_def reset_for_replay_def Let_def allowedI
    dest!: db_errors(2,6,7) intro!: raises_intro raises_if split: prod.split)+

text \<open>C33. Error bodies reveal nothing: every protected request gets a response, and when its status is
  an error, the body is a JSON object whose only field is \<open>error\<close>, holding one of five fixed
  texts or a text made of what the caller itself sent; no database error text gets out.\<close>

theorem error_bodies_reveal_nothing:
  "\<exists>resp. fst (v1_handler A c t w) = Inr resp \<and> (rs_status resp < 400 \<or>
     (\<exists>text\<in>fixed_texts \<union> echoed A c. rs_body resp = Json (JObject [(''error'', JString text)])))"
proof -
  obtain resp where "fst (v1_handler A c t w) = Inr resp"
    "400 \<le> rs_status resp \<longrightarrow> (\<exists>text\<in>fixed_texts \<union> echoed A c. rs_body resp = Json (JObject [(''error'', JString text)]))"
    using v1_tells [of A c t] unfolding tells_only_def by blast
  then show ?thesis by (intro exI [of _ resp]) auto
qed

section \<open>Witnesses\<close>

definition key0 :: api_key where
  "key0 = \<lparr>ak_id = 1, ak_tenant_id = ''t1'', ak_key_hash = hash_key api0 ''key'', ak_created_at = 0\<rparr>"

definition world_k :: world where
  "world_k = quiet_world 5 (Response 200 None) (db_a\<lparr>t_api_keys := [key0]\<rparr>)"

definition state0 :: app_state where
  "state0 = \<lparr>st_metrics_token = None, st_admin_token = None\<rparr>"

definition headers_k :: headers where
  "headers_k = [(''authorization'', as_bytes ''Bearer key'')]"

definition posted :: "response option core_result \<times> world" where
  "posted = router api0 state0 headers_k (V1 (CreateMessage ''pay.ok'' JNull)) world_k"

lemma token_k [simp]: "bearer_token api0 headers_k = Some ''key''"
  by (simp add: bearer_token_def headers_k_def strip_prefix_def starts_with_def visible_char_def)

lemma seen_k [simp]: "seen world_k = db_a\<lparr>t_api_keys := [key0]\<rparr>" "w_db world_k = db_a\<lparr>t_api_keys := [key0]\<rparr>"
  by (simp_all add: world_k_def run_defs)

lemma key0_simps [simp]: "ak_key_hash key0 = hash_key api0 ''key''" "ak_tenant_id key0 = ''t1''"
  by (simp_all add: key0_def)

lemma posted_201: "\<exists>resp. posted = (Inr (Some resp), snd posted) \<and> rs_status resp = 201"
  by (simp add: posted_def auth_def world_k_def run_defs tenant_for_api_key_def create_message_def limited_def
      check_at_def limiter_new_def publish_def enqueue_message_def insert_event_def has_key_opt_def db_a_eq empty_db_def
      active_endpoints_for_scope_def subscribes_to_def sample_endpoint_def insert_delivery_def created_response_def
      respond_with_def)

lemma run_k: "run ushow0 [Manage, Manage] empty_db (w_db world_k)"
proof -
  have "insert_api_key 0 1 ''t1'' (hash_key api0 ''key'') db_a = Inr ((), w_db world_k)"
    by (simp add: insert_api_key_def db_a_eq empty_db_def key0_def Let_def)
  from run.snoc [OF run.snoc [OF run.nil step_a] db_step.api_key [OF this]] show ?thesis by simp
qed

theorem api_commits_only_system_steps_witness: "\<exists>bs. run ushow0 bs empty_db (w_db (snd posted))"
proof -
  have "env_ok (any_step (ad_ushow api0)) world_k" by (simp add: world_k_def)
  moreover have "run (ad_ushow api0) [Manage, Manage] empty_db (w_db world_k)" using run_k by simp
  ultimately show ?thesis
    using api_commits_only_system_steps [OF _ _ surjective_pairing] unfolding posted_def api0_simps(1) [symmetric] by blast
qed

theorem protected_routes_need_a_key_witness:
  "\<exists>k. k \<in> set (t_api_keys (seen world_k)) \<and> ak_key_hash k = hash_key api0 ''key''"
proof -
  obtain resp where "posted = (Inr (Some resp), snd posted)" "rs_status resp = 201" using posted_201 by blast
  then show ?thesis
    using protected_routes_need_a_key [of api0 state0 headers_k "CreateMessage ''pay.ok'' JNull" world_k "fst posted" "snd posted"]
    by (auto simp: posted_def respond_with_def)
qed

theorem created_means_stored_witness:
  "\<exists>e\<in>set (t_events (w_db (snd posted))). ev_tenant_id e = ''t1'' \<and> ev_event_type e = ''pay.ok'' \<and> ev_payload e = JNull"
proof -
  obtain resp where r: "posted = (Inr (Some resp), snd posted)" "rs_status resp = 201" using posted_201 by blast
  from created_means_stored [OF r(1) [unfolded posted_def] r(2)] show ?thesis by (fastforce simp: posted_def)
qed

theorem listing_never_fails_witness:
  "\<exists>es w'. list_messages api0 ''t1'' (Some (- 5)) (Some (- 9)) world_k =
     (Inr (respond_with 200 (Json (JArray (map (event_json api0) es)))), w') \<and> length es \<le> 200"
proof -
  have "an_fault (answer_now world_k) = No_fault" by (simp add: world_k_def run_defs)
  from listing_never_fails [OF this, of api0 "''t1''" "Some (- 5)" "Some (- 9)"] show ?thesis by blast
qed

end
