(* ===== verification/Cli.thy ===== *)
theory Cli
  imports Api
begin

text \<open>
  \<open>crates/dropless/src/main.rs\<close>: the commands other than \<open>serve\<close>, with their arguments (what
  clap has parsed). \<open>connect\<close> succeeds or fails as the environment says; a
  failed command carries the \<open>CoreError\<close> or the text of the context it was given; an
  executed one the lines it prints. The theorem: a key made by \<open>create-api-key\<close> authenticates,
  for the tenant named on the command line unless the very key was stored before.
\<close>

record db_args =
  da_database_url :: string

record create_api_key_args = db_args +
  ka_tenant :: string
  ka_key :: string

record create_endpoint_args = db_args +
  ea_tenant :: string
  ea_url :: string
  ea_secret :: string
  ea_event_types :: "string list"
  ea_consumer :: "string option"

record create_consumer_args = db_args +
  na_tenant :: string
  na_uid :: string
  na_name :: "string option"

record create_inbound_source_args = db_args +
  sa_tenant :: string
  sa_slug :: string
  sa_provider :: string
  sa_secret :: string

datatype command =
  Migrate db_args
| Create_Api_Key create_api_key_args
| Create_Endpoint create_endpoint_args
| Create_Consumer create_consumer_args
| Create_Inbound_Source create_inbound_source_args

datatype failure = Core core_error | Context string

type_synonym outcome = "failure + string list"

text \<open>Whether the database at the address takes the pool's connections is the environment's
  answer; the database itself is the one of the world.\<close>

definition connect :: "string \<Rightarrow> nat \<Rightarrow> outcome io \<Rightarrow> outcome io" where
  "connect url max_connections k =
     read_flag (\<lambda>up. if up then k else ok (Inl (Context ''failed to connect to Postgres'')))"

text \<open>\<open>.await?\<close> on a result of the store.\<close>

definition attempt :: "'a io \<Rightarrow> ('a \<Rightarrow> outcome io) \<Rightarrow> outcome io" where
  "attempt m k = try_await m (\<lambda>r. case r of Inl e \<Rightarrow> ok (Inl (Core e)) | Inr x \<Rightarrow> k x)"

text \<open>The schema itself is not part of the model: applying the migrations succeeds or fails.\<close>

definition migrate_command :: "db_args \<Rightarrow> outcome io" where
  "migrate_command args = connect (da_database_url args) 2
     (read_flag (\<lambda>applied. if applied then ok (Inr []) else ok (Inl (Context ''migration failed''))))"

definition create_api_key_command :: "api_deps \<Rightarrow> create_api_key_args \<Rightarrow> outcome io" where
  "create_api_key_command A args = connect (da_database_url args) 2
     (let hash = hash_key A (ka_key args)
      in attempt (sql (\<lambda>a. insert_api_key (an_now a) (an_uuid a) (ka_tenant args) hash)) (\<lambda>_. ok (Inr [])))"

definition create_endpoint_command :: "api_deps \<Rightarrow> create_endpoint_args \<Rightarrow> outcome io" where
  "create_endpoint_command A args =
     (let event_types = (if ea_event_types args \<noteq> [] then Some (ea_event_types args) else None);
          create = (\<lambda>consumer_id.
            attempt (sql (\<lambda>a. create_endpoint (an_now a) (an_uuid a) (ea_tenant args) consumer_id (ea_url args)
                (ea_secret args) event_types))
              (\<lambda>ep. ok (Inr [ad_ushow A (ep_id ep)])))
      in connect (da_database_url args) 2 (case ea_consumer args of
           Some uid \<Rightarrow> attempt (sql (\<lambda>a. get_consumer (ea_tenant args) uid)) (\<lambda>found. case found of
             Some c \<Rightarrow> create (Some (co_id c))
           | None \<Rightarrow> ok (Inl (Context ''no such consumer for this tenant'')))
         | None \<Rightarrow> create None))"

definition create_consumer_command :: "api_deps \<Rightarrow> create_consumer_args \<Rightarrow> outcome io" where
  "create_consumer_command A args = connect (da_database_url args) 2
     (attempt (sql (\<lambda>a. create_consumer (an_now a) (an_uuid a) (na_tenant args) (na_uid args) (na_name args)))
       (\<lambda>consumer. ok (Inr [ad_ushow A (co_id consumer)])))"

definition create_inbound_source_command :: "api_deps \<Rightarrow> create_inbound_source_args \<Rightarrow> outcome io" where
  "create_inbound_source_command A args =
     (case provider_from_str (ad_dbg A) (sa_provider args) of
        Inl e \<Rightarrow> ok (Inl (Context ''invalid provider (expected stripe | github | hmac)''))
      | Inr _ \<Rightarrow> connect (da_database_url args) 2
          (attempt (sql (\<lambda>a. create_inbound_source (an_now a) (an_uuid a) (sa_tenant args) (sa_slug args)
              (sa_provider args) (sa_secret args)))
            (\<lambda>src. ok (Inr [ad_ushow A (is_id src)]))))"

fun run_command :: "api_deps \<Rightarrow> command \<Rightarrow> outcome io" where
  "run_command A (Migrate args) = migrate_command args"
| "run_command A (Create_Api_Key args) = create_api_key_command A args"
| "run_command A (Create_Endpoint args) = create_endpoint_command A args"
| "run_command A (Create_Consumer args) = create_consumer_command A args"
| "run_command A (Create_Inbound_Source args) = create_inbound_source_command A args"

section \<open>Commands take only steps of the system\<close>

lemma connect_obeys [obeys_intro]: "obeys R k \<Longrightarrow> obeys R (connect url n k)"
  unfolding connect_def by (intro obeys_intro) (auto intro: obeys_intro)

lemma attempted_obeys [obeys_intro]: "obeys R m \<Longrightarrow> (\<And>x. obeys R (k x)) \<Longrightarrow> obeys R (attempt m k)"
  unfolding attempt_def by (intro obeys_intro) (auto split: sum.split intro!: obeys_intro)

lemma api_key_obeys [obeys_intro]:
  "obeys (any_step ushow) (sql (\<lambda>a. insert_api_key (an_now a) (an_uuid a) t h))"
proof (rule step_obeys)
  fix a db x db'
  assume "insert_api_key (an_now a) (an_uuid a) t h db = Inr (x, db')"
  then show "\<exists>l. db_step ushow l db db'" by (cases x) (auto intro: db_step.api_key)
qed

lemma attempted_obeys_from:
  "obeys_from P R m \<Longrightarrow> (\<And>x. obeys R (k x)) \<Longrightarrow> obeys_from P R (attempt m k)"
  unfolding attempt_def
  by (rule obeys_from_try_await) (auto split: sum.split intro!: obeys_intro)

lemma endpoint_command_obeys [obeys_intro]:
  "obeys (any_step ushow) (create_endpoint_command A args)"
proof -
  let ?t = "ea_tenant args"
  define create where "create cid = attempt (sql (\<lambda>a. create_endpoint (an_now a) (an_uuid a) ?t cid (ea_url args) (ea_secret args)
      (if ea_event_types args \<noteq> [] then Some (ea_event_types args) else None))) (\<lambda>ep. ok (Inr [ad_ushow A (ep_id ep)]))" for cid
  have create: "obeys_from (\<lambda>db. in_scope db ?t cid) (any_step ushow) (create cid)" for cid
    unfolding create_def by (intro attempted_obeys_from create_endpoint_obeys obeys_intro)
  have lookup: "obeys (any_step ushow) (attempt (sql (\<lambda>a. get_consumer ?t uid)) (\<lambda>found. case found of
      Some c \<Rightarrow> create (Some (co_id c)) | None \<Rightarrow> ok (Inl z)))" for uid z
    unfolding attempt_def
  proof (rule obeys_established [where P = "\<lambda>r db. \<forall>c. r = Inr (Some c) \<longrightarrow> in_scope db ?t (Some (co_id c))"])
    show "obeys_from (\<lambda>db. \<forall>c. r = Inr (Some c) \<longrightarrow> in_scope db ?t (Some (co_id c))) (any_step ushow)
        (case r of Inl e \<Rightarrow> ok (Inl (Core e)) | Inr found \<Rightarrow> (case found of
           Some c \<Rightarrow> create (Some (co_id c)) | None \<Rightarrow> ok (Inl z)))" for r
      using create by (auto split: sum.split option.split intro: obeys_from_basic)
  qed (use found_consumer_in_scope in \<open>auto intro: obeys_intro\<close>)
  show ?thesis
    unfolding create_endpoint_command_def Let_def create_def [symmetric]
    by (cases "ea_consumer args") (auto intro!: connect_obeys lookup obeys_from_None [OF create])
qed

lemma command_obeys: "obeys (any_step ushow) (run_command A c)"
  by (cases c) (auto simp: migrate_command_def create_api_key_command_def Let_def create_consumer_command_def create_inbound_source_command_def
      split: sum.split intro!: obeys_intro)

section \<open>A created key authenticates\<close>

lemma find_append: "List.find P (xs @ ys) = (case List.find P xs of Some x \<Rightarrow> Some x | None \<Rightarrow> List.find P ys)"
  by (induction xs) auto

definition owner_of :: "string \<Rightarrow> db \<Rightarrow> string option" where
  "owner_of h db = map_option ak_tenant_id (List.find (\<lambda>k. ak_key_hash k = h) (t_api_keys db))"

lemma insert_api_key_owner:
  assumes "insert_api_key now fresh tenant h db = Inr (u, db')"
  shows "owner_of h db' = Some (case owner_of h db of Some owner \<Rightarrow> owner | None \<Rightarrow> tenant)"
proof (cases "List.find (\<lambda>k. ak_key_hash k = h) (t_api_keys db)")
  case None
  then have "\<not> has_key ak_key_hash h (t_api_keys db)" by (auto simp: find_None_iff)
  then show ?thesis using assms None
    by (auto simp: insert_api_key_def unique_violation_def owner_of_def find_append Let_def split: if_splits)
next
  case (Some k)
  then have "has_key ak_key_hash h (t_api_keys db)" by (auto simp: find_Some_iff)
  then show ?thesis using assms Some by (simp add: insert_api_key_def owner_of_def)
qed

text \<open>Keys are never removed and their rows keep their order.\<close>

lemma owner_of_kept:
  assumes "extends db db'" "owner_of h db = Some t"
  shows "owner_of h db' = Some t"
proof -
  obtain rest where "t_api_keys db' = t_api_keys db @ rest" using assms(1) by (auto simp: extends_def prefix_def)
  then show ?thesis using assms(2) by (auto simp: owner_of_def find_append)
qed

text \<open>C39. A created key authenticates from then on: after \<open>create-api-key\<close> reported success, every
  request that carries the header \<open>Bearer <key>\<close> is let through, whatever the system has done in
  between, provided that the key has no white space around it (the layer trims the token, so
  that a key stored with such white space is never found), that the header is readable text, and
  that the lookup of the key is not interrupted. The handler runs for the tenant of the command
  line, except that a key that was stored before stays with the tenant it was stored for: the
  command reports success and changes nothing.\<close>

theorem created_key_authenticates:
  assumes "run_command A (Create_Api_Key args) w = (Inr (Inr out), w')"
    and "run ushow as (w_db w') (seen w2)" "an_fault (answer_now w2) = No_fault"
    and "header_str A hs ''authorization'' = Some (''Bearer '' @ ka_key args)" "trim (ka_key args) = ka_key args"
  shows "auth A hs handler w2 =
    handler (case owner_of (hash_key A (ka_key args)) (seen (tick w)) of Some owner \<Rightarrow> owner | None \<Rightarrow> ka_tenant args)
      ((tick w2)\<lparr>w_db := seen w2\<rparr>)"
proof -
  let ?h = "hash_key A (ka_key args)"
  let ?t = "case owner_of ?h (seen (tick w)) of Some owner \<Rightarrow> owner | None \<Rightarrow> ka_tenant args"
  have "wp (run_command A (Create_Api_Key args)) (\<lambda>r w'. \<forall>out. r = Inr (Inr out) \<longrightarrow> owner_of ?h (w_db w') = Some ?t) w"
    unfolding run_command.simps create_api_key_command_def Let_def connect_def attempt_def wp_rules
    by (auto simp: wp_rules dest: insert_api_key_owner intro!: wp_sql)
  from wpD [OF this assms(1)] have "owner_of ?h (w_db w') = Some ?t" by simp
  then have "owner_of ?h (seen w2) = Some ?t" by (rule owner_of_kept [OF run_extends [OF assms(2)]])
  then have "tenant_for_api_key ?h (seen w2) = Inr (Some ?t, seen w2)" by (simp add: tenant_for_api_key_def owner_of_def)
  moreover have "bearer_token A hs = Some (ka_key args)" using assms(4,5) by (simp add: bearer_token_def del: append_Cons append_Nil)
  ultimately show ?thesis using assms(3) by (simp add: auth_def try_await_def sql_def Let_def)
qed

definition world_up :: world where
  "world_up = (quiet_world 5 (Response 200 None) empty_db)\<lparr>w_env := \<lambda>n. (quiet 5 (Response 200 None) n)\<lparr>an_flag := True\<rparr>\<rparr>"

definition key_args :: create_api_key_args where
  "key_args = \<lparr>da_database_url = ''postgres://db'', ka_tenant = ''t1'', ka_key = ''key''\<rparr>"

text \<open>The key is created, then an endpoint is added, then the key is used.\<close>

definition world_later :: world where
  "world_later = quiet_world 9 (Response 200 None) (db_a\<lparr>t_api_keys := [\<lparr>ak_id = 2, ak_tenant_id = ''t1'',
     ak_key_hash = hash_key api0 ''key'', ak_created_at = 5\<rparr>]\<rparr>)"

theorem created_key_authenticates_witness:
  "\<exists>w'. run_command api0 (Create_Api_Key key_args) world_up = (Inr (Inr []), w') \<and>
     auth api0 headers_k (v1_handler api0 ListEndpoints) world_later =
     v1_handler api0 ListEndpoints ''t1'' ((tick world_later)\<lparr>w_db := seen world_later\<rparr>)"
proof -
  let ?r = "run_command api0 (Create_Api_Key key_args) world_up"
  let ?k = "\<lparr>ak_id = 2, ak_tenant_id = ''t1'', ak_key_hash = hash_key api0 ''key'', ak_created_at = 5\<rparr>"
  have r: "?r = (Inr (Inr []), snd ?r)" and db: "w_db (snd ?r) = empty_db\<lparr>t_api_keys := [?k]\<rparr>"
    by (simp_all add: create_api_key_command_def connect_def attempt_def key_args_def world_up_def run_defs insert_api_key_def empty_db_def)
  have later: "seen world_later = db_a\<lparr>t_api_keys := [?k]\<rparr>" "an_fault (answer_now world_later) = No_fault"
    by (simp_all add: world_later_def run_defs)
  have "db_step ushow0 Manage (w_db (snd ?r)) (seen world_later)"
    unfolding db later
    by (rule db_step.create_endpoint [of _ "''t1''" None 0 7 "''http://x''" "''topsecret''" None])
      (simp_all add: db_a_eq create_endpoint_def has_key_opt_def empty_db_def sample_endpoint_def Let_def)
  from run.snoc [OF run.nil this] have run: "run ushow0 [Manage] (w_db (snd ?r)) (seen world_later)" by simp
  have head: "header_str api0 headers_k ''authorization'' = Some (''Bearer '' @ ka_key key_args)" "trim (ka_key key_args) = ka_key key_args"
    by (simp_all add: header_str_def headers_k_def key_args_def visible_char_def)
  have "owner_of h (seen (tick world_up)) = None" for h
    by (simp add: world_up_def run_defs owner_of_def empty_db_def)
  with created_key_authenticates [OF r run later(2) head, of "v1_handler api0 ListEndpoints"]
  have "auth api0 headers_k (v1_handler api0 ListEndpoints) world_later =
     v1_handler api0 ListEndpoints ''t1'' ((tick world_later)\<lparr>w_db := seen world_later\<rparr>)"
    by (simp add: key_args_def)
  with r show ?thesis by blast
qed

end
