(* ===== verification/Notify.thy ===== *)
theory Notify
  imports Prelude
begin

text \<open>
  \<open>crates/dropless-core/src/notify.rs\<close>: the coalesced waker. Concurrent pings share one
  atomic; each ping reads the clock, loads the atomic, compares, and claims the window with a
  compare-and-exchange, and other pings may run between any two of these. The step relation
  has one rule per atomic access. A ping that wins spawns a task that issues the \<open>NOTIFY\<close> and
  returns; what is recorded of it is the clock reading the ping decided by, and when the spawned
  task runs is left open. The theorem: in every interleaving the readings of two pings that send
  are at least one window apart.
\<close>

record notifier =
  nt_last_ms :: int
  nt_window_ms :: int

definition notifier_new :: "int \<Rightarrow> notifier" where
  "notifier_new window_ms = \<lparr>nt_last_ms = i64_min, nt_window_ms = window_ms\<rparr>"

text \<open>\<open>now.saturating_sub(last) < window_ms\<close>: this ping has nothing to do.\<close>

definition coalesced :: "notifier \<Rightarrow> int \<Rightarrow> int \<Rightarrow> bool" where
  "coalesced n now last_ms \<longleftrightarrow> i64_saturating_sub now last_ms < nt_window_ms n"

definition compare_exchange :: "notifier \<Rightarrow> int \<Rightarrow> int \<Rightarrow> bool \<times> notifier" where
  "compare_exchange n last_ms now =
     (if nt_last_ms n = last_ms then (True, n\<lparr>nt_last_ms := now\<rparr>) else (False, n))"

text \<open>A ping that no other disturbs: the notifier and whether a \<open>NOTIFY\<close> is spawned.\<close>

definition ping_once :: "notifier \<Rightarrow> int \<Rightarrow> bool \<times> notifier" where
  "ping_once n now = (if coalesced n now (nt_last_ms n) then (False, n) else compare_exchange n (nt_last_ms n) now)"

text \<open>The pings in flight, by where they are, and the clock readings of those that spawned a
  \<open>NOTIFY\<close> so far (latest first).\<close>

datatype ping = Has_now int | Has_last int int

record pings =
  pg_notifier :: notifier
  pg_flight :: "ping list"
  pg_sent :: "int list"

definition pings_start :: "int \<Rightarrow> pings" where
  "pings_start window_ms = \<lparr>pg_notifier = notifier_new window_ms, pg_flight = [], pg_sent = []\<rparr>"

inductive ping_step :: "pings \<Rightarrow> pings \<Rightarrow> bool" where
  clock: "0 \<le> now \<Longrightarrow> is_i64 now \<Longrightarrow> ping_step s (s\<lparr>pg_flight := Has_now now # pg_flight s\<rparr>)"
| load: "pg_flight s = xs @ Has_now now # ys \<Longrightarrow>
    ping_step s (s\<lparr>pg_flight := xs @ Has_last now (nt_last_ms (pg_notifier s)) # ys\<rparr>)"
| return: "pg_flight s = xs @ Has_last now last_ms # ys \<Longrightarrow> coalesced (pg_notifier s) now last_ms \<Longrightarrow>
    ping_step s (s\<lparr>pg_flight := xs @ ys\<rparr>)"
| lose: "pg_flight s = xs @ Has_last now last_ms # ys \<Longrightarrow> \<not> coalesced (pg_notifier s) now last_ms \<Longrightarrow>
    compare_exchange (pg_notifier s) last_ms now = (False, n') \<Longrightarrow>
    ping_step s (s\<lparr>pg_notifier := n', pg_flight := xs @ ys\<rparr>)"
| send: "pg_flight s = xs @ Has_last now last_ms # ys \<Longrightarrow> \<not> coalesced (pg_notifier s) now last_ms \<Longrightarrow>
    compare_exchange (pg_notifier s) last_ms now = (True, n') \<Longrightarrow>
    ping_step s (s\<lparr>pg_notifier := n', pg_flight := xs @ ys, pg_sent := now # pg_sent s\<rparr>)"

fun spaced :: "int \<Rightarrow> int list \<Rightarrow> bool" where
  "spaced w [] = True"
| "spaced w [t] = True"
| "spaced w (t # u # ts) \<longleftrightarrow> w \<le> t - u \<and> spaced w (u # ts)"

fun flight_now :: "ping \<Rightarrow> int" where
  "flight_now (Has_now now) = now"
| "flight_now (Has_last now last_ms) = now"

definition pings_ok :: "int \<Rightarrow> pings \<Rightarrow> bool" where
  "pings_ok w s \<longleftrightarrow>
     nt_window_ms (pg_notifier s) = w \<and>
     (\<forall>p\<in>set (pg_flight s). 0 \<le> flight_now p \<and> is_i64 (flight_now p)) \<and>
     (case pg_sent s of [] \<Rightarrow> nt_last_ms (pg_notifier s) = i64_min
      | t # _ \<Rightarrow> nt_last_ms (pg_notifier s) = t) \<and>
     (\<forall>t\<in>set (pg_sent s). 0 \<le> t \<and> is_i64 t) \<and> spaced w (pg_sent s)"

lemma pings_start_ok: "pings_ok w (pings_start w)"
  by (simp add: pings_ok_def pings_start_def notifier_new_def)

lemma not_coalesced_gap:
  assumes "\<not> coalesced n now last_ms" "0 \<le> last_ms" "is_i64 last_ms" "0 \<le> now" "is_i64 now"
  shows "nt_window_ms n \<le> now - last_ms"
  using assms by (simp add: coalesced_def i64_saturating_sub_def is_i64_def int_width_defs min_def max_def split: if_splits)

lemma ping_step_ok: "ping_step s s' \<Longrightarrow> pings_ok w s \<Longrightarrow> pings_ok w s'"
proof (induction rule: ping_step.induct)
  case (send s xs now last_ms ys n')
  have n': "nt_last_ms (pg_notifier s) = last_ms" "n' = (pg_notifier s)\<lparr>nt_last_ms := now\<rparr>"
    using send.hyps(3) by (auto simp: compare_exchange_def split: if_splits)
  have fl: "0 \<le> now" "is_i64 now" using send.hyps(1) send.prems by (auto simp: pings_ok_def)
  have "w \<le> now - t" if "pg_sent s = t # ts" for t ts
    using not_coalesced_gap [OF send.hyps(2) _ _ fl] send.prems n'(1) that by (auto simp: pings_ok_def)
  then have "spaced w (now # pg_sent s)"
    using send.prems by (cases "pg_sent s") (auto simp: pings_ok_def)
  then show ?case using send.hyps(1) send.prems n'(2) fl by (auto simp: pings_ok_def)
qed (auto simp: pings_ok_def compare_exchange_def split: if_splits list.splits)

lemma ping_steps_ok: "rtranclp ping_step (pings_start w) s \<Longrightarrow> pings_ok w s"
  by (induction rule: rtranclp_induct) (auto intro: pings_start_ok ping_step_ok)

lemma spaced_nth: "spaced w ts \<Longrightarrow> i < j \<Longrightarrow> j < length ts \<Longrightarrow> 0 \<le> w \<Longrightarrow> w \<le> ts ! i - ts ! j"
proof (induction w ts arbitrary: i j rule: spaced.induct)
  case (3 w t u ts)
  then obtain j' where j: "j = Suc j'" by (cases j) auto
  have first: "w \<le> t - u" and rest: "spaced w (u # ts)" using 3 by auto
  show ?case
  proof (cases i)
    case (Suc i')
    then show ?thesis using 3 j by simp
  next
    case 0
    have "0 \<le> u - (u # ts) ! j'"
    proof (cases j')
      case (Suc k)
      then have "w \<le> (u # ts) ! 0 - (u # ts) ! j'" using 3 j by (intro "3.IH") auto
      then show ?thesis using "3.prems"(4) by simp
    qed simp
    then show ?thesis using first 0 j by simp
  qed
qed auto

text \<open>A ping inside the window of the last one that sent is dropped, and nothing remembers it.\<close>

lemma second_ping_is_dropped:
  assumes "ping_once n now = (True, n')" "is_i64 now" "is_i64 later" "0 \<le> now" "now \<le> later" "later - now < nt_window_ms n"
  shows "ping_once n' later = (False, n')"
  using assms
  by (auto simp: ping_once_def compare_exchange_def coalesced_def i64_saturating_sub_def is_i64_def int_width_defs
      split: if_splits)

text \<open>C38. Coalescing: however the pings interleave, the clock readings of successive pings that send
  a notification are at least one window apart, so bursts cannot flood the notification queue.\<close>

theorem notifications_are_spaced:
  assumes "rtranclp ping_step (pings_start w) s" "i < j" "j < length (pg_sent s)" "0 \<le> w"
  shows "w \<le> pg_sent s ! i - pg_sent s ! j"
  using spaced_nth [OF _ assms(2-4)] ping_steps_ok [OF assms(1)] by (simp add: pings_ok_def)

definition pings_one :: pings where
  "pings_one = (pings_start 25)\<lparr>pg_notifier := \<lparr>nt_last_ms = 40, nt_window_ms = 25\<rparr>, pg_sent := [40, 7]\<rparr>"

lemma sends_two: "rtranclp ping_step (pings_start 25) pings_one"
proof -
  have one: "rtranclp ping_step s (s\<lparr>pg_notifier := (pg_notifier s)\<lparr>nt_last_ms := now\<rparr>, pg_sent := now # pg_sent s\<rparr>)"
    if "pg_flight s = []" "0 \<le> now" "is_i64 now" "\<not> coalesced (pg_notifier s) now (nt_last_ms (pg_notifier s))" for s now
  proof -
    let ?l = "nt_last_ms (pg_notifier s)"
    have "ping_step s (s\<lparr>pg_flight := [Has_now now]\<rparr>)" using ping_step.clock [OF that(2,3), of s] that(1) by simp
    moreover have "ping_step (s\<lparr>pg_flight := [Has_now now]\<rparr>) (s\<lparr>pg_flight := [Has_last now ?l]\<rparr>)"
      using ping_step.load [of "s\<lparr>pg_flight := [Has_now now]\<rparr>" "[]" now "[]"] by simp
    moreover have "ping_step (s\<lparr>pg_flight := [Has_last now ?l]\<rparr>)
        (s\<lparr>pg_notifier := (pg_notifier s)\<lparr>nt_last_ms := now\<rparr>, pg_flight := [], pg_sent := now # pg_sent s\<rparr>)"
      using ping_step.send [of "s\<lparr>pg_flight := [Has_last now ?l]\<rparr>" "[]" now ?l "[]"] that(4)
      by (simp add: compare_exchange_def)
    moreover have "s\<lparr>pg_notifier := x, pg_flight := [], pg_sent := y\<rparr> = s\<lparr>pg_notifier := x, pg_sent := y\<rparr>" for x y
      using that(1) by (cases s) simp
    ultimately show ?thesis by (metis converse_rtranclp_into_rtranclp r_into_rtranclp)
  qed
  have "rtranclp ping_step (pings_start 25)
      ((pings_start 25)\<lparr>pg_notifier := \<lparr>nt_last_ms = 7, nt_window_ms = 25\<rparr>, pg_sent := [7]\<rparr>)"
    using one [of "pings_start 25" 7]
    by (simp add: pings_start_def notifier_new_def coalesced_def i64_saturating_sub_def is_i64_def int_width_defs)
  moreover have "rtranclp ping_step
      ((pings_start 25)\<lparr>pg_notifier := \<lparr>nt_last_ms = 7, nt_window_ms = 25\<rparr>, pg_sent := [7]\<rparr>) pings_one"
    using one [of "(pings_start 25)\<lparr>pg_notifier := \<lparr>nt_last_ms = 7, nt_window_ms = 25\<rparr>, pg_sent := [7]\<rparr>" 40]
    by (simp add: pings_start_def notifier_new_def coalesced_def i64_saturating_sub_def is_i64_def int_width_defs
        pings_one_def)
  ultimately show ?thesis by (rule rtranclp_trans)
qed

theorem notifications_are_spaced_witness:
  "25 \<le> pg_sent pings_one ! 0 - pg_sent pings_one ! 1"
  by (rule notifications_are_spaced [OF sends_two]) (simp_all add: pings_one_def)

end
