(* ===== verification/Config.thy ===== *)
theory Config
  imports Dispatcher
begin

text \<open>
  \<open>crates/dropless/src/config.rs\<close> and the computations of \<open>serve\<close> in \<open>main.rs\<close>: the
  dispatcher configuration from the command line, the lease warning, the bind address, the roles
  and the default burst.
\<close>

record config =
  cf_database_url :: string
  cf_bind_addr :: string
  cf_max_connections :: nat
  cf_dispatcher :: dispatcher_config

definition dispatcher_from :: "nat \<Rightarrow> int \<Rightarrow> int \<Rightarrow> u64 \<Rightarrow> int \<Rightarrow> u64 \<Rightarrow> dispatcher_config" where
  "dispatcher_from worker_count batch_size lock_secs http_timeout_secs max_attempts poll_interval_ms =
     \<lparr>dc_worker_count = worker_count, dc_batch_size = batch_size, dc_lock_secs = lock_secs,
      dc_http_timeout = from_secs (unat http_timeout_secs), dc_poll_interval = from_millis poll_interval_ms,
      dc_retry = retry_policy_default\<lparr>rp_max_attempts := max_attempts\<rparr>,
      dc_circuit = circuit_policy_default\<rparr>"

datatype role = Role_All | Role_Api | Role_Worker

definition run_api :: "role \<Rightarrow> bool" where "run_api r \<longleftrightarrow> r \<in> {Role_All, Role_Api}"

definition run_workers :: "role \<Rightarrow> bool" where "run_workers r \<longleftrightarrow> r \<in> {Role_All, Role_Worker}"

text \<open>\<open>args.batch.max(1) as u64 * args.http_timeout_secs\<close> wraps in a release build, and
  \<open>args.lock_secs as u64\<close> sign-extends.\<close>

definition worst_case_secs :: "int \<Rightarrow> u64 \<Rightarrow> u64" where
  "worst_case_secs batch http_timeout_secs = word_of_int (max batch 1) * http_timeout_secs"

definition warns_short_lease :: "int \<Rightarrow> int \<Rightarrow> u64 \<Rightarrow> bool" where
  "warns_short_lease lock_secs batch http_timeout_secs \<longleftrightarrow>
     (word_of_int lock_secs :: u64) < worst_case_secs batch http_timeout_secs"

definition bind_addr :: "string option \<Rightarrow> string \<Rightarrow> string" where
  "bind_addr port bind =
     (case port of Some p \<Rightarrow> if p \<noteq> '''' then ''0.0.0.0:'' @ p else bind | None \<Rightarrow> bind)"

text \<open>The warning for a sane configuration: the lease can be shorter than the batch takes.\<close>

lemma unat_word_of_int: "0 \<le> x \<Longrightarrow> x < 2 ^ 64 \<Longrightarrow> unat (word_of_int x :: u64) = nat x"
  by (simp add: unat_eq_nat_uint uint_word_of_int)

text \<open>The lease warning is exact for a worst case below \<open>2^63\<close> seconds: it is given
  precisely for a non-negative \<open>lock_secs\<close> that is shorter than the time a full batch may
  take, \<open>max(batch, 1) * http_timeout\<close>; a negative lease is never warned about.\<close>

theorem lease_warning_exact:
  assumes "is_i32 lock_secs" "is_i64 batch" "nat (max batch 1) * unat timeout < 2 ^ 63"
  shows "warns_short_lease lock_secs batch timeout \<longleftrightarrow>
    0 \<le> lock_secs \<and> lock_secs < max batch 1 * int (unat timeout)"
proof -
  have b: "unat (word_of_int (max batch 1) :: u64) = nat (max batch 1)"
    using assms(2) by (intro unat_word_of_int) (auto simp: is_i64_def int_width_defs)
  have wc: "unat (worst_case_secs batch timeout) = nat (max batch 1) * unat timeout"
    unfolding worst_case_secs_def unat_word_ariths b using assms(3) by simp
  show ?thesis
  proof (cases "0 \<le> lock_secs")
    case True
    then have "unat (word_of_int lock_secs :: u64) = nat lock_secs"
      using assms(1) by (intro unat_word_of_int) (auto simp: is_i32_def int_width_defs)
    then have "warns_short_lease lock_secs batch timeout \<longleftrightarrow> nat lock_secs < nat (max batch 1) * unat timeout"
      by (simp add: warns_short_lease_def word_less_nat_alt wc)
    also have "\<dots> \<longleftrightarrow> lock_secs < max batch 1 * int (unat timeout)"
    proof -
      have "0 \<le> max batch 1" by (simp add: max_def)
      then have "int (nat (max batch 1) * unat timeout) = max batch 1 * int (unat timeout)"
        by (simp only: of_nat_mult int_nat_eq if_True)
      then show ?thesis using True nat_less_iff [of lock_secs "nat (max batch 1) * unat timeout"] by metis
    qed
    finally show ?thesis using True by simp
  next
    case False
    have "(lock_secs + 2 ^ 64) mod 2 ^ 64 = lock_secs + 2 ^ 64"
      using False assms(1) by (intro mod_pos_pos_trivial) (simp_all add: is_i32_def int_width_defs)
    then have "uint (word_of_int lock_secs :: u64) = lock_secs + 2 ^ 64"
      by (simp only: uint_word_of_int len_of_numeral_defs mod_add_self2) simp
    then have "2 ^ 63 \<le> unat (word_of_int lock_secs :: u64)"
      using assms(1) by (simp add: unat_eq_nat_uint is_i32_def int_width_defs le_nat_iff)
    then show ?thesis using False assms(3) by (simp add: warns_short_lease_def word_less_nat_alt wc)
  qed
qed

theorem lease_warning_exact_witness:
  "warns_short_lease 30 32 10 \<and> \<not> warns_short_lease (- 1) 32 10"
  using lease_warning_exact [of 30 32 10] lease_warning_exact [of "- 1" 32 10]
  by (simp add: is_i32_def is_i64_def int_width_defs)

end
