(* ===== verification/Serve.thy ===== *)
theory Serve
  imports Cli Notify Ratelimit Config
begin

text \<open>
  \<open>serve\<close> of \<open>crates/dropless/src/main.rs\<close>, with \<open>build_client\<close> and \<open>spawn_workers\<close> of
  \<open>dispatcher.rs\<close>: the arguments with their defaults, and the start, run and drain of a process
  as the sequence of what it does to the world outside, cut short by the first failure. What the
  host answers (the environment variables, the database, the sockets, whether the tasks end in
  time) is a record the model is a function of. The theorems: no task is started and no socket
  bound before the database is connected and migrated, each role runs its own parts and no
  others, and a process that ends well has waited for every task it started.
\<close>

section \<open>Arguments\<close>

record serve_args =
  sv_database_url :: string
  sv_bind :: string
  sv_role :: role
  sv_max_connections :: nat
  sv_workers :: nat
  sv_batch :: int
  sv_lock_secs :: int
  sv_http_timeout_secs :: u64
  sv_max_attempts :: int
  sv_poll_interval_ms :: u64
  sv_metrics_token :: "string option"
  sv_admin_token :: "string option"
  sv_shutdown_timeout_secs :: u64
  sv_rate_limit_rps :: real
  sv_rate_limit_burst :: real

text \<open>The values of a process started with only the database address.\<close>

definition serve_defaults :: "string \<Rightarrow> serve_args" where
  "serve_defaults database_url = \<lparr>
     sv_database_url = database_url,
     sv_bind = ''0.0.0.0:8080'',
     sv_role = Role_All,
     sv_max_connections = 10,
     sv_workers = 4,
     sv_batch = 32,
     sv_lock_secs = 30,
     sv_http_timeout_secs = 10,
     sv_max_attempts = 16,
     sv_poll_interval_ms = 500,
     sv_metrics_token = None,
     sv_admin_token = None,
     sv_shutdown_timeout_secs = 25,
     sv_rate_limit_rps = 0,
     sv_rate_limit_burst = 0\<rparr>"

section \<open>What serve builds\<close>

definition default_burst :: "(real \<Rightarrow> real) \<Rightarrow> real \<Rightarrow> real \<Rightarrow> real" where
  "default_burst rnd rate_limit_rps rate_limit_burst =
     (if rate_limit_burst > 0 then rate_limit_burst else rnd (rate_limit_rps * 2))"

definition serve_state :: "string option \<Rightarrow> string option \<Rightarrow> app_state" where
  "serve_state metrics_token admin_token = \<lparr>st_metrics_token = metrics_token, st_admin_token = admin_token\<rparr>"

definition serve_limiter :: "(real \<Rightarrow> real) \<Rightarrow> real \<Rightarrow> real \<Rightarrow> limiter" where
  "serve_limiter rnd rate_limit_rps rate_limit_burst =
     limiter_new rate_limit_rps (default_burst rnd rate_limit_rps rate_limit_burst)"

text \<open>\<open>spawn_workers\<close> names its workers \<open>worker-0\<close>, \<open>worker-1\<close> and so on.\<close>

definition worker_ids :: "nat \<Rightarrow> string list" where
  "worker_ids worker_count = map (\<lambda>i. ''worker-'' @ show_nat i) [0..<worker_count]"

lemma worker_ids_distinct: "distinct (worker_ids n)"
  by (auto simp: worker_ids_def distinct_map inj_on_def dest: show_nat_inj)


section \<open>What a process does\<close>

datatype handle = Listener_task | Worker_task string dispatcher_config

datatype action =
  Warned_short_lease
| Connecting string nat
| Migrating
| Spawned_signal_task
| Spawned handle
| Rate_limiting real real
| Binding string
| Serving app_state limiter notifier
| Awaited_shutdown
| Draining "handle list"
| Shutdown_complete
| Drain_timed_out

record host =
  ho_port :: "string option"
  ho_auto_migrate :: "string option"
  ho_connects :: "string \<Rightarrow> nat \<Rightarrow> bool"
  ho_migrates :: bool
  ho_client :: "duration \<Rightarrow> bool"
  ho_binds :: "string \<Rightarrow> bool"
  ho_serves :: bool
  ho_drains :: "handle list \<Rightarrow> u64 \<Rightarrow> bool"

text \<open>A part of the program: what it did, and its failure (the context it was given) or result.\<close>

type_synonym 'a run = "action list \<times> (string + 'a)"

definition finished :: "'a \<Rightarrow> 'a run" where "finished x = ([], Inr x)"

definition failed :: "string \<Rightarrow> 'a run" where "failed e = ([], Inl e)"

definition act :: "action \<Rightarrow> 'a run \<Rightarrow> 'a run" where "act a r = (a # fst r, snd r)"

text \<open>The \<open>?\<close> after a part.\<close>

definition and_then :: "'a run \<Rightarrow> ('a \<Rightarrow> 'b run) \<Rightarrow> 'b run" where
  "and_then r k = (case r of
     (tr, Inl e) \<Rightarrow> (tr, Inl e)
   | (tr, Inr x) \<Rightarrow> (tr @ fst (k x), snd (k x)))"

definition build_client :: "host \<Rightarrow> dispatcher_config \<Rightarrow> unit run" where
  "build_client H cfg = (if ho_client H (dc_http_timeout cfg) then finished () else failed ''failed to start workers'')"

definition spawn_workers :: "host \<Rightarrow> dispatcher_config \<Rightarrow> handle list run" where
  "spawn_workers H cfg = and_then (build_client H cfg) (\<lambda>_.
     let handles = Listener_task # map (\<lambda>worker_id. Worker_task worker_id cfg) (worker_ids (dc_worker_count cfg))
     in (map Spawned handles, Inr handles))"

text \<open>The configuration, the lease warning, the connection and the migrations.\<close>

definition serve_config :: "host \<Rightarrow> serve_args \<Rightarrow> config" where
  "serve_config H args = \<lparr>
     cf_database_url = sv_database_url args,
     cf_bind_addr = bind_addr (ho_port H) (sv_bind args),
     cf_max_connections = sv_max_connections args,
     cf_dispatcher = dispatcher_from (sv_workers args) (sv_batch args) (sv_lock_secs args)
       (sv_http_timeout_secs args) (sv_max_attempts args) (sv_poll_interval_ms args)\<rparr>"

definition serve_connect :: "host \<Rightarrow> config \<Rightarrow> unit run" where
  "serve_connect H cfg = act (Connecting (cf_database_url cfg) (cf_max_connections cfg))
     (if ho_connects H (cf_database_url cfg) (cf_max_connections cfg) then finished ()
      else failed ''failed to connect to Postgres'')"

definition serve_migrate :: "host \<Rightarrow> unit run" where
  "serve_migrate H =
     (if ho_auto_migrate H \<noteq> Some ''false''
      then act Migrating (if ho_migrates H then finished () else failed ''startup migration failed'')
      else finished ())"

definition prepare :: "host \<Rightarrow> serve_args \<Rightarrow> config run" where
  "prepare H args =
     (let cfg = serve_config H args;
          warn = (\<lambda>r. if warns_short_lease (sv_lock_secs args) (sv_batch args) (sv_http_timeout_secs args)
                      then act Warned_short_lease r else r)
      in warn (and_then (serve_connect H cfg) (\<lambda>_. and_then (serve_migrate H) (\<lambda>_. finished cfg))))"

text \<open>The API: its state, the socket, and the server until the shutdown signal.\<close>

definition serve_api :: "(real \<Rightarrow> real) \<Rightarrow> host \<Rightarrow> serve_args \<Rightarrow> config \<Rightarrow> unit run" where
  "serve_api rnd H args cfg =
     (let notifier = notifier_new 25;
          burst = default_burst rnd (sv_rate_limit_rps args) (sv_rate_limit_burst args);
          limiter = serve_limiter rnd (sv_rate_limit_rps args) (sv_rate_limit_burst args);
          say = (\<lambda>r. if limiter_enabled limiter then act (Rate_limiting (sv_rate_limit_rps args) burst) r else r);
          state = serve_state (sv_metrics_token args) (sv_admin_token args)
      in say (act (Binding (cf_bind_addr cfg))
           (if ho_binds H (cf_bind_addr cfg)
            then act (Serving state limiter notifier) (if ho_serves H then finished () else failed ''server error'')
            else failed (''failed to bind '' @ cf_bind_addr cfg))))"

definition drain :: "host \<Rightarrow> serve_args \<Rightarrow> handle list \<Rightarrow> unit run" where
  "drain H args worker_handles = act (Draining worker_handles)
     (if ho_drains H worker_handles (sv_shutdown_timeout_secs args) then act Shutdown_complete (finished ())
      else act Drain_timed_out (finished ()))"

text \<open>After the preparation: the signal task, the workers, the API or the wait, the drain.\<close>

definition launch :: "(real \<Rightarrow> real) \<Rightarrow> host \<Rightarrow> serve_args \<Rightarrow> config \<Rightarrow> unit run" where
  "launch rnd H args cfg =
     act Spawned_signal_task
       (and_then (if run_workers (sv_role args) then spawn_workers H (cf_dispatcher cfg) else finished []) (\<lambda>worker_handles.
          and_then (if run_api (sv_role args) then serve_api rnd H args cfg else act Awaited_shutdown (finished ())) (\<lambda>_.
            drain H args worker_handles)))"

definition serve :: "(real \<Rightarrow> real) \<Rightarrow> host \<Rightarrow> serve_args \<Rightarrow> unit run" where
  "serve rnd H args = and_then (prepare H args) (launch rnd H args)"

lemmas run_parts = finished_def failed_def act_def and_then_def build_client_def spawn_workers_def
  serve_connect_def serve_migrate_def prepare_def serve_api_def drain_def launch_def Let_def

section \<open>Ordering\<close>

text \<open>The actions that start a part of the system.\<close>

fun starts :: "action \<Rightarrow> bool" where
  "starts (Spawned h) = True"
| "starts (Binding a) = True"
| "starts (Serving s l n) = True"
| "starts Spawned_signal_task = True"
| "starts _ = False"

text \<open>The database was reached, and migrated unless that is switched off.\<close>

definition ready_for :: "host \<Rightarrow> serve_args \<Rightarrow> bool" where
  "ready_for H args \<longleftrightarrow> ho_connects H (sv_database_url args) (sv_max_connections args) \<and>
     (ho_auto_migrate H \<noteq> Some ''false'' \<longrightarrow> ho_migrates H)"

lemma prepare_starts_nothing: "prepare H args = (tr, r) \<Longrightarrow> list_all (\<lambda>a. \<not> starts a) tr"
  by (auto simp: run_parts split: if_splits)

lemma prepared:
  assumes "prepare H args = (tr, Inr cfg)"
  shows "cfg = serve_config H args" "ready_for H args"
    "Connecting (sv_database_url args) (sv_max_connections args) \<in> set tr"
    "ho_auto_migrate H \<noteq> Some ''false'' \<Longrightarrow> Migrating \<in> set tr"
  using assms by (auto simp: run_parts ready_for_def serve_config_def split: if_splits)

lemma unprepared: "prepare H args = (tr, Inl e) \<Longrightarrow> \<not> ready_for H args"
  by (auto simp: run_parts ready_for_def serve_config_def split: if_splits)

lemma split_after:
  assumes "xs @ ys = pre @ a # post" "a \<notin> set xs"
  shows "\<exists>us. pre = xs @ us"
  using assms by (auto simp: append_eq_append_conv2 append_eq_Cons_conv)

lemma launch_by_role:
  assumes "a \<in> set (fst (launch rnd H args cfg))"
  shows "(\<forall>h. a = Spawned h \<longrightarrow> run_workers (sv_role args)) \<and>
    (\<forall>x. a = Binding x \<longrightarrow> run_api (sv_role args) \<and> x = cf_bind_addr cfg) \<and>
    (\<forall>s l n. a = Serving s l n \<longrightarrow> run_api (sv_role args) \<and> ho_binds H (cf_bind_addr cfg))"
  using assms by (auto simp: run_parts split: if_splits)

text \<open>C24. \<open>serve\<close> starts nothing too early and nothing of another role. In whatever way a process
  starts and wherever it fails: a task is spawned, the socket bound and the server run only after
  the database was connected to and, unless \<open>AUTO_MIGRATE\<close> is exactly \<open>false\<close>, migrated, both with
  success; workers and listener only in the roles \<open>All\<close> and \<open>Worker\<close>, the API only in the roles
  \<open>All\<close> and \<open>Api\<close>, on the address of \<open>PORT\<close> when there is one, and only once the socket is bound.
\<close>

theorem serve_starts_when_ready:
  assumes "serve rnd H args = (pre @ a # post, r)" "starts a"
  shows "ready_for H args \<and> Connecting (sv_database_url args) (sv_max_connections args) \<in> set pre \<and>
    (ho_auto_migrate H \<noteq> Some ''false'' \<longrightarrow> Migrating \<in> set pre) \<and>
    (\<forall>h. a = Spawned h \<longrightarrow> sv_role args \<noteq> Role_Api) \<and>
    (\<forall>x. a = Binding x \<longrightarrow> sv_role args \<noteq> Role_Worker \<and> x = bind_addr (ho_port H) (sv_bind args)) \<and>
    (\<forall>s l n. a = Serving s l n \<longrightarrow> sv_role args \<noteq> Role_Worker \<and> ho_binds H (bind_addr (ho_port H) (sv_bind args)))"
proof -
  obtain tr p where p: "prepare H args = (tr, p)" by (cases "prepare H args")
  have quiet: "a \<notin> set tr" using prepare_starts_nothing [OF p] assms(2) by (auto simp: list_all_iff)
  show ?thesis
  proof (cases p)
    case (Inl e)
    then show ?thesis using p quiet assms(1) by (auto simp: serve_def and_then_def)
  next
    case (Inr cfg)
    note q = prepared [OF p [unfolded Inr]]
    have tr: "tr @ fst (launch rnd H args cfg) = pre @ a # post"
      using assms(1) p Inr by (auto simp: serve_def and_then_def)
    with split_after [OF tr quiet] have "set tr \<subseteq> set pre" by auto
    moreover have "a \<in> set (fst (launch rnd H args cfg))"
      using arg_cong [OF tr, of set] quiet by auto
    ultimately show ?thesis using q launch_by_role [of a rnd H args cfg]
      by (auto simp: run_workers_def run_api_def serve_config_def)
  qed
qed

text \<open>A process that cannot reach its database, and the default one with \<open>PORT\<close> set.\<close>

definition host0 :: host where
  "host0 = \<lparr>ho_port = Some ''9000'', ho_auto_migrate = None, ho_connects = \<lambda>url n. True, ho_migrates = True,
     ho_client = \<lambda>_. True, ho_binds = \<lambda>_. True, ho_serves = True, ho_drains = \<lambda>hs secs. True\<rparr>"

text \<open>The lease warning belongs to every default start: a batch of 32 at 10 seconds each does not fit
  into 30 seconds.\<close>

lemma default_warns: "warns_short_lease (sv_lock_secs (serve_defaults url)) (sv_batch (serve_defaults url))
    (sv_http_timeout_secs (serve_defaults url))"
  by (simp add: serve_defaults_def warns_short_lease_def worst_case_secs_def)

theorem serve_starts_when_ready_witness:
  "\<exists>pre post. serve (\<lambda>x. x) host0 (serve_defaults ''db'') = (pre @ Binding ''0.0.0.0:9000'' # post, Inr ()) \<and>
     Connecting ''db'' 10 \<in> set pre \<and> Migrating \<in> set pre"
proof -
  let ?cfg = "cf_dispatcher (serve_config host0 (serve_defaults ''db''))"
  let ?hs = "Listener_task # map (\<lambda>i. Worker_task i ?cfg) (worker_ids 4)"
  let ?pre = "[Warned_short_lease, Connecting ''db'' 10, Migrating, Spawned_signal_task] @ map Spawned ?hs"
  have "dc_worker_count ?cfg = 4" by (simp add: serve_config_def serve_defaults_def dispatcher_from_def)
  then have tr: "serve (\<lambda>x. x) host0 (serve_defaults ''db'') =
      (?pre @ Binding ''0.0.0.0:9000'' #
       [Serving (serve_state None None) (serve_limiter (\<lambda>x. x) 0 0) (notifier_new 25), Draining ?hs, Shutdown_complete], Inr ())"
    by (simp add: serve_def run_parts serve_config_def default_warns host0_def bind_addr_def serve_limiter_def
        limiter_enabled_def limiter_new_def run_workers_def run_api_def) (simp add: serve_defaults_def)
  from serve_starts_when_ready [OF tr] have "Connecting ''db'' 10 \<in> set ?pre \<and> Migrating \<in> set ?pre"
    by (simp add: serve_defaults_def host0_def)
  with tr show ?thesis by blast
qed

section \<open>Every started task is waited for\<close>

definition spawned :: "action list \<Rightarrow> handle list" where
  "spawned tr = concat (map (\<lambda>a. case a of Spawned h \<Rightarrow> [h] | _ \<Rightarrow> []) tr)"

lemma spawned_simps [simp]:
  "spawned [] = []"
  "spawned (xs @ ys) = spawned xs @ spawned ys"
  "spawned (Spawned h # tr) = h # spawned tr"
  "spawned (map Spawned hs) = hs"
  "\<not> starts a \<Longrightarrow> spawned (a # tr) = spawned tr"
  "spawned (Spawned_signal_task # tr) = spawned tr"
  "spawned (Binding x # tr) = spawned tr"
  "spawned (Serving s l n # tr) = spawned tr"
  by (auto simp: spawned_def comp_def split: action.splits)

lemma prepare_spawns_nothing: "prepare H args = (tr, r) \<Longrightarrow> spawned tr = []"
  by (auto simp: run_parts split: if_splits)

lemma tasks_spawned:
  assumes "(if run_workers role then spawn_workers H cfg else finished []) = (tr, Inr hs)"
  shows "tr = map Spawned hs" "length hs = (if role = Role_Api then 0 else dc_worker_count cfg + 1)" "distinct hs"
  using assms worker_ids_distinct [of "dc_worker_count cfg"]
  by (cases role; auto simp: run_parts run_workers_def distinct_map inj_on_def worker_ids_def split: if_splits)+

lemma api_served:
  assumes "(if run_api (sv_role args) then serve_api rnd H args cfg else act Awaited_shutdown (finished ())) = (tr, Inr ())"
  shows "spawned tr = [] \<and> tr \<noteq> [] \<and> last tr = (if sv_role args = Role_Worker then Awaited_shutdown else Serving
       (serve_state (sv_metrics_token args) (sv_admin_token args))
       (serve_limiter rnd (sv_rate_limit_rps args) (sv_rate_limit_burst args)) (notifier_new 25))"
  using assms by (cases "sv_role args") (auto simp: run_parts run_api_def split: if_splits)

lemma and_then_Inr:
  assumes "and_then r k = (tr, Inr y)"
  obtains tr1 x tr2 where "r = (tr1, Inr x)" "k x = (tr2, Inr y)" "tr = tr1 @ tr2"
  using assms by (cases r; cases "snd r") (auto simp: and_then_def prod_eq_iff)

text \<open>A process that ends well has served until the signal and waited for every task it started.
  If \<open>serve\<close> returns without an error, it ran the API in the roles with an API and waited for the
  signal otherwise; what it spawned is, in the roles with workers, the listener and one worker per
  configured worker under distinct names, all with the same configuration, and nothing in the role
  \<open>Api\<close>; and its last act but the closing message is to wait, within the shutdown timeout, for
  exactly these tasks.
\<close>

theorem serve_drains_what_it_started:
  assumes "serve rnd H args = (tr, Inr ())"
  shows "\<exists>pre bye. tr = pre @ [Draining (spawned tr), bye] \<and>
    bye = (if ho_drains H (spawned tr) (sv_shutdown_timeout_secs args) then Shutdown_complete else Drain_timed_out) \<and>
    last pre = (if sv_role args = Role_Worker then Awaited_shutdown else Serving
       (serve_state (sv_metrics_token args) (sv_admin_token args))
       (serve_limiter rnd (sv_rate_limit_rps args) (sv_rate_limit_burst args)) (notifier_new 25)) \<and>
    length (spawned tr) = (if sv_role args = Role_Api then 0 else sv_workers args + 1) \<and> distinct (spawned tr)"
proof -
  from assms obtain tr0 cfg tr1 where p: "prepare H args = (tr0, Inr cfg)" and l: "launch rnd H args cfg = (tr1, Inr ())"
    and tr: "tr = tr0 @ tr1" unfolding serve_def by (rule and_then_Inr)
  have cfg: "dc_worker_count (cf_dispatcher cfg) = sv_workers args"
    using prepared(1) [OF p] by (simp add: serve_config_def dispatcher_from_def)
  from l obtain tr2 where tr1: "tr1 = Spawned_signal_task # tr2"
    and "and_then (if run_workers (sv_role args) then spawn_workers H (cf_dispatcher cfg) else finished []) (\<lambda>worker_handles.
          and_then (if run_api (sv_role args) then serve_api rnd H args cfg else act Awaited_shutdown (finished ())) (\<lambda>_.
            drain H args worker_handles)) = (tr2, Inr ())"
    by (auto simp: launch_def act_def prod_eq_iff)
  then obtain hs tr3 tr4 where w: "(if run_workers (sv_role args) then spawn_workers H (cf_dispatcher cfg) else finished []) = (tr3, Inr hs)"
    and rest: "and_then (if run_api (sv_role args) then serve_api rnd H args cfg else act Awaited_shutdown (finished ())) (\<lambda>_.
            drain H args hs) = (tr4, Inr ())" and tr2: "tr2 = tr3 @ tr4" by (auto elim: and_then_Inr)
  from rest obtain tr5 tr6 where a: "(if run_api (sv_role args) then serve_api rnd H args cfg else act Awaited_shutdown (finished ())) = (tr5, Inr ())"
    and d: "drain H args hs = (tr6, Inr ())" and tr4: "tr4 = tr5 @ tr6" by (auto elim: and_then_Inr)
  note w = tasks_spawned [OF w] and a = api_served [OF a]
  have tr6: "tr6 = [Draining hs, if ho_drains H hs (sv_shutdown_timeout_secs args) then Shutdown_complete else Drain_timed_out]"
    using d by (auto simp: run_parts split: if_splits)
  have hs: "spawned tr = hs"
    using prepare_spawns_nothing [OF p] a w(1) tr tr1 tr2 tr4 tr6 by simp
  show ?thesis unfolding hs
    by (rule exI [of _ "tr0 @ Spawned_signal_task # tr3 @ tr5"])
      (use a w cfg tr tr1 tr2 tr4 tr6 in simp)
qed

theorem serve_drains_what_it_started_witness:
  "\<exists>tr bye pre. serve (\<lambda>x. x) host0 (serve_defaults ''db'') = (tr, Inr ()) \<and> tr = pre @ [Draining (spawned tr), bye] \<and>
     length (spawned tr) = 5"
proof -
  have tr: "serve (\<lambda>x. x) host0 (serve_defaults ''db'') = (fst (serve (\<lambda>x. x) host0 (serve_defaults ''db'')), Inr ())"
    by (simp add: serve_def run_parts serve_config_def default_warns host0_def run_workers_def run_api_def)
  from serve_drains_what_it_started [OF tr] tr show ?thesis
    by (auto simp: serve_defaults_def)
qed

end
