(* ===== verification/Http.thy ===== *)
theory Http
  imports Api
begin

text \<open>
  The way from a raw HTTP request to a handler of \<open>api.rs\<close>: the two route tables of \<open>router\<close>,
  with the paths and methods as the code writes them, the extractors of each handler in the order
  of its parameters, and the \<open>Deserialize\<close> structs of the bodies and of the query. What the web
  framework does by itself is a parameter (\<open>framework\<close>): the percent-decoding of a path segment,
  the text of a UUID, the bytes of a JSON body (content type, size limit and syntax included), the
  responses of its rejections, and whether the authentication layer of a route also covers its
  answer to a method the route does not have. The theorems: no route shadows another and every
  operation is reached by its URL; without a stored key no request on a protected path gets
  anywhere; a request that does not decode changes nothing; and whatever is sent, only
  transactions of the system are committed.
\<close>

record framework =
  fw_decode :: "string \<Rightarrow> string option"
  fw_uuid :: "string \<Rightarrow> uuid option"
  fw_json :: "headers \<Rightarrow> bytes \<Rightarrow> json option"
  fw_bad_path :: "string \<Rightarrow> response"
  fw_bad_query :: "(string \<times> string) list \<Rightarrow> response"
  fw_bad_json :: "headers \<Rightarrow> bytes \<Rightarrow> response"
  fw_not_found :: response
  fw_not_allowed :: "string list \<Rightarrow> response"
  fw_layer_covers_methods :: bool

record request =
  in_method :: string
  in_path :: string
  in_query :: "(string \<times> string) list"
  in_headers :: headers
  in_body :: bytes

section \<open>Bodies and queries\<close>

text \<open>
  A derived \<open>Deserialize\<close> of a struct: an object gives its fields by name, in any order, other
  members ignored and a field given twice refused; an array gives them by position, all of them
  and no more.
\<close>

definition struct_fields :: "string list \<Rightarrow> json \<Rightarrow> json option list option" where
  "struct_fields names j =
     (case j of
        JObject kvs \<Rightarrow>
          if list_all (\<lambda>n. length (filter (\<lambda>kv. fst kv = n) kvs) \<le> 1) names then Some (map (map_of kvs) names)
          else None
      | JArray vs \<Rightarrow> if length vs = length names then Some (map Some vs) else None
      | _ \<Rightarrow> None)"

fun json_string :: "json \<Rightarrow> string option" where
  "json_string (JString s) = Some s"
| "json_string _ = None"

fun json_bool :: "json \<Rightarrow> bool option" where
  "json_bool (JBool b) = Some b"
| "json_bool _ = None"

fun json_strings :: "json \<Rightarrow> string list option" where
  "json_strings (JArray vs) = those (map json_string vs)"
| "json_strings _ = None"

text \<open>A field of type \<open>T\<close>, and one of type \<open>Option<T>\<close>, which may be missing or null.\<close>

definition required :: "(json \<Rightarrow> 'a option) \<Rightarrow> json option \<Rightarrow> 'a option" where
  "required dec j = Option.bind j dec"

definition optional :: "(json \<Rightarrow> 'a option) \<Rightarrow> json option \<Rightarrow> 'a option option" where
  "optional dec j = (case j of None \<Rightarrow> Some None | Some v \<Rightarrow> if v = JNull then Some None else map_option Some (dec v))"

definition decode_create_message :: "json \<Rightarrow> (string \<times> json) option" where
  "decode_create_message j =
     (case struct_fields [''event_type'', ''payload''] j of
        Some [event_type, payload] \<Rightarrow>
          Option.bind (required json_string event_type) (\<lambda>t. Option.bind (required Some payload) (\<lambda>p. Some (t, p)))
      | _ \<Rightarrow> None)"

definition decode_create_endpoint :: "json \<Rightarrow> (string \<times> string option \<times> string list option) option" where
  "decode_create_endpoint j =
     (case struct_fields [''url'', ''secret'', ''event_types''] j of
        Some [url, secret, event_types] \<Rightarrow>
          Option.bind (required json_string url) (\<lambda>u. Option.bind (optional json_string secret) (\<lambda>s.
          Option.bind (optional json_strings event_types) (\<lambda>t. Some (u, s, t))))
      | _ \<Rightarrow> None)"

definition decode_update_endpoint :: "json \<Rightarrow> (string option \<times> bool option \<times> string list option) option" where
  "decode_update_endpoint j =
     (case struct_fields [''url'', ''disabled'', ''event_types''] j of
        Some [url, disabled, event_types] \<Rightarrow>
          Option.bind (optional json_string url) (\<lambda>u. Option.bind (optional json_bool disabled) (\<lambda>d.
          Option.bind (optional json_strings event_types) (\<lambda>t. Some (u, d, t))))
      | _ \<Rightarrow> None)"

definition decode_create_consumer :: "json \<Rightarrow> (string \<times> string option) option" where
  "decode_create_consumer j =
     (case struct_fields [''uid'', ''name''] j of
        Some [uid, name] \<Rightarrow>
          Option.bind (required json_string uid) (\<lambda>u. Option.bind (optional json_string name) (\<lambda>n. Some (u, n)))
      | _ \<Rightarrow> None)"

definition decode_create_inbound_source :: "json \<Rightarrow> (string \<times> string \<times> string option) option" where
  "decode_create_inbound_source j =
     (case struct_fields [''slug'', ''provider'', ''secret''] j of
        Some [slug, provider, secret] \<Rightarrow>
          Option.bind (required json_string slug) (\<lambda>s. Option.bind (required json_string provider) (\<lambda>p.
          Option.bind (optional json_string secret) (\<lambda>x. Some (s, p, x))))
      | _ \<Rightarrow> None)"

text \<open>\<open>ListQuery\<close>: two optional integers, each given at most once.\<close>

definition query_int :: "(string \<times> string) list \<Rightarrow> string \<Rightarrow> int option option" where
  "query_int pairs name =
     (case filter (\<lambda>kv. fst kv = name) pairs of
        [] \<Rightarrow> Some None
      | [kv] \<Rightarrow> map_option Some (parse_i64 (snd kv))
      | _ \<Rightarrow> None)"

definition list_query :: "(string \<times> string) list \<Rightarrow> (int option \<times> int option) option" where
  "list_query pairs = Option.bind (query_int pairs ''limit'') (\<lambda>l. map_option (Pair l) (query_int pairs ''offset''))"

section \<open>The route tables\<close>

datatype v1_op =
  H_create_message | H_list_messages | H_get_message | H_get_delivery_detail | H_replay_delivery
| H_create_endpoint | H_list_endpoints | H_get_endpoint | H_update_endpoint
| H_create_consumer | H_list_consumers | H_get_consumer
| H_create_consumer_endpoint | H_list_consumer_endpoints
| H_create_consumer_message | H_list_consumer_messages
| H_create_inbound_source | H_list_inbound_sources

datatype public_op =
  H_dashboard | H_healthz | H_readyz | H_metrics | H_ingest | H_admin_dashboard | H_admin_overview | H_admin_failures

type_synonym 'h routes = "(string \<times> (string \<times> 'h) list) list"

definition protected_routes :: "v1_op routes" where
  "protected_routes =
    [(''/v1/messages'', [(''POST'', H_create_message), (''GET'', H_list_messages)]),
     (''/v1/messages/{id}'', [(''GET'', H_get_message)]),
     (''/v1/deliveries/{id}'', [(''GET'', H_get_delivery_detail)]),
     (''/v1/deliveries/{id}/replay'', [(''POST'', H_replay_delivery)]),
     (''/v1/endpoints'', [(''POST'', H_create_endpoint), (''GET'', H_list_endpoints)]),
     (''/v1/endpoints/{id}'', [(''GET'', H_get_endpoint), (''PATCH'', H_update_endpoint)]),
     (''/v1/app'', [(''POST'', H_create_consumer), (''GET'', H_list_consumers)]),
     (''/v1/app/{uid}'', [(''GET'', H_get_consumer)]),
     (''/v1/app/{uid}/endpoints'', [(''POST'', H_create_consumer_endpoint), (''GET'', H_list_consumer_endpoints)]),
     (''/v1/app/{uid}/messages'', [(''POST'', H_create_consumer_message), (''GET'', H_list_consumer_messages)]),
     (''/v1/inbound-sources'', [(''POST'', H_create_inbound_source), (''GET'', H_list_inbound_sources)])]"

definition public_routes :: "public_op routes" where
  "public_routes =
    [(''/'', [(''GET'', H_dashboard)]),
     (''/healthz'', [(''GET'', H_healthz)]),
     (''/readyz'', [(''GET'', H_readyz)]),
     (''/metrics'', [(''GET'', H_metrics)]),
     (''/ingest/{slug}'', [(''POST'', H_ingest)]),
     (''/admin'', [(''GET'', H_admin_dashboard)]),
     (''/admin/overview'', [(''GET'', H_admin_overview)]),
     (''/admin/failures'', [(''GET'', H_admin_failures)])]"

text \<open>A path is matched segment by segment; \<open>{name}\<close> takes any segment that is not empty.\<close>

datatype segment = Lit string | Param

definition segments :: "string \<Rightarrow> string list" where
  "segments path = split_char (CHR ''/'') path"

definition pattern_of :: "string \<Rightarrow> segment list" where
  "pattern_of path = map (\<lambda>s. if starts_with s ''{'' then Param else Lit s) (segments path)"

fun captures :: "segment list \<Rightarrow> string list \<Rightarrow> string list option" where
  "captures [] [] = Some []"
| "captures (Lit l # ps) (s # ss) = (if l = s then captures ps ss else None)"
| "captures (Param # ps) (s # ss) = (if s = '''' then None else map_option ((#) s) (captures ps ss))"
| "captures _ _ = None"

fun find_route :: "'h routes \<Rightarrow> string list \<Rightarrow> ((string \<times> 'h) list \<times> string list) option" where
  "find_route [] ss = None"
| "find_route ((path, methods) # rest) ss =
     (case captures (pattern_of path) ss of Some caps \<Rightarrow> Some (methods, caps) | None \<Rightarrow> find_route rest ss)"

text \<open>\<open>get\<close> also answers \<open>HEAD\<close>.\<close>

definition handler_for :: "(string \<times> 'h) list \<Rightarrow> string \<Rightarrow> 'h option" where
  "handler_for methods m =
     (case map_of methods m of Some h \<Rightarrow> Some h | None \<Rightarrow> if m = ''HEAD'' then map_of methods ''GET'' else None)"

section \<open>The extractors\<close>

definition with_text :: "framework \<Rightarrow> string list \<Rightarrow> (string \<Rightarrow> response + 'c) \<Rightarrow> response + 'c" where
  "with_text F caps k =
     (case fw_decode F (hd caps) of Some s \<Rightarrow> k s | None \<Rightarrow> Inl (fw_bad_path F (hd caps)))"

definition with_uuid :: "framework \<Rightarrow> string list \<Rightarrow> (uuid \<Rightarrow> response + 'c) \<Rightarrow> response + 'c" where
  "with_uuid F caps k =
     (case Option.bind (fw_decode F (hd caps)) (fw_uuid F) of Some u \<Rightarrow> k u | None \<Rightarrow> Inl (fw_bad_path F (hd caps)))"

definition with_page :: "framework \<Rightarrow> request \<Rightarrow> (int option \<Rightarrow> int option \<Rightarrow> response + 'c) \<Rightarrow> response + 'c" where
  "with_page F rq k =
     (case list_query (in_query rq) of Some (l, f) \<Rightarrow> k l f | None \<Rightarrow> Inl (fw_bad_query F (in_query rq)))"

definition with_json :: "framework \<Rightarrow> request \<Rightarrow> (json \<Rightarrow> 'b option) \<Rightarrow> ('b \<Rightarrow> response + 'c) \<Rightarrow> response + 'c" where
  "with_json F rq dec k =
     (case Option.bind (fw_json F (in_headers rq) (in_body rq)) dec of
        Some b \<Rightarrow> k b | None \<Rightarrow> Inl (fw_bad_json F (in_headers rq) (in_body rq)))"

fun extract_v1 :: "framework \<Rightarrow> request \<Rightarrow> string list \<Rightarrow> v1_op \<Rightarrow> response + v1_call" where
  "extract_v1 F rq caps H_create_message = with_json F rq decode_create_message (\<lambda>(t, p). Inr (CreateMessage t p))"
| "extract_v1 F rq caps H_list_messages = with_page F rq (\<lambda>l f. Inr (ListMessages l f))"
| "extract_v1 F rq caps H_get_message = with_uuid F caps (\<lambda>u. Inr (GetMessage u))"
| "extract_v1 F rq caps H_get_delivery_detail = with_uuid F caps (\<lambda>u. Inr (GetDelivery u))"
| "extract_v1 F rq caps H_replay_delivery = with_uuid F caps (\<lambda>u. Inr (ReplayDelivery u))"
| "extract_v1 F rq caps H_create_endpoint = with_json F rq decode_create_endpoint (\<lambda>(u, s, t). Inr (CreateEndpoint u s t))"
| "extract_v1 F rq caps H_list_endpoints = Inr ListEndpoints"
| "extract_v1 F rq caps H_get_endpoint = with_uuid F caps (\<lambda>u. Inr (GetEndpoint u))"
| "extract_v1 F rq caps H_update_endpoint = with_uuid F caps (\<lambda>i.
     with_json F rq decode_update_endpoint (\<lambda>(u, d, t). Inr (UpdateEndpoint i u d t)))"
| "extract_v1 F rq caps H_create_consumer = with_json F rq decode_create_consumer (\<lambda>(u, n). Inr (CreateConsumer u n))"
| "extract_v1 F rq caps H_list_consumers = Inr ListConsumers"
| "extract_v1 F rq caps H_get_consumer = with_text F caps (\<lambda>uid. Inr (GetConsumer uid))"
| "extract_v1 F rq caps H_create_consumer_endpoint = with_text F caps (\<lambda>uid.
     with_json F rq decode_create_endpoint (\<lambda>(u, s, t). Inr (CreateConsumerEndpoint uid u s t)))"
| "extract_v1 F rq caps H_list_consumer_endpoints = with_text F caps (\<lambda>uid. Inr (ListConsumerEndpoints uid))"
| "extract_v1 F rq caps H_create_consumer_message = with_text F caps (\<lambda>uid.
     with_json F rq decode_create_message (\<lambda>(t, p). Inr (CreateConsumerMessage uid t p)))"
| "extract_v1 F rq caps H_list_consumer_messages = with_text F caps (\<lambda>uid.
     with_page F rq (\<lambda>l f. Inr (ListConsumerMessages uid l f)))"
| "extract_v1 F rq caps H_create_inbound_source =
     with_json F rq decode_create_inbound_source (\<lambda>(s, p, x). Inr (CreateInboundSource s p x))"
| "extract_v1 F rq caps H_list_inbound_sources = Inr ListInboundSources"

fun extract_public :: "framework \<Rightarrow> request \<Rightarrow> string list \<Rightarrow> public_op \<Rightarrow> response + call" where
  "extract_public F rq caps H_ingest = with_text F caps (\<lambda>slug. Inr (Ingest slug (in_body rq)))"
| "extract_public F rq caps H_dashboard = Inr Dashboard"
| "extract_public F rq caps H_healthz = Inr Healthz"
| "extract_public F rq caps H_readyz = Inr Readyz"
| "extract_public F rq caps H_metrics = Inr Metrics"
| "extract_public F rq caps H_admin_dashboard = Inr AdminDashboard"
| "extract_public F rq caps H_admin_overview = Inr AdminOverview"
| "extract_public F rq caps H_admin_failures = Inr AdminFailures"

section \<open>A request\<close>

datatype 'c dispatched = No_route | No_method "string list" | Rejected response | To 'c

definition dispatch :: "'h routes \<Rightarrow> (string list \<Rightarrow> 'h \<Rightarrow> response + 'c) \<Rightarrow> request \<Rightarrow> 'c dispatched" where
  "dispatch table extract rq =
     (case find_route table (segments (in_path rq)) of
        None \<Rightarrow> No_route
      | Some (methods, caps) \<Rightarrow>
          (case handler_for methods (in_method rq) of
             None \<Rightarrow> No_method (map fst methods)
           | Some h \<Rightarrow> (case extract caps h of Inl r \<Rightarrow> Rejected r | Inr c \<Rightarrow> To c)))"

text \<open>The protected routes, behind the authentication layer.\<close>

definition serve_protected :: "api_deps \<Rightarrow> framework \<Rightarrow> request \<Rightarrow> response io" where
  "serve_protected A F rq =
     (case dispatch protected_routes (extract_v1 F rq) rq of
        No_route \<Rightarrow> ok (fw_not_found F)
      | No_method allowed \<Rightarrow>
          if fw_layer_covers_methods F then auth A (in_headers rq) (\<lambda>_. ok (fw_not_allowed F allowed))
          else ok (fw_not_allowed F allowed)
      | Rejected r \<Rightarrow> auth A (in_headers rq) (\<lambda>_. ok r)
      | To c \<Rightarrow> auth A (in_headers rq) (v1_handler A c))"

definition answer_request :: "api_deps \<Rightarrow> app_state \<Rightarrow> framework \<Rightarrow> request \<Rightarrow> response option io" where
  "answer_request A S F rq =
     (case dispatch public_routes (extract_public F rq) rq of
        No_route \<Rightarrow> await (serve_protected A F rq) (\<lambda>r. ok (Some r))
      | No_method allowed \<Rightarrow> ok (Some (fw_not_allowed F allowed))
      | Rejected r \<Rightarrow> ok (Some r)
      | To c \<Rightarrow> router A S (in_headers rq) c)"

text \<open>The answer to \<open>HEAD\<close> carries no body.\<close>

definition serve_request :: "api_deps \<Rightarrow> app_state \<Rightarrow> framework \<Rightarrow> request \<Rightarrow> response option io" where
  "serve_request A S F rq = await (answer_request A S F rq) (\<lambda>r. ok
     (if in_method rq = ''HEAD'' then map_option (\<lambda>x. x\<lparr>rs_body := Empty_body\<rparr>) r else r))"

section \<open>No route shadows another\<close>

fun overlap :: "segment list \<Rightarrow> segment list \<Rightarrow> bool" where
  "overlap [] [] = True"
| "overlap (Lit a # ps) (Lit b # qs) = (a = b \<and> overlap ps qs)"
| "overlap (Lit a # ps) (Param # qs) = (a \<noteq> '''' \<and> overlap ps qs)"
| "overlap (Param # ps) (Lit b # qs) = (b \<noteq> '''' \<and> overlap ps qs)"
| "overlap (Param # ps) (Param # qs) = overlap ps qs"
| "overlap _ _ = False"

lemma captures_overlap:
  "captures p ss = Some xs \<Longrightarrow> captures q ss = Some ys \<Longrightarrow> overlap p q"
  by (induction p q arbitrary: ss xs ys rule: overlap.induct) (case_tac ss; auto split: if_splits)+

definition all_paths :: "string list" where
  "all_paths = map fst public_routes @ map fst protected_routes"

fun pairwise_apart :: "segment list list \<Rightarrow> bool" where
  "pairwise_apart [] = True"
| "pairwise_apart (p # ps) = (list_all (\<lambda>q. \<not> overlap p q) ps \<and> pairwise_apart ps)"

lemma pairwise_apart_nth:
  "pairwise_apart ps \<Longrightarrow> i < j \<Longrightarrow> j < length ps \<Longrightarrow> \<not> overlap (ps ! i) (ps ! j)"
proof (induction ps arbitrary: i j)
  case (Cons p ps)
  then show ?case by (cases i; cases j) (auto simp: list_all_length)
qed simp

lemma routes_apart: "pairwise_apart (map pattern_of all_paths)"
  by code_simp

text \<open>At most one entry of the two tables matches a path, so the order of the entries and of the two
  tables does not matter.\<close>

lemma at_most_one_route:
  assumes "i < length all_paths" "j < length all_paths"
    and "captures (pattern_of (all_paths ! i)) ss = Some xs" "captures (pattern_of (all_paths ! j)) ss = Some ys"
  shows "i = j"
proof (rule ccontr)
  assume "i \<noteq> j"
  moreover have "\<not> overlap (pattern_of (all_paths ! i)) (pattern_of (all_paths ! j))" if "i < j"
    using pairwise_apart_nth [OF routes_apart that] assms(1,2) by simp
  moreover have "\<not> overlap (pattern_of (all_paths ! j)) (pattern_of (all_paths ! i))" if "j < i"
    using pairwise_apart_nth [OF routes_apart that] assms(1,2) by simp
  ultimately show False
    using captures_overlap [OF assms(3,4)] captures_overlap [OF assms(4,3)] by (cases i j rule: linorder_cases) auto
qed

text \<open>The patterns of the two tables, computed.\<close>

lemma protected_patterns:
  "map (\<lambda>(p, ms). (pattern_of p, ms)) protected_routes =
    [([Lit '''', Lit ''v1'', Lit ''messages''], [(''POST'', H_create_message), (''GET'', H_list_messages)]),
     ([Lit '''', Lit ''v1'', Lit ''messages'', Param], [(''GET'', H_get_message)]),
     ([Lit '''', Lit ''v1'', Lit ''deliveries'', Param], [(''GET'', H_get_delivery_detail)]),
     ([Lit '''', Lit ''v1'', Lit ''deliveries'', Param, Lit ''replay''], [(''POST'', H_replay_delivery)]),
     ([Lit '''', Lit ''v1'', Lit ''endpoints''], [(''POST'', H_create_endpoint), (''GET'', H_list_endpoints)]),
     ([Lit '''', Lit ''v1'', Lit ''endpoints'', Param], [(''GET'', H_get_endpoint), (''PATCH'', H_update_endpoint)]),
     ([Lit '''', Lit ''v1'', Lit ''app''], [(''POST'', H_create_consumer), (''GET'', H_list_consumers)]),
     ([Lit '''', Lit ''v1'', Lit ''app'', Param], [(''GET'', H_get_consumer)]),
     ([Lit '''', Lit ''v1'', Lit ''app'', Param, Lit ''endpoints''],
       [(''POST'', H_create_consumer_endpoint), (''GET'', H_list_consumer_endpoints)]),
     ([Lit '''', Lit ''v1'', Lit ''app'', Param, Lit ''messages''],
       [(''POST'', H_create_consumer_message), (''GET'', H_list_consumer_messages)]),
     ([Lit '''', Lit ''v1'', Lit ''inbound-sources''], [(''POST'', H_create_inbound_source), (''GET'', H_list_inbound_sources)])]"
  by code_simp

lemma public_patterns:
  "map (\<lambda>(p, ms). (pattern_of p, ms)) public_routes =
    [([Lit '''', Lit ''''], [(''GET'', H_dashboard)]),
     ([Lit '''', Lit ''healthz''], [(''GET'', H_healthz)]),
     ([Lit '''', Lit ''readyz''], [(''GET'', H_readyz)]),
     ([Lit '''', Lit ''metrics''], [(''GET'', H_metrics)]),
     ([Lit '''', Lit ''ingest'', Param], [(''POST'', H_ingest)]),
     ([Lit '''', Lit ''admin''], [(''GET'', H_admin_dashboard)]),
     ([Lit '''', Lit ''admin'', Lit ''overview''], [(''GET'', H_admin_overview)]),
     ([Lit '''', Lit ''admin'', Lit ''failures''], [(''GET'', H_admin_failures)])]"
  by code_simp

fun find_pattern :: "(segment list \<times> 'm) list \<Rightarrow> string list \<Rightarrow> ('m \<times> string list) option" where
  "find_pattern [] ss = None"
| "find_pattern ((p, ms) # rest) ss = (case captures p ss of Some caps \<Rightarrow> Some (ms, caps) | None \<Rightarrow> find_pattern rest ss)"

lemma find_route_pattern: "find_route table ss = find_pattern (map (\<lambda>(p, ms). (pattern_of p, ms)) table) ss"
  by (induction table ss rule: find_route.induct) (auto split: option.split)

lemmas find_protected = find_route_pattern [of protected_routes, unfolded protected_patterns]
  and find_public = find_route_pattern [of public_routes, unfolded public_patterns]

lemma v1_not_public: "find_route public_routes ('''' # ''v1'' # ss) = None"
  by (simp add: find_public)

lemma segments_v1:
  assumes "starts_with path ''/v1/''"
  shows "\<exists>ss. segments path = '''' # ''v1'' # ss"
proof -
  obtain t where "path = ''/v1/'' @ t" using assms by (auto simp: starts_with_iff)
  then show ?thesis by (simp add: segments_def)
qed

section \<open>Every operation is reached by its URL\<close>

text \<open>A client: how it writes a path segment, a UUID and a JSON body, and its headers.\<close>

record client =
  cl_encode :: "string \<Rightarrow> string"
  cl_uuid :: "uuid \<Rightarrow> string"
  cl_body :: "json \<Rightarrow> bytes"
  cl_headers :: headers

definition get_request :: "client \<Rightarrow> string \<Rightarrow> (string \<times> string) list \<Rightarrow> request" where
  "get_request C path query =
     \<lparr>in_method = ''GET'', in_path = path, in_query = query, in_headers = cl_headers C, in_body = []\<rparr>"

definition json_request :: "client \<Rightarrow> string \<Rightarrow> string \<Rightarrow> json \<Rightarrow> request" where
  "json_request C method path j =
     \<lparr>in_method = method, in_path = path, in_query = [], in_headers = cl_headers C, in_body = cl_body C j\<rparr>"

definition page_query :: "int option \<Rightarrow> int option \<Rightarrow> (string \<times> string) list" where
  "page_query l f = (case l of Some i \<Rightarrow> [(''limit'', show_int i)] | None \<Rightarrow> []) @
     (case f of Some i \<Rightarrow> [(''offset'', show_int i)] | None \<Rightarrow> [])"

definition types_json :: "string list option \<Rightarrow> json" where
  "types_json tys = opt_json (\<lambda>ts. JArray (map JString ts)) tys"

definition endpoint_body :: "string \<Rightarrow> string option \<Rightarrow> string list option \<Rightarrow> json" where
  "endpoint_body url sec tys =
     JObject [(''url'', JString url), (''secret'', opt_json JString sec), (''event_types'', types_json tys)]"

definition message_body :: "string \<Rightarrow> json \<Rightarrow> json" where
  "message_body ty payload = JObject [(''event_type'', JString ty), (''payload'', payload)]"

definition app_path :: "client \<Rightarrow> string \<Rightarrow> string \<Rightarrow> string" where
  "app_path C uid rest = ''/v1/app/'' @ cl_encode C uid @ rest"

fun request_for :: "client \<Rightarrow> v1_call \<Rightarrow> request" where
  "request_for C (CreateMessage ty payload) = json_request C ''POST'' ''/v1/messages'' (message_body ty payload)"
| "request_for C (ListMessages l f) = get_request C ''/v1/messages'' (page_query l f)"
| "request_for C (GetMessage i) = get_request C (''/v1/messages/'' @ cl_encode C (cl_uuid C i)) []"
| "request_for C (GetDelivery i) = get_request C (''/v1/deliveries/'' @ cl_encode C (cl_uuid C i)) []"
| "request_for C (ReplayDelivery i) =
     json_request C ''POST'' (''/v1/deliveries/'' @ cl_encode C (cl_uuid C i) @ ''/replay'') JNull"
| "request_for C (CreateEndpoint url sec tys) = json_request C ''POST'' ''/v1/endpoints'' (endpoint_body url sec tys)"
| "request_for C ListEndpoints = get_request C ''/v1/endpoints'' []"
| "request_for C (GetEndpoint i) = get_request C (''/v1/endpoints/'' @ cl_encode C (cl_uuid C i)) []"
| "request_for C (UpdateEndpoint i url dis tys) = json_request C ''PATCH'' (''/v1/endpoints/'' @ cl_encode C (cl_uuid C i))
     (JObject [(''url'', opt_json JString url), (''disabled'', opt_json JBool dis), (''event_types'', types_json tys)])"
| "request_for C (CreateConsumer uid name) =
     json_request C ''POST'' ''/v1/app'' (JObject [(''uid'', JString uid), (''name'', opt_json JString name)])"
| "request_for C ListConsumers = get_request C ''/v1/app'' []"
| "request_for C (GetConsumer uid) = get_request C (app_path C uid '''') []"
| "request_for C (CreateConsumerEndpoint uid url sec tys) =
     json_request C ''POST'' (app_path C uid ''/endpoints'') (endpoint_body url sec tys)"
| "request_for C (ListConsumerEndpoints uid) = get_request C (app_path C uid ''/endpoints'') []"
| "request_for C (CreateConsumerMessage uid ty payload) =
     json_request C ''POST'' (app_path C uid ''/messages'') (message_body ty payload)"
| "request_for C (ListConsumerMessages uid l f) = get_request C (app_path C uid ''/messages'') (page_query l f)"
| "request_for C (CreateInboundSource slug prov sec) = json_request C ''POST'' ''/v1/inbound-sources''
     (JObject [(''slug'', JString slug), (''provider'', JString prov), (''secret'', opt_json JString sec)])"
| "request_for C ListInboundSources = get_request C ''/v1/inbound-sources'' []"

text \<open>What one request needs of the framework: it reads the path segment, the UUID or the JSON body of
  this request as the client wrote it. A path segment is not empty, and the numbers of a page are
  of type \<open>i64\<close>.\<close>

definition segment_ok :: "framework \<Rightarrow> client \<Rightarrow> string \<Rightarrow> bool" where
  "segment_ok F C s \<longleftrightarrow>
     cl_encode C s \<noteq> '''' \<and> CHR ''/'' \<notin> set (cl_encode C s) \<and> fw_decode F (cl_encode C s) = Some s"

definition uuid_ok :: "framework \<Rightarrow> client \<Rightarrow> uuid \<Rightarrow> bool" where
  "uuid_ok F C u \<longleftrightarrow> segment_ok F C (cl_uuid C u) \<and> fw_uuid F (cl_uuid C u) = Some u"

definition body_ok :: "framework \<Rightarrow> client \<Rightarrow> json \<Rightarrow> bool" where
  "body_ok F C j \<longleftrightarrow> fw_json F (cl_headers C) (cl_body C j) = Some j"

definition page_ok :: "int option \<Rightarrow> int option \<Rightarrow> bool" where
  "page_ok l f \<longleftrightarrow> pred_option is_i64 l \<and> pred_option is_i64 f"

fun understood :: "framework \<Rightarrow> client \<Rightarrow> v1_call \<Rightarrow> bool" where
  "understood F C (CreateMessage ty payload) = body_ok F C (message_body ty payload)"
| "understood F C (ListMessages l f) = page_ok l f"
| "understood F C (GetMessage i) = uuid_ok F C i"
| "understood F C (GetDelivery i) = uuid_ok F C i"
| "understood F C (ReplayDelivery i) = uuid_ok F C i"
| "understood F C (CreateEndpoint url sec tys) = body_ok F C (endpoint_body url sec tys)"
| "understood F C ListEndpoints = True"
| "understood F C (GetEndpoint i) = uuid_ok F C i"
| "understood F C (UpdateEndpoint i url dis tys) = (uuid_ok F C i \<and> body_ok F C
     (JObject [(''url'', opt_json JString url), (''disabled'', opt_json JBool dis), (''event_types'', types_json tys)]))"
| "understood F C (CreateConsumer uid name) =
     body_ok F C (JObject [(''uid'', JString uid), (''name'', opt_json JString name)])"
| "understood F C ListConsumers = True"
| "understood F C (GetConsumer uid) = segment_ok F C uid"
| "understood F C (CreateConsumerEndpoint uid url sec tys) = (segment_ok F C uid \<and> body_ok F C (endpoint_body url sec tys))"
| "understood F C (ListConsumerEndpoints uid) = segment_ok F C uid"
| "understood F C (CreateConsumerMessage uid ty payload) = (segment_ok F C uid \<and> body_ok F C (message_body ty payload))"
| "understood F C (ListConsumerMessages uid l f) = (segment_ok F C uid \<and> page_ok l f)"
| "understood F C (CreateInboundSource slug prov sec) = body_ok F C
     (JObject [(''slug'', JString slug), (''provider'', JString prov), (''secret'', opt_json JString sec)])"
| "understood F C ListInboundSources = True"

lemma optional_json [simp]:
  "optional json_string (Some (opt_json JString x)) = Some x"
  "optional json_bool (Some (opt_json JBool b)) = Some b"
  "optional json_strings (Some (types_json tys)) = Some tys"
proof -
  have "those (map (json_string \<circ> JString) ts) = Some ts" for ts by (induction ts) auto
  then show "optional json_strings (Some (types_json tys)) = Some tys"
    by (cases tys) (auto simp: optional_def opt_json_def types_json_def)
qed (auto simp: optional_def opt_json_def split: option.splits)

lemma decoded [simp]:
  "decode_create_message (message_body ty p) = Some (ty, p)"
  "decode_create_endpoint (endpoint_body url sec tys) = Some (url, sec, tys)"
  "decode_update_endpoint (JObject [(''url'', opt_json JString x), (''disabled'', opt_json JBool b), (''event_types'', types_json tys)])
     = Some (x, b, tys)"
  "decode_create_consumer (JObject [(''uid'', JString uid), (''name'', opt_json JString x)]) = Some (uid, x)"
  "decode_create_inbound_source (JObject [(''slug'', JString s), (''provider'', JString pr), (''secret'', opt_json JString x)])
     = Some (s, pr, x)"
  by (simp_all add: decode_create_message_def decode_create_endpoint_def decode_update_endpoint_def
      decode_create_consumer_def decode_create_inbound_source_def struct_fields_def message_body_def
      endpoint_body_def required_def)

lemma page_roundtrip [simp]: "page_ok l f \<Longrightarrow> list_query (page_query l f) = Some (l, f)"
  by (cases l; cases f) (auto simp: list_query_def query_int_def page_query_def page_ok_def parse_show_i64)

lemma segments_v1_paths:
  "segments ''/v1/messages'' = ['''', ''v1'', ''messages'']"
  "segments ''/v1/endpoints'' = ['''', ''v1'', ''endpoints'']"
  "segments ''/v1/app'' = ['''', ''v1'', ''app'']"
  "segments ''/v1/inbound-sources'' = ['''', ''v1'', ''inbound-sources'']"
  by code_simp+

lemma segments_v1_params:
  assumes "CHR ''/'' \<notin> set s"
  shows "segments (''/v1/messages/'' @ s) = ['''', ''v1'', ''messages'', s]"
    "segments (''/v1/deliveries/'' @ s) = ['''', ''v1'', ''deliveries'', s]"
    "segments (''/v1/deliveries/'' @ s @ ''/replay'') = ['''', ''v1'', ''deliveries'', s, ''replay'']"
    "segments (''/v1/endpoints/'' @ s) = ['''', ''v1'', ''endpoints'', s]"
    "segments (''/v1/app/'' @ s) = ['''', ''v1'', ''app'', s]"
    "segments (''/v1/app/'' @ s @ ''/endpoints'') = ['''', ''v1'', ''app'', s, ''endpoints'']"
    "segments (''/v1/app/'' @ s @ ''/messages'') = ['''', ''v1'', ''app'', s, ''messages'']"
  using assms by (simp_all add: segments_def split_char_no_sep split_char_append)

lemmas request_parts = get_request_def json_request_def app_path_def dispatch_def find_protected handler_for_def
  with_text_def with_uuid_def with_page_def with_json_def

lemma dispatch_request_for:
  assumes "understood F C c"
  shows "dispatch protected_routes (extract_v1 F (request_for C c)) (request_for C c) = To c"
  using assms
  by (cases c) (simp_all add: request_parts segments_v1_paths segments_v1_params segment_ok_def uuid_ok_def body_ok_def
      del: append_Cons append_Nil)

lemma segments_request_for:
  assumes "understood F C c"
  shows "\<exists>ss. segments (in_path (request_for C c)) = '''' # ''v1'' # ss"
  using assms
  by (cases c) (simp_all add: request_parts segments_v1_paths segments_v1_params segment_ok_def uuid_ok_def
      del: append_Cons append_Nil)

lemma request_for_parts: "in_method (request_for C c) \<noteq> ''HEAD''" "in_headers (request_for C c) = cl_headers C"
  by (cases c; simp add: get_request_def json_request_def)+

lemma await_ok: "await m ok = m"
  by (rule ext) (auto simp: await_def ok_def split: prod.splits sum.splits)

lemma served_by_its_handler:
  assumes "understood F C c"
  shows "serve_request A S F (request_for C c) = router A S (cl_headers C) (V1 c)"
proof -
  obtain ss where "segments (in_path (request_for C c)) = '''' # ''v1'' # ss" using segments_request_for [OF assms] by blast
  then have "dispatch public_routes (extract_public F (request_for C c)) (request_for C c) = No_route"
    by (simp add: dispatch_def v1_not_public)
  then show ?thesis
    by (simp add: serve_request_def answer_request_def serve_protected_def dispatch_request_for [OF assms] request_for_parts await_ok)
qed

text \<open>C16. Every operation of the API is reached by its URL, with what the client meant. When the
  framework reads what this one request holds (its path segment, its UUID, its JSON body) as the
  client wrote it, the raw request a client makes for an operation is answered exactly as the
  router answers that operation with those arguments: the method and path lead to its handler and
  to no other, and path, query and body decode to the arguments. Nothing is assumed of other
  requests, such as bodies over the size limit of the framework.\<close>

theorem operations_are_reached:
  assumes "understood F C c"
  shows "serve_request A S F (request_for C c) = router A S (cl_headers C) (V1 c)"
  using served_by_its_handler [OF assms] .

section \<open>Raw requests on protected paths\<close>

definition bodiless :: "request \<Rightarrow> response \<Rightarrow> response" where
  "bodiless rq r = (if in_method rq = ''HEAD'' then r\<lparr>rs_body := Empty_body\<rparr> else r)"

definition finish :: "request \<Rightarrow> response io \<Rightarrow> response option io" where
  "finish rq m = await m (\<lambda>r. ok (Some (bodiless rq r)))"

lemma await_ok_left [simp]: "await (ok x) f = f x"
  by (rule ext) (simp add: await_def ok_def)

lemma serve_v1:
  assumes "starts_with (in_path rq) ''/v1/''"
  shows "serve_request A S F rq = finish rq (serve_protected A F rq)"
proof -
  obtain ss where "segments (in_path rq) = '''' # ''v1'' # ss" using segments_v1 [OF assms] by blast
  then have "dispatch public_routes (extract_public F rq) rq = No_route" by (simp add: dispatch_def v1_not_public)
  then show ?thesis
    by (cases "in_method rq = ''HEAD''") (simp_all add: serve_request_def answer_request_def finish_def await_assoc bodiless_def)
qed

lemma finish_cases:
  assumes "finish rq m w = (r, w')"
  obtains x where "m w = (x, w')" "r = map_sum id (\<lambda>y. Some (bodiless rq y)) x"
  using assms by (auto simp: finish_def await_def ok_def split: prod.splits sum.splits)

lemma finish_ok: "finish rq (ok x) w = (r, w') \<longleftrightarrow> r = Inr (Some (bodiless rq x)) \<and> w' = w"
  "(r, w') = finish rq (ok x) w \<longleftrightarrow> r = Inr (Some (bodiless rq x)) \<and> w' = w"
  by (auto simp: finish_def ok_def)

lemma finish_auth:
  assumes "finish rq (auth A hs handler) w = (r, w')"
  shows "(\<exists>code\<in>{401, 500}. r = Inr (Some (respond_with code Empty_body)) \<and> w_db w' \<in> {w_db w, seen w}) \<or>
    (\<exists>token k. bearer_token A hs = Some token \<and> k \<in> set (t_api_keys (seen w)) \<and> ak_key_hash k = hash_key A token \<and>
       (r, w') = finish rq (handler (ak_tenant_id k)) ((tick w)\<lparr>w_db := seen w\<rparr>))"
proof -
  from assms obtain x where x: "auth A hs handler w = (x, w')" and r: "r = map_sum id (\<lambda>y. Some (bodiless rq y)) x"
    by (rule finish_cases)
  from auth_cases [OF x] show ?thesis
  proof (elim disjE exE conjE bexE)
    fix token k
    assume k: "bearer_token A hs = Some token" "k \<in> set (t_api_keys (seen w))" "ak_key_hash k = hash_key A token"
      and h: "(x, w') = handler (ak_tenant_id k) ((tick w)\<lparr>w_db := seen w\<rparr>)"
    have "(r, w') = finish rq (handler (ak_tenant_id k)) ((tick w)\<lparr>w_db := seen w\<rparr>)"
      unfolding finish_def await_def h [symmetric] using r by (cases x) (auto simp: ok_def)
    with k show ?thesis by blast
  qed (use r in \<open>auto simp: bodiless_def respond_with_def\<close>)
qed

text \<open>C15. Nothing happens on a protected path without a stored key. Whatever request comes for a path
  under \<open>/v1/\<close>, with any method, path, query, headers and body: it is answered 401 or 500 with an
  empty body, or as not found or a wrong method, and commits nothing; or the bearer token hashes to
  a stored key. And then either the request was not understood, it is answered by a rejection of
  the framework and nothing is committed; or it was, and the one handler it names runs for the
  tenant that owns this key.
\<close>

theorem raw_requests_need_a_key:
  assumes "serve_request A S F rq w = (r, w')" "starts_with (in_path rq) ''/v1/''"
  shows "(\<exists>resp\<in>{respond_with 401 Empty_body, respond_with 500 Empty_body, bodiless rq (fw_not_found F)} \<union>
        {bodiless rq (fw_not_allowed F allowed) |allowed. True}. r = Inr (Some resp) \<and> w_db w' \<in> {w_db w, seen w}) \<or>
    (\<exists>token k. bearer_token A (in_headers rq) = Some token \<and> k \<in> set (t_api_keys (seen w)) \<and> ak_key_hash k = hash_key A token \<and>
      ((\<exists>resp. dispatch protected_routes (extract_v1 F rq) rq = Rejected resp \<and>
          r = Inr (Some (bodiless rq resp)) \<and> w_db w' = seen w) \<or>
       (\<exists>c. dispatch protected_routes (extract_v1 F rq) rq = To c \<and>
          (r, w') = finish rq (v1_handler A c (ak_tenant_id k)) ((tick w)\<lparr>w_db := seen w\<rparr>))))"
proof -
  have f: "finish rq (serve_protected A F rq) w = (r, w')" using assms(1) serve_v1 [OF assms(2)] by simp
  show ?thesis
  proof (cases "dispatch protected_routes (extract_v1 F rq) rq")
    case No_route
    then show ?thesis using f by (auto simp: serve_protected_def finish_ok)
  next
    case (No_method allowed)
    show ?thesis
    proof (cases "fw_layer_covers_methods F")
      case True
      then show ?thesis using f No_method finish_auth [of rq A "in_headers rq" "\<lambda>_. ok (fw_not_allowed F allowed)" w r w']
        by (auto simp: serve_protected_def finish_ok)
    next
      case False
      then show ?thesis using f No_method by (auto simp: serve_protected_def finish_ok)
    qed
  next
    case (Rejected resp)
    then show ?thesis using f finish_auth [of rq A "in_headers rq" "\<lambda>_. ok resp" w r w']
      by (auto simp: serve_protected_def finish_ok)
  next
    case (To c)
    then show ?thesis using f finish_auth [of rq A "in_headers rq" "v1_handler A c" w r w']
      by (auto simp: serve_protected_def)
  qed
qed

section \<open>Only transactions of the system\<close>

lemma protected_obeys [obeys_intro]: "obeys (any_step (ad_ushow A)) (serve_protected A F rq)"
  unfolding serve_protected_def by (auto split: dispatched.split intro!: obeys_intro v1_obeys)

lemma serve_request_obeys: "obeys (any_step (ad_ushow A)) (serve_request A S F rq)"
  unfolding serve_request_def answer_request_def
  by (auto split: dispatched.split intro!: obeys_intro router_obeys)

text \<open>C14. Whatever bytes are sent to the server, by anybody, under any faults and any interleaving, the
  database only moves by transactions of the system: a raw request to a reachable database leaves a
  reachable one, in which nothing that was stored is lost.
\<close>

theorem raw_requests_commit_only_system_steps:
  assumes "env_ok (any_step (ad_ushow A)) w" "run (ad_ushow A) as empty_db (w_db w)"
    and "serve_request A S F rq w = (r, w')"
  shows "\<exists>bs. run (ad_ushow A) bs empty_db (w_db w') \<and> extends (w_db w) (w_db w')"
  using obeys_reachable [OF serve_request_obeys assms] .

section \<open>Witnesses\<close>

text \<open>A framework and a client: segments in hexadecimal, UUIDs in decimal, and of the JSON bodies one
  that the framework accepts; every other body it refuses.\<close>

definition char_bytes :: "bytes \<Rightarrow> string" where
  "char_bytes bs = map (\<lambda>b. char_of (unat b)) bs"

definition framework0 :: framework where
  "framework0 = \<lparr>fw_decode = \<lambda>s. (case toy_decode s of Inr bs \<Rightarrow> Some (char_bytes bs) | Inl e \<Rightarrow> None),
     fw_uuid = \<lambda>s. map_option of_nat (parse_digits s), fw_json = \<lambda>hs b. if b = [1] then Some (message_body ''pay.ok'' JNull) else None,
     fw_bad_path = \<lambda>_. respond_with 400 Empty_body, fw_bad_query = \<lambda>_. respond_with 400 Empty_body,
     fw_bad_json = \<lambda>_ _. respond_with 422 Empty_body, fw_not_found = respond_with 404 Empty_body,
     fw_not_allowed = \<lambda>_. respond_with 405 Empty_body, fw_layer_covers_methods = True\<rparr>"

definition client0 :: client where
  "client0 = \<lparr>cl_encode = \<lambda>s. toy_encode (as_bytes s), cl_uuid = \<lambda>u. show_nat (unat u),
     cl_body = \<lambda>j. if j = message_body ''pay.ok'' JNull then [1] else [0], cl_headers = headers_k\<rparr>"

lemma char_bytes_as_bytes: "char_bytes (as_bytes s) = s"
  by (induction s) (auto simp: char_bytes_def as_bytes_def unat_of_char_u8)

lemma as_bytes_empty [simp]: "as_bytes s = [] \<longleftrightarrow> s = []"
  by (simp add: as_bytes_def)

lemma toy_encode_segment: "CHR ''/'' \<notin> set (toy_encode b)"
proof -
  have "nibble_char n \<noteq> CHR ''/''" if "n < 16" for n using nibble_char_neq [OF that, of "CHR ''/''"] by simp
  moreover have "unat (w :: 8 word) div 16 < 16" "unat w mod 16 < 16" for w
    using unsigned_less [of w, where 'a = nat] by (simp_all add: less_mult_imp_div_less)
  ultimately have "CHR ''/'' \<noteq> nibble_char (unat (w :: 8 word) div 16)" "CHR ''/'' \<noteq> nibble_char (unat w mod 16)" for w
    by metis+
  then show ?thesis by (induction b) (simp_all add: toy_encode_def)
qed

lemma toy_encode_nonempty: "b \<noteq> [] \<Longrightarrow> toy_encode b \<noteq> []"
  by (cases b) (simp_all add: toy_encode_def)

lemma client0_ok: "s \<noteq> '''' \<Longrightarrow> segment_ok framework0 client0 s" "body_ok framework0 client0 (message_body ''pay.ok'' JNull)"
  by (simp_all add: segment_ok_def body_ok_def framework0_def client0_def toy_encode_segment toy_decode_encode
      char_bytes_as_bytes toy_encode_nonempty)

theorem operations_are_reached_witness:
  "serve_request api0 state0 framework0 (request_for client0 (GetConsumer ''acme'')) world_k =
     router api0 state0 headers_k (V1 (GetConsumer ''acme'')) world_k \<and>
   serve_request api0 state0 framework0 (request_for client0 (CreateMessage ''pay.ok'' JNull)) world_k =
     router api0 state0 headers_k (V1 (CreateMessage ''pay.ok'' JNull)) world_k"
  using operations_are_reached [of framework0 client0 "GetConsumer ''acme''" api0 state0]
    operations_are_reached [of framework0 client0 "CreateMessage ''pay.ok'' JNull" api0 state0] client0_ok
  by (simp add: client0_def)

definition raw_post :: request where
  "raw_post = request_for client0 (CreateMessage ''pay.ok'' JNull)"

lemma raw_posted: "serve_request api0 state0 framework0 raw_post world_k = posted"
  unfolding raw_post_def posted_def using served_by_its_handler [of framework0 client0 "CreateMessage ''pay.ok'' JNull" api0 state0] client0_ok(2)
  by (simp add: client0_def)

theorem raw_requests_need_a_key_witness:
  "\<exists>k. k \<in> set (t_api_keys (seen world_k)) \<and> ak_key_hash k = hash_key api0 ''key''"
proof -
  obtain resp where p: "posted = (Inr (Some resp), snd posted)" "rs_status resp = 201" using posted_201 by blast
  have path: "starts_with (in_path raw_post) ''/v1/''" by (simp add: raw_post_def json_request_def starts_with_def)
  from raw_requests_need_a_key [OF trans [OF raw_posted p(1)] path] p(2) show ?thesis
    by (auto simp: respond_with_def bodiless_def framework0_def raw_post_def json_request_def client0_def)
qed

theorem raw_requests_commit_only_system_steps_witness: "\<exists>bs. run ushow0 bs empty_db (w_db (snd posted))"
proof -
  have "env_ok (any_step (ad_ushow api0)) world_k" by (simp add: world_k_def)
  moreover have "run (ad_ushow api0) [Manage, Manage] empty_db (w_db world_k)" using run_k by simp
  ultimately show ?thesis
    using raw_requests_commit_only_system_steps [of api0 world_k _ state0 framework0 raw_post "fst posted" "snd posted"]
    by (auto simp: raw_posted)
qed

end
