(* ===== verification/Shutdown.thy ===== *)
theory Shutdown
  imports Prelude
begin

text \<open>
  Graceful shutdown. The signal task of \<open>main.rs\<close> sends \<open>true\<close> on a \<open>watch\<close> channel; the
  server (\<open>shutdown_when\<close>), the listener (\<open>listen_loop\<close>) and the workers (the waits of
  \<open>run_worker\<close>) look at the value with \<open>borrow\<close> and wait for a change with \<open>changed\<close>, among
  other things, in a \<open>select!\<close>. A receiver remembers the version it has seen: \<open>changed\<close> is ready
  when the version is another one, and fails when the sender is gone. Each loop is a transition
  function over its places; the environment decides which of the awaited things happens. The
  locale has the discipline the loops share (a wait is entered only after the flag was seen down,
  and a wake-up is followed by another look) and shows what it gives: the signal is never
  missed, whenever it comes, and the loop ends within a fixed number of its own steps.
\<close>

section \<open>The watch channel\<close>

record watch =
  wt_value :: bool
  wt_version :: nat
  wt_closed :: bool

definition watch_channel :: watch where
  "watch_channel = \<lparr>wt_value = False, wt_version = 0, wt_closed = False\<rparr>"

text \<open>\<open>tx.send(true)\<close>.\<close>

definition send_true :: "watch \<Rightarrow> watch" where
  "send_true c = c\<lparr>wt_value := True, wt_version := Suc (wt_version c)\<rparr>"

text \<open>
  \<open>wait_for_signal\<close>, the \<open>select!\<close> the signal task waits in before it sends: the number of
  signals the process got when it resolves. The result of \<open>ctrl_c()\<close> is dropped, so that a handler
  that cannot be installed counts as the signal; \<open>SIGTERM\<close> counts only when its handler is installed.
\<close>

datatype os_signal = Interrupt | Terminate

fun wait_for_signal :: "bool \<Rightarrow> bool \<Rightarrow> os_signal list \<Rightarrow> nat option" where
  "wait_for_signal ctrl_c_installed terminate_installed [] = (if ctrl_c_installed then None else Some 0)"
| "wait_for_signal ctrl_c_installed terminate_installed (s # signals) =
     (if \<not> ctrl_c_installed then Some 0
      else if s = Interrupt \<or> terminate_installed then Some 1
      else map_option Suc (wait_for_signal ctrl_c_installed terminate_installed signals))"

lemma wait_for_signal_resolves:
  "wait_for_signal True True signals = (if signals = [] then None else Some 1)"
  "wait_for_signal False t signals = Some 0"
  "wait_for_signal True t signals = None \<longleftrightarrow> Interrupt \<notin> set signals \<and> (t \<longrightarrow> signals = [])"
proof -
  show "wait_for_signal True t signals = None \<longleftrightarrow> Interrupt \<notin> set signals \<and> (t \<longrightarrow> signals = [])"
    by (induction signals) auto
qed (cases signals; simp)+

text \<open>What a task can notice: the value, a change, the loss of the sender, or something of its own.\<close>

datatype 'e observation = Saw bool | Changed | Disconnected | Happened 'e

record 'pc task =
  tk_channel :: watch
  tk_seen :: nat
  tk_pc :: 'pc

datatype 'e label = Task "'e observation" | Send | Close

inductive task_step :: "('pc \<Rightarrow> 'e observation \<Rightarrow> 'pc option) \<Rightarrow> 'e label \<Rightarrow> 'pc task \<Rightarrow> 'pc task \<Rightarrow> bool" for nxt where
  borrow: "nxt (tk_pc s) (Saw (wt_value (tk_channel s))) = Some pc \<Longrightarrow>
    task_step nxt (Task (Saw (wt_value (tk_channel s)))) s (s\<lparr>tk_pc := pc\<rparr>)"
| changed: "tk_seen s \<noteq> wt_version (tk_channel s) \<Longrightarrow> nxt (tk_pc s) Changed = Some pc \<Longrightarrow>
    task_step nxt (Task Changed) s (s\<lparr>tk_seen := wt_version (tk_channel s), tk_pc := pc\<rparr>)"
| disconnected: "tk_seen s = wt_version (tk_channel s) \<Longrightarrow> wt_closed (tk_channel s) \<Longrightarrow>
    nxt (tk_pc s) Disconnected = Some pc \<Longrightarrow> task_step nxt (Task Disconnected) s (s\<lparr>tk_pc := pc\<rparr>)"
| happened: "nxt (tk_pc s) (Happened e) = Some pc \<Longrightarrow> task_step nxt (Task (Happened e)) s (s\<lparr>tk_pc := pc\<rparr>)"
| send: "\<not> wt_closed (tk_channel s) \<Longrightarrow> task_step nxt Send s (s\<lparr>tk_channel := send_true (tk_channel s)\<rparr>)"
| close: "task_step nxt Close s (s\<lparr>tk_channel := (tk_channel s)\<lparr>wt_closed := True\<rparr>\<rparr>)"

inductive task_run :: "('pc \<Rightarrow> 'e observation \<Rightarrow> 'pc option) \<Rightarrow> 'e label list \<Rightarrow> 'pc task \<Rightarrow> 'pc task \<Rightarrow> bool" for nxt where
  nil: "task_run nxt [] s s"
| snoc: "task_run nxt ls s s1 \<Longrightarrow> task_step nxt l s1 s' \<Longrightarrow> task_run nxt (ls @ [l]) s s'"

lemma run_cons:
  "task_run nxt ls s1 s' \<Longrightarrow> task_step nxt l s s1 \<Longrightarrow> task_run nxt (l # ls) s s'"
proof (induction rule: task_run.induct)
  case (nil s1)
  then show ?case using task_run.snoc [OF task_run.nil [of nxt s]] by simp
next
  case (snoc ls s1 s2 l' s')
  then show ?case using task_run.snoc [of nxt "l # ls" s s2 l' s'] by simp
qed

text \<open>The same steps as a function: what a label does, when it is possible.\<close>

fun perform :: "('pc \<Rightarrow> 'e observation \<Rightarrow> 'pc option) \<Rightarrow> 'e label \<Rightarrow> 'pc task \<Rightarrow> 'pc task option" where
  "perform nxt (Task (Saw v)) s = (if v = wt_value (tk_channel s)
     then map_option (\<lambda>pc. s\<lparr>tk_pc := pc\<rparr>) (nxt (tk_pc s) (Saw v)) else None)"
| "perform nxt (Task Changed) s = (if tk_seen s \<noteq> wt_version (tk_channel s)
     then map_option (\<lambda>pc. s\<lparr>tk_seen := wt_version (tk_channel s), tk_pc := pc\<rparr>) (nxt (tk_pc s) Changed) else None)"
| "perform nxt (Task Disconnected) s = (if tk_seen s = wt_version (tk_channel s) \<and> wt_closed (tk_channel s)
     then map_option (\<lambda>pc. s\<lparr>tk_pc := pc\<rparr>) (nxt (tk_pc s) Disconnected) else None)"
| "perform nxt (Task (Happened e)) s = map_option (\<lambda>pc. s\<lparr>tk_pc := pc\<rparr>) (nxt (tk_pc s) (Happened e))"
| "perform nxt Send s = (if wt_closed (tk_channel s) then None else Some (s\<lparr>tk_channel := send_true (tk_channel s)\<rparr>))"
| "perform nxt Close s = Some (s\<lparr>tk_channel := (tk_channel s)\<lparr>wt_closed := True\<rparr>\<rparr>)"

lemma perform_iff: "perform nxt l s = Some s' \<longleftrightarrow> task_step nxt l s s'"
proof
  show "perform nxt l s = Some s' \<Longrightarrow> task_step nxt l s s'"
    by (cases "(nxt, l, s)" rule: perform.cases) (auto intro: task_step.intros split: if_splits)
  show "task_step nxt l s s' \<Longrightarrow> perform nxt l s = Some s'"
    by (induction rule: task_step.induct) auto
qed

fun perform_all :: "('pc \<Rightarrow> 'e observation \<Rightarrow> 'pc option) \<Rightarrow> 'e label list \<Rightarrow> 'pc task \<Rightarrow> 'pc task option" where
  "perform_all nxt [] s = Some s"
| "perform_all nxt (l # ls) s = Option.bind (perform nxt l s) (perform_all nxt ls)"

lemma perform_all_run: "perform_all nxt ls s = Some s' \<Longrightarrow> task_run nxt ls s s'"
  by (induction ls arbitrary: s) (auto simp: perform_iff bind_eq_Some_conv intro: task_run.nil run_cons)

text \<open>A receiver cloned from the channel starts with the present version as seen.\<close>

definition fresh_task :: "watch \<Rightarrow> 'pc \<Rightarrow> 'pc task" where
  "fresh_task c pc = \<lparr>tk_channel = c, tk_seen = wt_version c, tk_pc = pc\<rparr>"

text \<open>The steps a task makes itself, apart from those that may come any number of times.\<close>

fun acts :: "('e \<Rightarrow> bool) \<Rightarrow> 'e label \<Rightarrow> bool" where
  "acts noise (Task (Happened e)) = (\<not> noise e)"
| "acts noise (Task x) = True"
| "acts noise l = False"

text \<open>A task is not stuck: it can look at the flag and sees it up, it has the change to receive, or
  it is in a call of its own (\<open>answer\<close>) whose outcome it goes on with. It does not need a timer or
  a notification to go on.\<close>

definition can_go_on :: "('pc \<Rightarrow> 'e observation \<Rightarrow> 'pc option) \<Rightarrow> ('e \<Rightarrow> bool) \<Rightarrow> 'pc task \<Rightarrow> bool" where
  "can_go_on nxt answer s \<longleftrightarrow> (\<exists>s'. task_step nxt (Task (Saw True)) s s') \<or> (\<exists>s'. task_step nxt (Task Changed) s s') \<or>
     (\<exists>e s'. answer e \<and> task_step nxt (Task (Happened e)) s s')"

section \<open>Loops that heed the signal\<close>

locale heedful =
  fixes nxt :: "'pc \<Rightarrow> 'e observation \<Rightarrow> 'pc option" and start :: 'pc and stopped :: "'pc \<Rightarrow> bool"
    and armed :: "'pc \<Rightarrow> bool" and noise :: "'e \<Rightarrow> bool" and answer :: "'e \<Rightarrow> bool"
    and rank :: "'pc \<Rightarrow> nat"
  assumes start_unarmed: "\<not> armed start"
    and armed_by_look: "nxt pc x = Some pc' \<Longrightarrow> armed pc' \<Longrightarrow> x = Saw False \<or> (\<exists>e. x = Happened e \<and> armed pc)"
    and waits_armed: "nxt pc Changed \<noteq> None \<Longrightarrow> armed pc"
    and rank_down: "nxt pc x = Some pc' \<Longrightarrow> x \<noteq> Saw False \<Longrightarrow> (\<And>e. x = Happened e \<Longrightarrow> \<not> noise e) \<Longrightarrow> rank pc' < rank pc"
    and rank_noise: "nxt pc (Happened e) = Some pc' \<Longrightarrow> rank pc' \<le> rank pc"
    and alive: "\<not> stopped pc \<Longrightarrow> nxt pc (Saw True) \<noteq> None \<or> nxt pc Changed \<noteq> None \<or>
      (\<exists>e. answer e \<and> nxt pc (Happened e) \<noteq> None)"
    and rank_stopped: "rank pc = 0 \<Longrightarrow> stopped pc"
begin

definition ready :: "'pc task \<Rightarrow> bool" where
  "ready s \<longleftrightarrow> tk_seen s \<le> wt_version (tk_channel s) \<and>
     (armed (tk_pc s) \<and> wt_value (tk_channel s) \<longrightarrow> tk_seen s < wt_version (tk_channel s))"

lemma ready_start: "ready (fresh_task c start)"
  by (simp add: ready_def fresh_task_def start_unarmed)

lemma ready_step: "task_step nxt l s s' \<Longrightarrow> ready s \<Longrightarrow> ready s'"
  by (induction rule: task_step.induct) (auto simp: ready_def send_true_def dest: armed_by_look)

lemma ready_run: "task_run nxt ls s s' \<Longrightarrow> ready s \<Longrightarrow> ready s'"
  by (induction rule: task_run.induct) (auto intro: ready_step)

lemma never_blocked:
  assumes "ready s" "wt_value (tk_channel s)" "\<not> stopped (tk_pc s)"
  shows "can_go_on nxt answer s"
  using alive [OF assms(3)]
proof (elim disjE exE conjE)
  assume "nxt (tk_pc s) (Saw True) \<noteq> None"
  then show ?thesis using task_step.borrow [of nxt s] assms(2) by (auto simp: can_go_on_def)
next
  assume c: "nxt (tk_pc s) Changed \<noteq> None"
  then have "tk_seen s \<noteq> wt_version (tk_channel s)" using waits_armed [OF c] assms(1,2) by (simp add: ready_def)
  then show ?thesis using c task_step.changed [of s nxt] by (auto simp: can_go_on_def)
next
  fix e
  assume e: "answer e" "nxt (tk_pc s) (Happened e) \<noteq> None"
  from e(2) obtain pc where "nxt (tk_pc s) (Happened e) = Some pc" by auto
  from task_step.happened [of nxt s e, OF this] e(1) show ?thesis unfolding can_go_on_def by blast
qed

lemma value_stays: "task_step nxt l s s' \<Longrightarrow> wt_value (tk_channel s) \<Longrightarrow> wt_value (tk_channel s')"
  by (induction rule: task_step.induct) (auto simp: send_true_def)

lemma step_rank:
  assumes "task_step nxt l s s'" "wt_value (tk_channel s)"
  shows "rank (tk_pc s') + (if acts noise l then 1 else 0) \<le> rank (tk_pc s)"
  using assms
proof (induction rule: task_step.induct)
  case (borrow s pc)
  then show ?case using rank_down [OF borrow(1)] by simp
next
  case (changed s pc)
  then show ?case using rank_down [OF changed(2)] by simp
next
  case (disconnected s pc)
  then show ?case using rank_down [OF disconnected(3)] by simp
next
  case (happened s e pc)
  then show ?case using rank_down [OF happened(1)] rank_noise [OF happened(1)] by (cases "noise e") auto
qed auto

lemma run_rank:
  "task_run nxt ls s s' \<Longrightarrow> wt_value (tk_channel s) \<Longrightarrow>
   wt_value (tk_channel s') \<and> rank (tk_pc s') + length (filter (acts noise) ls) \<le> rank (tk_pc s)"
proof (induction rule: task_run.induct)
  case (snoc ls s s1 l s')
  then show ?case using step_rank [OF snoc.hyps(2)] value_stays [OF snoc.hyps(2)] by (auto split: if_splits)
qed simp

text \<open>Once the flag is up, whatever happened before and whatever happens after, the loop makes at
  most as many steps as the rank says, and is either at its end or able to go on.\<close>

lemma stops_in_time:
  assumes "task_run nxt ls (fresh_task c start) s" "wt_value (tk_channel s)" "task_run nxt ls' s s'"
  shows "rank (tk_pc s') + length (filter (acts noise) ls') \<le> rank (tk_pc s)"
    and "\<not> stopped (tk_pc s') \<Longrightarrow> can_go_on nxt answer s'"
  using run_rank [OF assms(3,2)] never_blocked ready_run [OF assms(3)] ready_run [OF assms(1) ready_start] by auto

end

section \<open>The server's shutdown future\<close>

datatype server_pc = S_Check | S_Wait | S_Done

text \<open>\<open>while !*rx.borrow() { if rx.changed().await.is_err() { break; } }\<close>\<close>

fun shutdown_when :: "server_pc \<Rightarrow> unit observation \<Rightarrow> server_pc option" where
  "shutdown_when S_Check (Saw v) = Some (if v then S_Done else S_Wait)"
| "shutdown_when S_Wait Changed = Some S_Check"
| "shutdown_when S_Wait Disconnected = Some S_Done"
| "shutdown_when _ _ = None"

fun server_rank :: "server_pc \<Rightarrow> nat" where
  "server_rank S_Done = 0"
| "server_rank S_Check = 1"
| "server_rank S_Wait = 2"

interpretation server: heedful shutdown_when S_Check "\<lambda>pc. pc = S_Done" "\<lambda>pc. pc = S_Wait"
  "\<lambda>_. False" "\<lambda>_. False" server_rank
proof (unfold_locales, goal_cases)
  case (2 pc x pc') then show ?case by (cases "(pc, x)" rule: shutdown_when.cases) (auto split: if_splits)
next
  case (3 pc) then show ?case by (cases pc) auto
next
  case (4 pc x pc') then show ?case by (cases "(pc, x)" rule: shutdown_when.cases) (auto split: if_splits)
next
  case (5 pc e pc') then show ?case by (cases pc) auto
next
  case (6 pc) then show ?case by (cases pc) auto
next
  case (7 pc) then show ?case by (cases pc) auto
qed auto

section \<open>The listener\<close>

datatype listener_pc = L_Top | L_Connecting | L_Subscribing | L_Retry_wait | L_Receiving | L_Woken | L_Returned

datatype listener_event = Connected | Connect_failed | Subscribed | Listen_failed | Slept | Received | Receive_failed

text \<open>
  \<open>listen_loop\<close>: \<open>L_Top\<close> is the head of the outer loop, \<open>L_Retry_wait\<close> the \<open>select!\<close> of a second
  after a failed connect or \<open>LISTEN\<close>, \<open>L_Receiving\<close> the \<open>select!\<close> of the inner loop and
  \<open>L_Woken\<close> the look at the flag in its second arm. The result of \<open>changed\<close> is ignored, so the
  loss of the sender is taken like a change.
\<close>

fun listen_loop :: "listener_pc \<Rightarrow> listener_event observation \<Rightarrow> listener_pc option" where
  "listen_loop L_Top (Saw v) = Some (if v then L_Returned else L_Connecting)"
| "listen_loop L_Connecting (Happened Connected) = Some L_Subscribing"
| "listen_loop L_Connecting (Happened Connect_failed) = Some L_Retry_wait"
| "listen_loop L_Subscribing (Happened Subscribed) = Some L_Receiving"
| "listen_loop L_Subscribing (Happened Listen_failed) = Some L_Retry_wait"
| "listen_loop L_Retry_wait (Happened Slept) = Some L_Top"
| "listen_loop L_Retry_wait Changed = Some L_Top"
| "listen_loop L_Retry_wait Disconnected = Some L_Top"
| "listen_loop L_Receiving (Happened Received) = Some L_Receiving"
| "listen_loop L_Receiving (Happened Receive_failed) = Some L_Top"
| "listen_loop L_Receiving Changed = Some L_Woken"
| "listen_loop L_Receiving Disconnected = Some L_Woken"
| "listen_loop L_Woken (Saw v) = Some (if v then L_Returned else L_Receiving)"
| "listen_loop _ _ = None"

text \<open>\<open>Ok(_) => wake.notify_waiters()\<close>: the pulses a run of the listener gives the idle workers.\<close>

fun wake_pulses :: "listener_event label list \<Rightarrow> nat" where
  "wake_pulses [] = 0"
| "wake_pulses (Task (Happened Received) # ls) = Suc (wake_pulses ls)"
| "wake_pulses (l # ls) = wake_pulses ls"

fun listener_waits :: "listener_pc \<Rightarrow> bool" where
  "listener_waits L_Connecting = True"
| "listener_waits L_Subscribing = True"
| "listener_waits L_Retry_wait = True"
| "listener_waits L_Receiving = True"
| "listener_waits _ = False"

fun listener_rank :: "listener_pc \<Rightarrow> nat" where
  "listener_rank L_Returned = 0"
| "listener_rank L_Top = 1"
| "listener_rank L_Woken = 1"
| "listener_rank L_Retry_wait = 2"
| "listener_rank L_Receiving = 2"
| "listener_rank L_Subscribing = 3"
| "listener_rank L_Connecting = 4"

definition listener_answer :: "listener_event \<Rightarrow> bool" where
  "listener_answer e \<longleftrightarrow> e \<in> {Connected, Connect_failed, Subscribed, Listen_failed}"

interpretation listener: heedful listen_loop L_Top "\<lambda>pc. pc = L_Returned" listener_waits
  "\<lambda>e. e = Received" listener_answer listener_rank
proof (unfold_locales, goal_cases)
  case (2 pc x pc') then show ?case by (cases "(pc, x)" rule: listen_loop.cases) (auto split: if_splits)
next
  case (3 pc) then show ?case by (cases pc) auto
next
  case (4 pc x pc') then show ?case by (cases "(pc, x)" rule: listen_loop.cases) (auto split: if_splits)
next
  case (5 pc e pc') then show ?case by (cases "(pc, Happened e)" rule: listen_loop.cases) auto
next
  case (6 pc) then show ?case by (cases pc) (auto simp: listener_answer_def)
next
  case (7 pc) then show ?case by (cases pc) auto
qed auto

section \<open>The control of a worker\<close>

datatype worker_pc = W_Top | W_Claiming | W_Error_wait | W_Idle | W_Batch nat | W_Processing nat | W_Broke

datatype worker_event = Claimed nat | Claim_failed | Poll_elapsed | Wake_notified | Processed

text \<open>
  The control of \<open>run_worker\<close>, with \<open>sleep_or_shutdown\<close> (\<open>W_Error_wait\<close>) and the idle
  \<open>select!\<close> (\<open>W_Idle\<close>). \<open>W_Batch n\<close> is the head of the \<open>for\<close> loop with \<open>n + 1\<close> claimed rows
  left; after the last one, or when the flag is seen up, the outer loop goes on. \<open>W_Broke\<close> is the
  end of the task.
\<close>

fun run_worker_control :: "worker_pc \<Rightarrow> worker_event observation \<Rightarrow> worker_pc option" where
  "run_worker_control W_Top (Saw v) = Some (if v then W_Broke else W_Claiming)"
| "run_worker_control W_Claiming (Happened Claim_failed) = Some W_Error_wait"
| "run_worker_control W_Claiming (Happened (Claimed 0)) = Some W_Idle"
| "run_worker_control W_Claiming (Happened (Claimed (Suc n))) = Some (W_Batch n)"
| "run_worker_control W_Error_wait (Happened Poll_elapsed) = Some W_Top"
| "run_worker_control W_Error_wait Changed = Some W_Top"
| "run_worker_control W_Error_wait Disconnected = Some W_Top"
| "run_worker_control W_Idle (Happened Wake_notified) = Some W_Top"
| "run_worker_control W_Idle (Happened Poll_elapsed) = Some W_Top"
| "run_worker_control W_Idle Changed = Some W_Top"
| "run_worker_control W_Idle Disconnected = Some W_Top"
| "run_worker_control (W_Batch n) (Saw v) = Some (if v then W_Top else W_Processing n)"
| "run_worker_control (W_Processing (Suc n)) (Happened Processed) = Some (W_Batch n)"
| "run_worker_control (W_Processing 0) (Happened Processed) = Some W_Top"
| "run_worker_control _ _ = None"

fun worker_waits :: "worker_pc \<Rightarrow> bool" where
  "worker_waits W_Claiming = True"
| "worker_waits W_Error_wait = True"
| "worker_waits W_Idle = True"
| "worker_waits _ = False"

fun worker_rank :: "worker_pc \<Rightarrow> nat" where
  "worker_rank W_Broke = 0"
| "worker_rank W_Top = 1"
| "worker_rank W_Idle = 2"
| "worker_rank W_Error_wait = 2"
| "worker_rank (W_Batch n) = 2"
| "worker_rank (W_Processing n) = 3"
| "worker_rank W_Claiming = 3"

fun worker_answer :: "worker_event \<Rightarrow> bool" where
  "worker_answer (Claimed n) = True"
| "worker_answer Claim_failed = True"
| "worker_answer Processed = True"
| "worker_answer _ = False"

lemma processing_goes_on: "run_worker_control (W_Processing n) (Happened Processed) \<noteq> None"
  by (cases n) auto

interpretation worker: heedful run_worker_control W_Top "\<lambda>pc. pc = W_Broke" worker_waits
  "\<lambda>_. False" worker_answer worker_rank
proof (unfold_locales, goal_cases)
  case (2 pc x pc') then show ?case by (cases "(pc, x)" rule: run_worker_control.cases) (auto split: if_splits)
next
  case (3 pc) then show ?case by (cases pc) auto
next
  case (4 pc x pc') then show ?case by (cases "(pc, x)" rule: run_worker_control.cases) (auto split: if_splits)
next
  case (5 pc e pc') then show ?case by (cases "(pc, Happened e)" rule: run_worker_control.cases) auto
next
  case (6 pc)
  then show ?case
  proof (cases pc)
    case W_Claiming
    then show ?thesis by (intro disjI2 exI [of _ Claim_failed]) simp
  next
    case (W_Processing n)
    then show ?thesis using processing_goes_on by (intro disjI2 exI [of _ Processed]) simp
  qed auto
next
  case (7 pc) then show ?case by (cases pc) auto
qed auto

section \<open>What the signal brings about\<close>

fun processing :: "worker_pc \<Rightarrow> nat" where
  "processing (W_Processing n) = 1"
| "processing _ = 0"

lemma processed_step:
  assumes "task_step run_worker_control l s s'" "wt_value (tk_channel s)"
  shows "processing (tk_pc s') + (if l = Task (Happened Processed) then 1 else 0) \<le> processing (tk_pc s)"
  using assms
proof (induction rule: task_step.induct)
  case (borrow s pc)
  then show ?case by (cases "(tk_pc s, Saw True :: worker_event observation)" rule: run_worker_control.cases) auto
next
  case (changed s pc)
  then show ?case by (cases "tk_pc s") auto
next
  case (disconnected s pc)
  then show ?case by (cases "tk_pc s") auto
next
  case (happened s e pc)
  then show ?case by (cases "(tk_pc s, Happened e)" rule: run_worker_control.cases) auto
qed auto

lemma processed_run:
  "task_run run_worker_control ls s s' \<Longrightarrow> wt_value (tk_channel s) \<Longrightarrow>
   processing (tk_pc s') + count_list ls (Task (Happened Processed)) \<le> processing (tk_pc s)"
proof (induction rule: task_run.induct)
  case (snoc ls s s1 l s')
  then show ?case using processed_step [OF snoc.hyps(2)] worker.run_rank [OF snoc.hyps(1)] by (auto split: if_splits)
qed simp

lemma at_most_one_processing: "processing pc \<le> 1"
  by (cases pc) auto

lemma worker_rank_3: "worker_rank pc \<le> 3"
  by (cases pc) auto

lemma server_rank_2: "server_rank pc \<le> 2"
  by (cases pc) auto

lemma listener_rank_4: "listener_rank pc \<le> 4"
  by (cases pc) auto

text \<open>C22. A worker never misses the shutdown signal. Let a worker run from its start in any way, with
  the signal sent at any moment, and let it run on in any way after the flag is up. From then on it
  takes at most three steps of its own and finishes at most one more delivery, and as long as it
  has not ended it can go on without the poll timer or a notification: it sees the flag, has the
  change to receive, or is in a claim or a delivery whose outcome it goes on with.
\<close>

theorem worker_heeds_shutdown:
  assumes "task_run run_worker_control ls (fresh_task c W_Top) s" "wt_value (tk_channel s)"
    and "task_run run_worker_control ls' s s'"
  shows "length (filter (acts (\<lambda>_. False)) ls') \<le> 3 \<and> count_list ls' (Task (Happened Processed)) \<le> 1 \<and>
    (tk_pc s' = W_Broke \<or> can_go_on run_worker_control worker_answer s')"
proof (intro conjI)
  show "length (filter (acts (\<lambda>_. False)) ls') \<le> 3"
    using worker.stops_in_time(1) [OF assms] worker_rank_3 [of "tk_pc s"] by linarith
  show "count_list ls' (Task (Happened Processed)) \<le> 1"
    using processed_run [OF assms(3,2)] at_most_one_processing [of "tk_pc s"] by linarith
  show "tk_pc s' = W_Broke \<or> can_go_on run_worker_control worker_answer s'"
    using worker.stops_in_time(2) [OF assms] by blast
qed

text \<open>The signal comes while the worker is in the first of two deliveries: it finishes that one,
  sees the flag at the head of the batch and again at the head of the loop, and ends.\<close>

theorem worker_heeds_shutdown_witness:
  "perform_all run_worker_control [Task (Saw False), Task (Happened (Claimed 2)), Task (Saw False), Send]
     (fresh_task watch_channel W_Top) =
     Some \<lparr>tk_channel = \<lparr>wt_value = True, wt_version = 1, wt_closed = False\<rparr>, tk_seen = 0, tk_pc = W_Processing 1\<rparr> \<and>
   perform_all run_worker_control [Task (Happened Processed), Task (Saw True), Close, Task (Saw True)]
     \<lparr>tk_channel = \<lparr>wt_value = True, wt_version = 1, wt_closed = False\<rparr>, tk_seen = 0, tk_pc = W_Processing 1\<rparr> =
     Some \<lparr>tk_channel = \<lparr>wt_value = True, wt_version = 1, wt_closed = True\<rparr>, tk_seen = 0, tk_pc = W_Broke\<rparr> \<and>
   count_list [Task (Happened Processed), Task (Saw True), Close, Task (Saw True)] (Task (Happened Processed)) \<le> 1"
proof -
  have before: "perform_all run_worker_control [Task (Saw False), Task (Happened (Claimed 2)), Task (Saw False), Send]
     (fresh_task watch_channel W_Top) =
     Some \<lparr>tk_channel = \<lparr>wt_value = True, wt_version = 1, wt_closed = False\<rparr>, tk_seen = 0, tk_pc = W_Processing 1\<rparr>"
    by (simp add: fresh_task_def watch_channel_def send_true_def numeral_2_eq_2)
  have after: "perform_all run_worker_control [Task (Happened Processed), Task (Saw True), Close, Task (Saw True)]
     \<lparr>tk_channel = \<lparr>wt_value = True, wt_version = 1, wt_closed = False\<rparr>, tk_seen = 0, tk_pc = W_Processing 1\<rparr> =
     Some \<lparr>tk_channel = \<lparr>wt_value = True, wt_version = 1, wt_closed = True\<rparr>, tk_seen = 0, tk_pc = W_Broke\<rparr>"
    by (simp add: One_nat_def)
  from worker_heeds_shutdown [OF perform_all_run [OF before] _ perform_all_run [OF after]] before after
  show ?thesis by simp
qed

text \<open>C23. The listener and the server's shutdown future never miss the signal either. After the flag
  is up, in any run the listener takes at most four steps besides the notifications it still passes
  on (it may be connecting, then subscribing, before it next waits), the server's future at most
  two; and each is at its end or can go on without the retry timer or a notification.
\<close>

theorem listener_and_server_heed_shutdown:
  assumes "task_run listen_loop ls (fresh_task c L_Top) s" "wt_value (tk_channel s)" "task_run listen_loop ls' s s'"
    and "task_run shutdown_when ks (fresh_task d S_Check) t" "wt_value (tk_channel t)" "task_run shutdown_when ks' t t'"
  shows "length (filter (acts (\<lambda>e. e = Received)) ls') \<le> 4 \<and>
    (tk_pc s' = L_Returned \<or> can_go_on listen_loop listener_answer s') \<and>
    length (filter (acts (\<lambda>_. False)) ks') \<le> 2 \<and>
    (tk_pc t' = S_Done \<or> (\<exists>l t''. l \<in> {Saw True, Changed} \<and> task_step shutdown_when (Task l) t' t''))"
proof (intro conjI)
  show "length (filter (acts (\<lambda>e. e = Received)) ls') \<le> 4"
    using listener.stops_in_time(1) [OF assms(1-3)] listener_rank_4 [of "tk_pc s"] by linarith
  show "tk_pc s' = L_Returned \<or> can_go_on listen_loop listener_answer s'"
    using listener.stops_in_time(2) [OF assms(1-3)] by blast
  show "length (filter (acts (\<lambda>_. False)) ks') \<le> 2"
    using server.stops_in_time(1) [OF assms(4-6)] server_rank_2 [of "tk_pc t"] by linarith
  show "tk_pc t' = S_Done \<or> (\<exists>l t''. l \<in> {Saw True, Changed} \<and> task_step shutdown_when (Task l) t' t'')"
    using server.stops_in_time(2) [OF assms(4-6)] by (auto simp: can_go_on_def)
qed

text \<open>The signal comes while the listener connects and while the server waits.\<close>

theorem listener_and_server_heed_shutdown_witness:
  "perform_all listen_loop [Task (Saw False), Send] (fresh_task watch_channel L_Top) =
     Some \<lparr>tk_channel = \<lparr>wt_value = True, wt_version = 1, wt_closed = False\<rparr>, tk_seen = 0, tk_pc = L_Connecting\<rparr> \<and>
   perform_all listen_loop [Task (Happened Connected), Task (Happened Subscribed), Task (Happened Received), Task Changed, Task (Saw True)]
     \<lparr>tk_channel = \<lparr>wt_value = True, wt_version = 1, wt_closed = False\<rparr>, tk_seen = 0, tk_pc = L_Connecting\<rparr> =
     Some \<lparr>tk_channel = \<lparr>wt_value = True, wt_version = 1, wt_closed = False\<rparr>, tk_seen = 1, tk_pc = L_Returned\<rparr> \<and>
   length (filter (acts (\<lambda>e. e = Received))
     [Task (Happened Connected), Task (Happened Subscribed), Task (Happened Received), Task Changed, Task (Saw True)]) \<le> 4"
proof -
  have before: "perform_all listen_loop [Task (Saw False), Send] (fresh_task watch_channel L_Top) =
     Some \<lparr>tk_channel = \<lparr>wt_value = True, wt_version = 1, wt_closed = False\<rparr>, tk_seen = 0, tk_pc = L_Connecting\<rparr>"
    by (simp add: fresh_task_def watch_channel_def send_true_def)
  have after: "perform_all listen_loop [Task (Happened Connected), Task (Happened Subscribed), Task (Happened Received), Task Changed, Task (Saw True)]
     \<lparr>tk_channel = \<lparr>wt_value = True, wt_version = 1, wt_closed = False\<rparr>, tk_seen = 0, tk_pc = L_Connecting\<rparr> =
     Some \<lparr>tk_channel = \<lparr>wt_value = True, wt_version = 1, wt_closed = False\<rparr>, tk_seen = 1, tk_pc = L_Returned\<rparr>"
    by simp
  have server_before: "perform_all shutdown_when [Task (Saw False), Send] (fresh_task watch_channel S_Check) =
     Some \<lparr>tk_channel = \<lparr>wt_value = True, wt_version = 1, wt_closed = False\<rparr>, tk_seen = 0, tk_pc = S_Wait\<rparr>"
    by (simp add: fresh_task_def watch_channel_def send_true_def)
  have server_after: "perform_all shutdown_when [Task Changed, Task (Saw True)]
     \<lparr>tk_channel = \<lparr>wt_value = True, wt_version = 1, wt_closed = False\<rparr>, tk_seen = 0, tk_pc = S_Wait\<rparr> =
     Some \<lparr>tk_channel = \<lparr>wt_value = True, wt_version = 1, wt_closed = False\<rparr>, tk_seen = 1, tk_pc = S_Done\<rparr>"
    by simp
  from listener_and_server_heed_shutdown [OF perform_all_run [OF before] _ perform_all_run [OF after]
      perform_all_run [OF server_before] _ perform_all_run [OF server_after]] before after
  show ?thesis by simp
qed

end
