(* ===== verification/Worker_Control.thy ===== *)
theory Worker_Control
  imports Dispatcher Shutdown
begin

text \<open>
  The two models of \<open>run_worker\<close> agree. \<open>Dispatcher\<close> has the loop with all it does to the
  database and to the receivers; \<open>Shutdown\<close> has its control, the places where it looks at the
  shutdown flag or waits. Here the loop is run once more with a log: the same program, in which
  every look at the flag, every claim, every processed delivery and every wait also notes what was
  observed. Without the log it is the loop of \<open>Dispatcher\<close>, result and world; and its log is a
  walk through the control.
\<close>

section \<open>Walks through a transition function\<close>

fun walk :: "('pc \<Rightarrow> 'e observation \<Rightarrow> 'pc option) \<Rightarrow> 'pc \<Rightarrow> 'e observation list \<Rightarrow> 'pc option" where
  "walk nxt pc [] = Some pc"
| "walk nxt pc (x # xs) = Option.bind (nxt pc x) (\<lambda>pc'. walk nxt pc' xs)"

lemma walk_append: "walk nxt pc (xs @ ys) = Option.bind (walk nxt pc xs) (\<lambda>pc'. walk nxt pc' ys)"
  by (induction xs arbitrary: pc) (auto split: bind_split)

section \<open>Programs with a log\<close>

type_synonym 'a logged = "world \<Rightarrow> worker_event observation list \<times> 'a core_result \<times> world"

text \<open>The flag is read, and the value that was read is noted.\<close>

definition look :: "(bool \<Rightarrow> 'a logged) \<Rightarrow> 'a logged" where
  "look k w = (let v = an_flag (answer_now w) in case k v (tick w) of (l, r) \<Rightarrow> (Saw v # l, r))"

text \<open>A program is run, what its result shows is noted, and the rest goes on with the result.\<close>

definition note_of :: "('a core_result \<Rightarrow> worker_event observation) \<Rightarrow> 'a io \<Rightarrow> ('a core_result \<Rightarrow> 'b logged) \<Rightarrow> 'b logged" where
  "note_of ev m k w = (case m w of (r, w1) \<Rightarrow> case k r w1 of (l, x) \<Rightarrow> (ev r # l, x))"

definition end_with :: "'a \<Rightarrow> 'a logged" where
  "end_with x w = ([], ok x w)"

definition await_logged :: "'a logged \<Rightarrow> ('a \<Rightarrow> 'b logged) \<Rightarrow> 'b logged" where
  "await_logged m k w = (case m w of
     (l, Inl e, w1) \<Rightarrow> (l, Inl e, w1)
   | (l, Inr x, w1) \<Rightarrow> (case k x w1 of (l', y) \<Rightarrow> (l @ l', y)))"

text \<open>A wait ends by one of its arms; \<open>arm\<close> says by which.\<close>

definition pause_logged :: "(world \<Rightarrow> worker_event observation) \<Rightarrow> 'a logged \<Rightarrow> 'a logged" where
  "pause_logged arm k w = (case k (tick w) of (l, x) \<Rightarrow> (arm w # l, x))"

section \<open>The worker loop with its log\<close>

fun process_batch_logged :: "deps \<Rightarrow> dispatcher_config \<Rightarrow> string \<Rightarrow> delivery list \<Rightarrow> unit logged" where
  "process_batch_logged D cfg worker [] = end_with ()"
| "process_batch_logged D cfg worker (d # ds) =
     look (\<lambda>shutdown. if shutdown then end_with ()
       else note_of (\<lambda>_. Happened Processed) (process_one D cfg worker d) (\<lambda>_. process_batch_logged D cfg worker ds))"

definition claim_noted :: "delivery list core_result \<Rightarrow> worker_event observation" where
  "claim_noted r = Happened (case r of Inl e \<Rightarrow> Claim_failed | Inr rows \<Rightarrow> Claimed (length rows))"

definition worker_turn_logged ::
  "(world \<Rightarrow> worker_event observation) \<Rightarrow> (world \<Rightarrow> worker_event observation) \<Rightarrow> deps \<Rightarrow> dispatcher_config \<Rightarrow> string \<Rightarrow> bool logged" where
  "worker_turn_logged error_arm idle_arm D cfg worker =
     look (\<lambda>shutdown. if shutdown then end_with False
       else note_of claim_noted (sql (\<lambda>a. claim_due_deliveries (an_now a) (an_locked a) worker
              (dc_batch_size cfg) (dc_lock_secs cfg))) (\<lambda>claimed. case claimed of
              Inl e \<Rightarrow> pause_logged error_arm (end_with True)
            | Inr rows \<Rightarrow>
                if rows = [] then pause_logged idle_arm (end_with True)
                else await_logged (process_batch_logged D cfg worker rows) (\<lambda>_. end_with True)))"

fun run_worker_logged ::
  "(world \<Rightarrow> worker_event observation) \<Rightarrow> (world \<Rightarrow> worker_event observation) \<Rightarrow> nat \<Rightarrow> deps \<Rightarrow> dispatcher_config \<Rightarrow> string \<Rightarrow>
   bool logged" where
  "run_worker_logged error_arm idle_arm 0 D cfg worker = end_with False"
| "run_worker_logged error_arm idle_arm (Suc n) D cfg worker =
     await_logged (worker_turn_logged error_arm idle_arm D cfg worker)
       (\<lambda>again. if again then run_worker_logged error_arm idle_arm n D cfg worker else end_with True)"

subsection \<open>Without the log it is the loop\<close>

named_theorems erase "what a logged program does when its log is dropped"

lemma erase_basic [erase]:
  "snd (look k w) = read_flag (\<lambda>v w1. snd (k v w1)) w"
  "snd (note_of ev m k' w) = try_await m (\<lambda>r w1. snd (k' r w1)) w"
  "snd (end_with x w) = ok x w"
  "snd (await_logged m' k2 w) = await (\<lambda>w1. snd (m' w1)) (\<lambda>x w1. snd (k2 x w1)) w"
  "snd (pause_logged arm m2 w) = pause (\<lambda>w1. snd (m2 w1)) w"
  by (auto simp: look_def read_flag_def note_of_def try_await_def end_with_def await_logged_def await_def pause_logged_def
      pause_def Let_def split: prod.split sum.split)

lemma erase_batch [erase]: "snd (process_batch_logged D cfg worker ds w) = process_batch D cfg worker ds w"
proof (induction ds arbitrary: w)
  case (Cons d ds)
  then show ?case by (simp add: erase read_flag_def try_await_def split: prod.split)
qed (simp add: erase)

lemma erase_turn [erase]: "snd (worker_turn_logged error_arm idle_arm D cfg worker w) = worker_turn D cfg worker w"
  by (simp add: worker_turn_logged_def worker_turn_def erase read_flag_def try_await_def await_def pause_def
      split: prod.split sum.split)

lemma erase_run: "snd (run_worker_logged error_arm idle_arm n D cfg worker w) = run_worker n D cfg worker w"
proof (induction n arbitrary: w)
  case (Suc n)
  then show ?case by (simp add: erase await_def split: prod.split sum.split)
qed (simp add: erase)

subsection \<open>The log is a walk\<close>

lemma batch_walk:
  "walk run_worker_control (W_Batch (length ds)) (fst (process_batch_logged D cfg worker (d # ds) w)) = Some W_Top"
proof (induction ds arbitrary: d w)
  case Nil
  then show ?case by (simp add: look_def note_of_def end_with_def Let_def split: prod.split)
next
  case (Cons d' ds)
  obtain r w1 where "process_one D cfg worker d (tick w) = (r, w1)" by (rule prod.exhaust)
  then have "fst (process_batch_logged D cfg worker (d # d' # ds) w) = (if an_flag (answer_now w) then [Saw True]
      else Saw False # Happened Processed # fst (process_batch_logged D cfg worker (d' # ds) w1))"
    unfolding process_batch_logged.simps(2) [of _ _ _ d]
    by (simp del: process_batch_logged.simps add: look_def [of _ w] note_of_def [of _ "process_one D cfg worker d"]
        end_with_def Let_def split: prod.split)
  then show ?case using Cons [of d' w1] by (simp del: process_batch_logged.simps)
qed

lemma turn_walk:
  assumes "\<And>w1. error_arm w1 \<in> {Happened Poll_elapsed, Changed, Disconnected}"
    and "\<And>w1. idle_arm w1 \<in> {Happened Wake_notified, Happened Poll_elapsed, Changed, Disconnected}"
  shows "walk run_worker_control W_Top (fst (worker_turn_logged error_arm idle_arm D cfg worker w)) =
    Some (if an_flag (answer_now w) then W_Broke else W_Top)"
proof (cases "an_flag (answer_now w)")
  case True
  then show ?thesis by (simp add: worker_turn_logged_def look_def end_with_def)
next
  case False
  obtain r w1 where c: "sql (\<lambda>a. claim_due_deliveries (an_now a) (an_locked a) worker (dc_batch_size cfg)
      (dc_lock_secs cfg)) (tick w) = (r, w1)" by (rule prod.exhaust)
  have arms: "run_worker_control W_Error_wait (error_arm w1) = Some W_Top" "run_worker_control W_Idle (idle_arm w1) = Some W_Top"
    using assms(1) [of w1] assms(2) [of w1] by auto
  have batch: "fst (await_logged (process_batch_logged D cfg worker rows) (\<lambda>_. end_with True) w1) =
      fst (process_batch_logged D cfg worker rows w1)" for rows
    by (auto simp: await_logged_def end_with_def split: prod.split sum.split)
  have walked: "walk run_worker_control W_Claiming (Happened (Claimed (length rows)) #
      fst (process_batch_logged D cfg worker rows w1)) = Some W_Top" if "rows \<noteq> []" for rows
    using that batch_walk by (cases rows) (simp_all del: process_batch_logged.simps)
  show ?thesis
  proof (cases r)
    case (Inl e)
    then show ?thesis using False c arms
      by (simp add: worker_turn_logged_def look_def note_of_def claim_noted_def pause_logged_def end_with_def)
  next
    case (Inr rows)
    then show ?thesis using False c arms walked [of rows] batch [of rows]
      by (auto simp: worker_turn_logged_def look_def note_of_def claim_noted_def pause_logged_def end_with_def Let_def
          split: prod.splits)
  qed
qed

text \<open>C21. Every run of the worker loop follows its control. The loop is run with a log that notes each
  value of the flag it reads, each claim with its number of rows, each delivery it processed and
  each wait with the arm that ended it (the timer, a change of the flag, the loss of the sender, or
  when idle a notification). For any number of turns, any database and any behaviour of the
  environment, result and world are those of the loop without the log, and the log is a walk
  through the transition function of the control from the top, which is at the end of the task
  exactly if the loop has ended within these turns and at the top otherwise.\<close>

theorem worker_follows_its_control:
  assumes "\<And>w1. error_arm w1 \<in> {Happened Poll_elapsed, Changed, Disconnected}"
    and "\<And>w1. idle_arm w1 \<in> {Happened Wake_notified, Happened Poll_elapsed, Changed, Disconnected}"
  shows "\<exists>log ended w'. run_worker_logged error_arm idle_arm n D cfg worker w = (log, Inr ended, w') \<and>
     run_worker n D cfg worker w = (Inr ended, w') \<and>
     walk run_worker_control W_Top log = Some (if ended then W_Broke else W_Top)"
proof (induction n arbitrary: w)
  case 0
  then show ?case by (auto simp: end_with_def ok_def)
next
  case (Suc n)
  obtain w1 where t: "worker_turn D cfg worker w = (Inr (\<not> an_flag (answer_now w)), w1)"
    using worker_turn_runs [of D cfg worker w] by blast
  obtain l where l: "worker_turn_logged error_arm idle_arm D cfg worker w = (l, Inr (\<not> an_flag (answer_now w)), w1)"
    using erase_turn [of error_arm idle_arm D cfg worker w] t by (cases "worker_turn_logged error_arm idle_arm D cfg worker w") simp
  have walk: "walk run_worker_control W_Top l = Some (if an_flag (answer_now w) then W_Broke else W_Top)"
    using turn_walk [of error_arm idle_arm D cfg worker w] assms l by simp
  show ?case
  proof (cases "an_flag (answer_now w)")
    case True
    then show ?thesis using t l walk by (auto simp: await_logged_def await_def end_with_def ok_def)
  next
    case False
    obtain log ended w' where "run_worker_logged error_arm idle_arm n D cfg worker w1 = (log, Inr ended, w')"
      "run_worker n D cfg worker w1 = (Inr ended, w')" "walk run_worker_control W_Top log = Some (if ended then W_Broke else W_Top)"
      using Suc [of w1] by blast
    then show ?thesis using False t l walk by (simp add: await_logged_def await_def walk_append)
  qed
qed

theorem worker_follows_its_control_witness:
  "\<exists>log w'. run_worker_logged (\<lambda>_. Changed) (\<lambda>_. Happened Wake_notified) 2 deps0 dispatcher_config_default ''worker-1''
       (world_c (Response 200 None)) = (log, Inr False, w') \<and>
     log = [Saw False, Happened (Claimed 0), Happened Wake_notified, Saw False, Happened (Claimed 0), Happened Wake_notified] \<and>
     walk run_worker_control W_Top log = Some W_Top"
proof -
  have idle: "worker_turn_logged (\<lambda>_. Changed) (\<lambda>_. Happened Wake_notified) deps0 dispatcher_config_default ''worker-1''
      ((world_c (Response 200 None))\<lparr>w_pos := n\<rparr>) =
      ([Saw False, Happened (Claimed 0), Happened Wake_notified], Inr True, (world_c (Response 200 None))\<lparr>w_pos := n + 3\<rparr>)" for n
    by (simp add: worker_turn_logged_def look_def note_of_def claim_noted_def pause_logged_def end_with_def ok_def sql_def
        seen_def answer_now_def tick_def world_c_def quiet_world_def quiet_def claim_due_deliveries_def claimable_def
        due_def row0_def claim_row_def new_delivery_def dispatcher_config_default_def Let_def update_where_def seconds_def)
  have "run_worker_logged (\<lambda>_. Changed) (\<lambda>_. Happened Wake_notified) 2 deps0 dispatcher_config_default ''worker-1''
       (world_c (Response 200 None)) =
     ([Saw False, Happened (Claimed 0), Happened Wake_notified, Saw False, Happened (Claimed 0), Happened Wake_notified],
      Inr False, (world_c (Response 200 None))\<lparr>w_pos := 6\<rparr>)"
    using idle [of 0] idle [of 3] by (simp add: numeral_2_eq_2 await_logged_def end_with_def ok_def world_c_def quiet_world_def)
  then show ?thesis
    using worker_follows_its_control [of "\<lambda>_. Changed" "\<lambda>_. Happened Wake_notified" 2 deps0 dispatcher_config_default
        "''worker-1''" "world_c (Response 200 None)"] by auto
qed

end
