(* ===== verification/Isolation.thy ===== *)
theory Isolation
  imports Api
begin

text \<open>
  Tenant isolation of the \<open>/v1\<close> routes. Confidentiality is non-interference: two servers whose
  databases agree on the rows of a tenant, signing secrets aside, answer every reading request,
  every replay and every endpoint update of that tenant alike, whatever the other tenants'
  rows and the concurrent activity on them. Integrity: a request of a tenant changes no row of
  another one. Creating requests are not covered by the first statement: a slug or an id that
  another tenant took is refused, which is visible (\<open>409\<close>).
\<close>

section \<open>What a tenant owns\<close>

definition strip_endpoint :: "endpoint \<Rightarrow> endpoint" where
  "strip_endpoint p = p\<lparr>ep_secret := ''''\<rparr>"

definition strip_source :: "inbound_source \<Rightarrow> inbound_source" where
  "strip_source s = s\<lparr>is_secret := ''''\<rparr>"

definition owns_delivery :: "string \<Rightarrow> db \<Rightarrow> uuid \<Rightarrow> bool" where
  "owns_delivery t db i \<longleftrightarrow> (\<exists>d\<in>set (t_deliveries db). dl_id d = i \<and> dl_tenant_id d = t)"

definition owns_event :: "string \<Rightarrow> db \<Rightarrow> uuid \<Rightarrow> bool" where
  "owns_event t db i \<longleftrightarrow> (\<exists>e\<in>set (t_events db). ev_id e = i \<and> ev_tenant_id e = t)"

record tenant_rows =
  tr_events :: "event list"
  tr_deliveries :: "delivery list"
  tr_attempts :: "delivery_attempt list"
  tr_endpoints :: "endpoint list"
  tr_consumers :: "consumer list"
  tr_sources :: "inbound_source list"

definition tenant_view :: "string \<Rightarrow> db \<Rightarrow> tenant_rows" where
  "tenant_view t db =
     \<lparr>tr_events = filter (\<lambda>e. ev_tenant_id e = t) (t_events db),
      tr_deliveries = filter (\<lambda>d. dl_tenant_id d = t) (t_deliveries db),
      tr_attempts = filter (\<lambda>a. owns_delivery t db (da_delivery_id a)) (t_attempts db),
      tr_endpoints = map strip_endpoint (filter (\<lambda>p. ep_tenant_id p = t) (t_endpoints db)),
      tr_consumers = filter (\<lambda>c. co_tenant_id c = t) (t_consumers db),
      tr_sources = map strip_source (filter (\<lambda>s. is_tenant_id s = t) (t_sources db))\<rparr>"

definition looks_same :: "string \<Rightarrow> (uuid \<Rightarrow> string) \<Rightarrow> db \<Rightarrow> db \<Rightarrow> bool" where
  "looks_same t ushow db1 db2 \<longleftrightarrow> inv ushow db1 \<and> inv ushow db2 \<and> tenant_view t db1 = tenant_view t db2"

text \<open>Two environments that give the same answers to this task, and whose other tasks take only
  system steps that look the same to the tenant.\<close>

definition twin_answers :: "string \<Rightarrow> (uuid \<Rightarrow> string) \<Rightarrow> answer \<Rightarrow> answer \<Rightarrow> bool" where
  "twin_answers t ushow a1 a2 \<longleftrightarrow>
     an_fault a1 = an_fault a2 \<and> an_now a1 = an_now a2 \<and>
     (\<forall>db. rtranclp (any_step ushow) db (an_others a1 db)) \<and> (\<forall>db. rtranclp (any_step ushow) db (an_others a2 db)) \<and>
     (\<forall>db1 db2. looks_same t ushow db1 db2 \<longrightarrow> looks_same t ushow (an_others a1 db1) (an_others a2 db2))"

definition alike :: "string \<Rightarrow> (uuid \<Rightarrow> string) \<Rightarrow> (db \<Rightarrow> bool) \<Rightarrow> world \<Rightarrow> world \<Rightarrow> bool" where
  "alike t ushow J w1 w2 \<longleftrightarrow>
     looks_same t ushow (w_db w1) (w_db w2) \<and> J (w_db w1) \<and> J (w_db w2) \<and> w_pos w1 = w_pos w2 \<and>
     (\<forall>n. twin_answers t ushow (w_env w1 n) (w_env w2 n))"

section \<open>A relational calculus\<close>

text \<open>Two programs started in alike worlds end in alike worlds with related results. \<open>J\<close> is a
  condition that the steps of the system keep.\<close>

definition lasting :: "(db \<Rightarrow> bool) \<Rightarrow> bool" where
  "lasting J \<longleftrightarrow> (\<forall>db db'. extends db db' \<longrightarrow> J db \<longrightarrow> J db')"

definition indist :: "string \<Rightarrow> (uuid \<Rightarrow> string) \<Rightarrow> (db \<Rightarrow> bool) \<Rightarrow> ('a \<Rightarrow> 'b \<Rightarrow> bool) \<Rightarrow> 'a io \<Rightarrow> 'b io \<Rightarrow> bool" where
  "indist t ushow J Q m1 m2 \<longleftrightarrow>
     (\<forall>w1 w2. alike t ushow J w1 w2 \<longrightarrow>
        rel_sum (=) Q (fst (m1 w1)) (fst (m2 w2)) \<and> alike t ushow (\<lambda>_. True) (snd (m1 w1)) (snd (m2 w2)))"

definition twin_results :: "string \<Rightarrow> (uuid \<Rightarrow> string) \<Rightarrow> ('a \<Rightarrow> 'b \<Rightarrow> db \<Rightarrow> bool) \<Rightarrow>
  ('a \<times> db) core_result \<Rightarrow> ('b \<times> db) core_result \<Rightarrow> bool" where
  "twin_results t ushow Q r1 r2 \<longleftrightarrow>
     rel_sum (=) (\<lambda>(x, db1) (y, db2). looks_same t ushow db1 db2 \<and> Q x y db1 \<and> Q x y db2) r1 r2"

lemma alike_weaken: "alike t ushow J w1 w2 \<Longrightarrow> alike t ushow (\<lambda>_. True) w1 w2"
  by (simp add: alike_def)

lemma indist_ok: "Q x y \<Longrightarrow> indist t ushow J Q (ok x) (ok y)"
  by (auto simp: indist_def ok_def intro: alike_weaken)

lemma indist_err: "indist t ushow J Q (err e) (err e)"
  by (auto simp: indist_def err_def intro: alike_weaken)

lemma indist_respond:
  assumes "indist t ushow J P m1 m2" "\<And>x y. P x y \<Longrightarrow> f x = f y"
  shows "indist t ushow J (=) (respond m1 f) (respond m2 f)"
  unfolding indist_def
proof (intro allI impI)
  fix w1 w2
  assume "alike t ushow J w1 w2"
  then have "rel_sum (=) P (fst (m1 w1)) (fst (m2 w2))" "alike t ushow (\<lambda>_. True) (snd (m1 w1)) (snd (m2 w2))"
    using assms(1) by (auto simp: indist_def)
  then show "rel_sum (=) (=) (fst (respond m1 f w1)) (fst (respond m2 f w2)) \<and>
      alike t ushow (\<lambda>_. True) (snd (respond m1 f w1)) (snd (respond m2 f w2))"
    using assms(2)
    by (cases "fst (m1 w1)"; cases "fst (m2 w2)")
      (auto simp: respond_def try_await_def ok_def split: prod.splits)
qed

text \<open>The one place where the databases are touched.\<close>

lemma alike_seen:
  assumes "alike t ushow J w1 w2" "lasting J"
  shows "looks_same t ushow (seen w1) (seen w2) \<and> J (seen w1) \<and> J (seen w2)"
proof -
  have tw: "twin_answers t ushow (answer_now w1) (answer_now w2)"
    using assms(1) by (simp add: alike_def answer_now_def)
  have "extends (w_db w1) (seen w1)" "extends (w_db w2) (seen w2)"
    using tw any_steps_extends unfolding twin_answers_def seen_def by blast+
  then have "J (seen w1)" "J (seen w2)" using assms by (auto simp: lasting_def alike_def)
  moreover have "looks_same t ushow (seen w1) (seen w2)"
    using tw assms(1) unfolding twin_answers_def seen_def alike_def by blast
  ultimately show ?thesis by blast
qed

lemma alike_next:
  assumes "alike t ushow J w1 w2" "looks_same t ushow db1 db2" "J' db1" "J' db2"
  shows "alike t ushow J' ((tick w1)\<lparr>w_db := db1\<rparr>) ((tick w2)\<lparr>w_db := db2\<rparr>)"
  using assms by (simp add: alike_def)

definition twin_runs :: "string \<Rightarrow> (uuid \<Rightarrow> string) \<Rightarrow> ('a \<Rightarrow> 'a \<Rightarrow> db \<Rightarrow> bool) \<Rightarrow> 'a io \<Rightarrow> world \<Rightarrow> world \<Rightarrow> bool" where
  "twin_runs t ushow P m w1 w2 \<longleftrightarrow>
     (\<exists>e. fst (m w1) = Inl e \<and> fst (m w2) = Inl e \<and> alike t ushow (\<lambda>_. True) (snd (m w1)) (snd (m w2))) \<or>
     (\<exists>x y. fst (m w1) = Inr x \<and> fst (m w2) = Inr y \<and> alike t ushow (P x y) (snd (m w1)) (snd (m w2)))"

lemma sql_twins:
  assumes al: "alike t ushow J w1 w2" and last: "lasting J"
    and f: "\<And>a1 a2 db1 db2. looks_same t ushow db1 db2 \<Longrightarrow> J db1 \<Longrightarrow> J db2 \<Longrightarrow> twin_answers t ushow a1 a2 \<Longrightarrow>
      twin_results t ushow P (f a1 db1) (f a2 db2)"
  shows "twin_runs t ushow P (sql f) w1 w2"
proof -
  let ?a1 = "answer_now w1" and ?a2 = "answer_now w2"
  have tw: "twin_answers t ushow ?a1 ?a2" using al by (simp add: alike_def answer_now_def)
  then have fault: "an_fault ?a2 = an_fault ?a1" by (simp add: twin_answers_def)
  note s = alike_seen [OF al last]
  have r: "twin_results t ushow P (f ?a1 (seen w1)) (f ?a2 (seen w2))" using f s tw by blast
  have al0: "alike t ushow (\<lambda>_. True) ((tick w1)\<lparr>w_db := seen w1\<rparr>) ((tick w2)\<lparr>w_db := seen w2\<rparr>)"
    using s by (intro alike_next [OF al]) auto
  show ?thesis
  proof (cases "f ?a1 (seen w1)")
    case (Inl e)
    then have "f ?a2 (seen w2) = Inl e" using r by (cases "f ?a2 (seen w2)") (auto simp: twin_results_def)
    with Inl al0 fault show ?thesis by (cases "an_fault ?a1") (auto simp: twin_runs_def sql_def Let_def)
  next
    case (Inr z)
    obtain x db1 where z: "z = (x, db1)" by (cases z)
    obtain y db2 where y: "f ?a2 (seen w2) = Inr (y, db2)" "looks_same t ushow db1 db2" "P x y db1" "P x y db2"
      using r Inr z by (cases "f ?a2 (seen w2)") (auto simp: twin_results_def)
    then have "alike t ushow (P x y) ((tick w1)\<lparr>w_db := db1\<rparr>) ((tick w2)\<lparr>w_db := db2\<rparr>)"
      by (intro alike_next [OF al]) auto
    with Inr z y(1) al0 fault show ?thesis
      by (cases "an_fault ?a1") (auto simp: twin_runs_def sql_def Let_def intro: alike_weaken)
  qed
qed

lemma indist_sql:
  assumes "lasting J"
    and "\<And>a1 a2 db1 db2. looks_same t ushow db1 db2 \<Longrightarrow> J db1 \<Longrightarrow> J db2 \<Longrightarrow> twin_answers t ushow a1 a2 \<Longrightarrow>
      twin_results t ushow (\<lambda>x y _. Q x y) (f a1 db1) (f a2 db2)"
  shows "indist t ushow J Q (sql f) (sql f)"
  unfolding indist_def
proof (intro allI impI)
  fix w1 w2
  assume al: "alike t ushow J w1 w2"
  have "twin_runs t ushow (\<lambda>x y _. Q x y) (sql f) w1 w2" by (rule sql_twins [OF al assms(1)]) (rule assms(2))
  then show "rel_sum (=) Q (fst (sql f w1)) (fst (sql f w2)) \<and> alike t ushow (\<lambda>_. True) (snd (sql f w1)) (snd (sql f w2))"
    by (auto simp: twin_runs_def alike_def)
qed

lemma indist_await_sql:
  assumes "lasting J"
    and "\<And>a1 a2 db1 db2. looks_same t ushow db1 db2 \<Longrightarrow> J db1 \<Longrightarrow> J db2 \<Longrightarrow> twin_answers t ushow a1 a2 \<Longrightarrow>
      twin_results t ushow (\<lambda>x y db. P x y \<and> J' x y db) (f a1 db1) (f a2 db2)"
    and "\<And>x y. P x y \<Longrightarrow> indist t ushow (J' x y) Q (k1 x) (k2 y)"
  shows "indist t ushow J Q (await (sql f) k1) (await (sql f) k2)"
  unfolding indist_def
proof (intro allI impI)
  fix w1 w2
  assume al: "alike t ushow J w1 w2"
  obtain r1 v1 where 1: "sql f w1 = (r1, v1)" by (rule prod.exhaust)
  obtain r2 v2 where 2: "sql f w2 = (r2, v2)" by (rule prod.exhaust)
  have "twin_runs t ushow (\<lambda>x y db. P x y \<and> J' x y db) (sql f) w1 w2" by (rule sql_twins [OF al assms(1)]) (rule assms(2))
  then consider e where "r1 = Inl e" "r2 = Inl e" "alike t ushow (\<lambda>_. True) v1 v2"
    | x y where "r1 = Inr x" "r2 = Inr y" "alike t ushow (\<lambda>db. P x y \<and> J' x y db) v1 v2"
    by (auto simp: 1 2 twin_runs_def)
  then show "rel_sum (=) Q (fst (await (sql f) k1 w1)) (fst (await (sql f) k2 w2)) \<and>
      alike t ushow (\<lambda>_. True) (snd (await (sql f) k1 w1)) (snd (await (sql f) k2 w2))"
  proof cases
    case 2
    then have "P x y" "alike t ushow (J' x y) v1 v2" by (auto simp: alike_def)
    then show ?thesis using assms(3) 2 \<open>sql f w2 = (r2, v2)\<close> 1 by (auto simp: await_def indist_def)
  qed (simp add: await_def 1 2)
qed

section \<open>Reading statements\<close>

lemma find_own:
  "distinct (map key xs) \<Longrightarrow>
   Option.bind (List.find (\<lambda>e. key e = i) xs) (\<lambda>e. if Q e then Some e else None) = List.find (\<lambda>e. key e = i) (filter Q xs)"
proof (induction xs)
  case (Cons a xs)
  have "List.find (\<lambda>e. key e = i) (filter Q xs) = None" if "key a = i"
    using Cons.prems that by (force simp: find_None_iff image_iff)
  with Cons show ?case by auto
qed simp

lemma find_SomeD: "List.find P xs = Some x \<Longrightarrow> x \<in> set xs \<and> P x"
  by (auto simp: find_Some_iff)

lemma find_map: "List.find P (map g xs) = map_option g (List.find (\<lambda>x. P (g x)) xs)"
  by (induction xs) auto

lemma find_filter: "(\<And>x. P x \<Longrightarrow> Q x) \<Longrightarrow> List.find P (filter Q xs) = List.find P xs"
  by (induction xs) auto

lemma sort_key_map: "sort_key f (map g xs) = map g (sort_key (\<lambda>x. f (g x)) xs)"
proof (induction xs)
  case (Cons a xs)
  have "insort_key f (g a) (map g ys) = map g (insort_key (\<lambda>x. f (g x)) a ys)" for ys
    by (induction ys) auto
  with Cons show ?case by simp
qed simp

lemma filter_within: "(\<And>x. x \<in> set xs \<Longrightarrow> P x \<Longrightarrow> Q x) \<Longrightarrow> filter P xs = filter P (filter Q xs)"
  by (induction xs) auto

lemma strip_simps [simp]:
  "ep_id (strip_endpoint p) = ep_id p" "ep_tenant_id (strip_endpoint p) = ep_tenant_id p"
  "ep_consumer_id (strip_endpoint p) = ep_consumer_id p" "ep_created_at (strip_endpoint p) = ep_created_at p"
  "is_created_at (strip_source s) = is_created_at s"
  by (simp_all add: strip_endpoint_def strip_source_def)

lemma strip_json [simp]:
  "endpoint_json A (strip_endpoint p) = endpoint_json A p" "source_json A (strip_source s) = source_json A s"
  by (simp_all add: endpoint_json_def endpoint_fields_def strip_endpoint_def source_json_def source_fields_def strip_source_def)

lemma looks_sameD:
  assumes "looks_same t ushow db1 db2"
  shows "filter (\<lambda>e. ev_tenant_id e = t) (t_events db1) = filter (\<lambda>e. ev_tenant_id e = t) (t_events db2)"
    "filter (\<lambda>d. dl_tenant_id d = t) (t_deliveries db1) = filter (\<lambda>d. dl_tenant_id d = t) (t_deliveries db2)"
    "filter (\<lambda>a. owns_delivery t db1 (da_delivery_id a)) (t_attempts db1) =
       filter (\<lambda>a. owns_delivery t db2 (da_delivery_id a)) (t_attempts db2)"
    "map strip_endpoint (filter (\<lambda>p. ep_tenant_id p = t) (t_endpoints db1)) =
       map strip_endpoint (filter (\<lambda>p. ep_tenant_id p = t) (t_endpoints db2))"
    "filter (\<lambda>c. co_tenant_id c = t) (t_consumers db1) = filter (\<lambda>c. co_tenant_id c = t) (t_consumers db2)"
    "map strip_source (filter (\<lambda>s. is_tenant_id s = t) (t_sources db1)) =
       map strip_source (filter (\<lambda>s. is_tenant_id s = t) (t_sources db2))"
    "inv ushow db1" "inv ushow db2"
  using assms by (simp_all add: looks_same_def tenant_view_def)

text \<open>Rows that hang on a row of the tenant are the tenant's.\<close>

lemma consumer_owner:
  assumes "inv ushow db" "in_scope db t (Some c)"
  shows "p \<in> set (t_endpoints db) \<Longrightarrow> ep_consumer_id p = Some c \<Longrightarrow> ep_tenant_id p = t"
    "e \<in> set (t_events db) \<Longrightarrow> ev_consumer_id e = Some c \<Longrightarrow> ev_tenant_id e = t"
proof -
  have keys: "distinct (map co_id (t_consumers db))" using assms(1) by (simp add: inv_def keys_ok_def)
  have uniq: "t' = t" if "in_scope db t' (Some c)" for t'
    using that assms(2) distinct_keys_unique [OF keys] unfolding in_scope_def by (metis option.inject)
  show "ep_tenant_id p = t" if "p \<in> set (t_endpoints db)" "ep_consumer_id p = Some c"
    using assms(1) that uniq unfolding inv_def by metis
  show "ev_tenant_id e = t" if "e \<in> set (t_events db)" "ev_consumer_id e = Some c"
    using assms(1) that uniq unfolding inv_def by metis
qed

lemma event_owner:
  assumes "inv ushow db" "owns_event t db i" "d \<in> set (t_deliveries db)" "dl_event_id d = i"
  shows "dl_tenant_id d = t"
proof -
  have "routed db d" using assms(1,3) by (simp add: inv_def delivery_ok_def)
  then obtain e where "e \<in> set (t_events db)" "ev_id e = i" "ev_tenant_id e = dl_tenant_id d"
    using assms(4) by (auto simp: routed_def)
  moreover have "distinct (map ev_id (t_events db))" using assms(1) by (simp add: inv_def keys_ok_def)
  ultimately show ?thesis using assms(2) distinct_keys_unique unfolding owns_event_def by metis
qed

lemma lasting_rules:
  "lasting (\<lambda>_. True)" "lasting (\<lambda>db. owns_event t db i)" "lasting (\<lambda>db. owns_delivery t db i)"
  "lasting (\<lambda>db. in_scope db t c)"
proof -
  show "lasting (\<lambda>db. owns_event t db i)" using extends_events unfolding lasting_def owns_event_def by blast
  show "lasting (\<lambda>db. owns_delivery t db i)"
    unfolding lasting_def owns_delivery_def using extends_delivery by (fastforce simp: dl_identity_def)
qed (auto simp: lasting_def intro: in_scope_extends)

lemma twin_read:
  "looks_same t ushow db1 db2 \<Longrightarrow> Q x y db1 \<Longrightarrow> Q x y db2 \<Longrightarrow> twin_results t ushow Q (Inr (x, db1)) (Inr (y, db2))"
  by (simp add: twin_results_def)

lemma twin_limit:
  "looks_same t ushow db1 db2 \<Longrightarrow> rows1 = rows2 \<Longrightarrow> twin_results t ushow (\<lambda>x y _. x = y)
     (map_sum id (\<lambda>rows. (rows, db1)) (limit_offset l f rows1)) (map_sum id (\<lambda>rows. (rows, db2)) (limit_offset l f rows2))"
  by (auto simp: limit_offset_def twin_results_def)

definition own :: "('r \<Rightarrow> string) \<Rightarrow> string \<Rightarrow> 'r option \<Rightarrow> 'r option" where
  "own tenant t x = Option.bind x (\<lambda>r. if tenant r = t then Some r else None)"

lemma ownD: "own tenant t (List.find P xs) = Some y \<Longrightarrow> \<exists>r\<in>set xs. P r \<and> tenant r = t"
  by (auto simp: own_def bind_eq_Some_conv split: if_splits dest!: find_SomeD)

lemma reads_alike:
  assumes "looks_same t ushow db1 db2"
  shows "twin_results t ushow (\<lambda>x y _. x = y) (list_events t l f db1) (list_events t l f db2)"
    "twin_results t ushow (\<lambda>x y _. map strip_endpoint x = map strip_endpoint y) (list_endpoints t db1) (list_endpoints t db2)"
    "twin_results t ushow (\<lambda>x y _. map strip_source x = map strip_source y) (list_inbound_sources t db1) (list_inbound_sources t db2)"
    "twin_results t ushow (\<lambda>x y _. map_option strip_endpoint (own ep_tenant_id t x) = map_option strip_endpoint (own ep_tenant_id t y))
       (get_endpoint i db1) (get_endpoint i db2)"
    "twin_results t ushow (\<lambda>x y db. own ev_tenant_id t x = own ev_tenant_id t y \<and> (own ev_tenant_id t x \<noteq> None \<longrightarrow> owns_event t db i))
       (get_event i db1) (get_event i db2)"
    "twin_results t ushow (\<lambda>x y db. own dl_tenant_id t x = own dl_tenant_id t y \<and> (own dl_tenant_id t x \<noteq> None \<longrightarrow> owns_delivery t db i))
       (get_delivery i db1) (get_delivery i db2)"
    "twin_results t ushow (\<lambda>x y db. x = y \<and> (\<forall>c. x = Some c \<longrightarrow> in_scope db t (Some (co_id c))))
       (get_consumer t uid db1) (get_consumer t uid db2)"
proof -
  note v = looks_sameD [OF assms]
  show "twin_results t ushow (\<lambda>x y _. x = y) (list_events t l f db1) (list_events t l f db2)"
    unfolding list_events_def by (rule twin_limit [OF assms]) (simp add: v)
  have "map strip_endpoint (sort_key ep_created_at ps) = sort_key ep_created_at (map strip_endpoint ps)" for ps
    by (simp add: sort_key_map)
  then show "twin_results t ushow (\<lambda>x y _. map strip_endpoint x = map strip_endpoint y) (list_endpoints t db1) (list_endpoints t db2)"
    unfolding list_endpoints_def by (intro twin_read [OF assms]) (simp_all add: v(4))
  have "map strip_source (sort_key is_created_at ps) = sort_key is_created_at (map strip_source ps)" for ps
    by (simp add: sort_key_map)
  then show "twin_results t ushow (\<lambda>x y _. map strip_source x = map strip_source y) (list_inbound_sources t db1) (list_inbound_sources t db2)"
    unfolding list_inbound_sources_def by (intro twin_read [OF assms]) (simp_all add: v(6))
  have keys: "distinct (map ep_id (t_endpoints db))" "distinct (map ev_id (t_events db))" "distinct (map dl_id (t_deliveries db))"
    if "inv ushow db" for db using that by (simp_all add: inv_def keys_ok_def)
  have "map_option strip_endpoint (List.find (\<lambda>p. ep_id p = i) ps) = List.find (\<lambda>p. ep_id p = i) (map strip_endpoint ps)" for ps
    by (simp add: find_map)
  then show "twin_results t ushow (\<lambda>x y _. map_option strip_endpoint (own ep_tenant_id t x) = map_option strip_endpoint (own ep_tenant_id t y))
       (get_endpoint i db1) (get_endpoint i db2)"
    unfolding get_endpoint_def by (intro twin_read [OF assms]) (simp_all add: own_def find_own keys v(4,7,8))
  have ev: "own ev_tenant_id t (List.find (\<lambda>e. ev_id e = i) (t_events db)) =
      List.find (\<lambda>e. ev_id e = i) (filter (\<lambda>e. ev_tenant_id e = t) (t_events db))" if "inv ushow db" for db
    by (simp add: own_def find_own keys [OF that])
  have "own ev_tenant_id t (List.find (\<lambda>e. ev_id e = i) (t_events db1)) = own ev_tenant_id t (List.find (\<lambda>e. ev_id e = i) (t_events db2))"
    using ev [OF v(7)] ev [OF v(8)] v(1) by simp
  then show "twin_results t ushow (\<lambda>x y db. own ev_tenant_id t x = own ev_tenant_id t y \<and> (own ev_tenant_id t x \<noteq> None \<longrightarrow> owns_event t db i))
       (get_event i db1) (get_event i db2)"
    unfolding get_event_def owns_event_def
    by (intro twin_read [OF assms] conjI impI) (auto dest: ownD)
  have dl: "own dl_tenant_id t (List.find (\<lambda>e. dl_id e = i) (t_deliveries db)) =
      List.find (\<lambda>e. dl_id e = i) (filter (\<lambda>e. dl_tenant_id e = t) (t_deliveries db))" if "inv ushow db" for db
    by (simp add: own_def find_own keys [OF that])
  have "own dl_tenant_id t (List.find (\<lambda>d. dl_id d = i) (t_deliveries db1)) = own dl_tenant_id t (List.find (\<lambda>d. dl_id d = i) (t_deliveries db2))"
    using dl [OF v(7)] dl [OF v(8)] v(2) by simp
  then show "twin_results t ushow (\<lambda>x y db. own dl_tenant_id t x = own dl_tenant_id t y \<and> (own dl_tenant_id t x \<noteq> None \<longrightarrow> owns_delivery t db i))
       (get_delivery i db1) (get_delivery i db2)"
    unfolding get_delivery_def owns_delivery_def
    by (intro twin_read [OF assms] conjI impI) (auto dest: ownD)
  have co: "List.find (\<lambda>c. co_tenant_id c = t \<and> co_uid c = uid) (t_consumers db) =
      List.find (\<lambda>c. co_tenant_id c = t \<and> co_uid c = uid) (filter (\<lambda>c. co_tenant_id c = t) (t_consumers db))" for db
    by (rule find_filter [symmetric]) simp
  have eq: "List.find (\<lambda>c. co_tenant_id c = t \<and> co_uid c = uid) (t_consumers db1) =
      List.find (\<lambda>c. co_tenant_id c = t \<and> co_uid c = uid) (t_consumers db2)"
    using co [of db1] co [of db2] v(5) by simp
  have sc: "in_scope db t (Some (co_id c))" if "List.find (\<lambda>c. co_tenant_id c = t \<and> co_uid c = uid) (t_consumers db) = Some c" for db c
    using find_SomeD [OF that] by (auto simp: in_scope_def)
  show "twin_results t ushow (\<lambda>x y db. x = y \<and> (\<forall>c. x = Some c \<longrightarrow> in_scope db t (Some (co_id c))))
       (get_consumer t uid db1) (get_consumer t uid db2)"
    unfolding get_consumer_def
    by (intro twin_read [OF assms] conjI allI impI eq sc) (simp_all add: eq)
qed

lemma hanging_reads_alike:
  assumes "looks_same t ushow db1 db2"
  shows "owns_event t db1 i \<Longrightarrow> owns_event t db2 i \<Longrightarrow>
      twin_results t ushow (\<lambda>x y _. x = y) (deliveries_for_event i db1) (deliveries_for_event i db2)"
    "owns_delivery t db1 i \<Longrightarrow> owns_delivery t db2 i \<Longrightarrow>
      twin_results t ushow (\<lambda>x y _. x = y) (attempts_for_delivery i db1) (attempts_for_delivery i db2)"
    "in_scope db1 t (Some c) \<Longrightarrow> in_scope db2 t (Some c) \<Longrightarrow>
      twin_results t ushow (\<lambda>x y _. map strip_endpoint x = map strip_endpoint y)
        (list_endpoints_for_consumer c db1) (list_endpoints_for_consumer c db2)"
    "in_scope db1 t (Some c) \<Longrightarrow> in_scope db2 t (Some c) \<Longrightarrow>
      twin_results t ushow (\<lambda>x y _. x = y) (list_events_for_consumer c l f db1) (list_events_for_consumer c l f db2)"
proof -
  note v = looks_sameD [OF assms]
  have dl: "filter (\<lambda>d. dl_event_id d = i) (t_deliveries db) =
      filter (\<lambda>d. dl_event_id d = i) (filter (\<lambda>d. dl_tenant_id d = t) (t_deliveries db))"
    if "inv ushow db" "owns_event t db i" for db
    by (rule filter_within) (rule event_owner [OF that])
  show "twin_results t ushow (\<lambda>x y _. x = y) (deliveries_for_event i db1) (deliveries_for_event i db2)"
    if "owns_event t db1 i" "owns_event t db2 i"
    unfolding deliveries_for_event_def
    by (intro twin_read [OF assms]) (simp_all only: dl [OF v(7) that(1)] dl [OF v(8) that(2)] v(2))
  have at: "filter (\<lambda>a. da_delivery_id a = i) (t_attempts db) =
      filter (\<lambda>a. da_delivery_id a = i) (filter (\<lambda>a. owns_delivery t db (da_delivery_id a)) (t_attempts db))"
    if "owns_delivery t db i" for db
    by (rule filter_within) (use that in simp)
  show "twin_results t ushow (\<lambda>x y _. x = y) (attempts_for_delivery i db1) (attempts_for_delivery i db2)"
    if "owns_delivery t db1 i" "owns_delivery t db2 i"
    unfolding attempts_for_delivery_def
    by (intro twin_read [OF assms]) (simp_all only: at [OF that(1)] at [OF that(2)] v(3))
  have strip: "map strip_endpoint (sort_key ep_created_at (filter (\<lambda>p. ep_consumer_id p = Some c) (t_endpoints db))) =
      sort_key ep_created_at (filter (\<lambda>p. ep_consumer_id p = Some c)
        (map strip_endpoint (filter (\<lambda>p. ep_tenant_id p = t) (t_endpoints db))))"
    if "inv ushow db" "in_scope db t (Some c)" for db
  proof -
    have "filter (\<lambda>p. ep_consumer_id p = Some c) (t_endpoints db) =
        filter (\<lambda>p. ep_consumer_id p = Some c) (filter (\<lambda>p. ep_tenant_id p = t) (t_endpoints db))"
      by (rule filter_within) (rule consumer_owner(1) [OF that])
    then show ?thesis by (simp add: sort_key_map filter_map comp_def)
  qed
  show "twin_results t ushow (\<lambda>x y _. map strip_endpoint x = map strip_endpoint y)
        (list_endpoints_for_consumer c db1) (list_endpoints_for_consumer c db2)"
    if "in_scope db1 t (Some c)" "in_scope db2 t (Some c)"
    unfolding list_endpoints_for_consumer_def
    by (intro twin_read [OF assms]) (simp_all only: strip [OF v(7) that(1)] strip [OF v(8) that(2)] v(4))
  have ev: "filter (\<lambda>e. ev_consumer_id e = Some c) (t_events db) =
      filter (\<lambda>e. ev_consumer_id e = Some c) (filter (\<lambda>e. ev_tenant_id e = t) (t_events db))"
    if "inv ushow db" "in_scope db t (Some c)" for db
    by (rule filter_within) (rule consumer_owner(2) [OF that])
  show "twin_results t ushow (\<lambda>x y _. x = y) (list_events_for_consumer c l f db1) (list_events_for_consumer c l f db2)"
    if "in_scope db1 t (Some c)" "in_scope db2 t (Some c)"
    unfolding list_events_for_consumer_def
    by (rule twin_limit [OF assms]) (simp only: ev [OF v(7) that(1)] ev [OF v(8) that(2)] v(1))
qed

lemma list_consumers_alike:
  assumes "looks_same t ushow db1 db2"
  shows "twin_results t ushow (\<lambda>x y _. x = y) (list_consumers t db1) (list_consumers t db2)"
proof -
  note v = looks_sameD [OF assms]
  let ?mine = "\<lambda>db. filter (\<lambda>c. co_tenant_id c = t) (t_consumers db)"
  have counts: "rows_affected (\<lambda>e. ep_consumer_id e = Some (co_id c)) (t_endpoints db) =
        length (filter (\<lambda>e. ep_consumer_id e = Some (co_id c)) (map strip_endpoint (filter (\<lambda>p. ep_tenant_id p = t) (t_endpoints db))))"
      "rows_affected (\<lambda>e. ev_consumer_id e = Some (co_id c)) (t_events db) =
        length (filter (\<lambda>e. ev_consumer_id e = Some (co_id c)) (filter (\<lambda>e. ev_tenant_id e = t) (t_events db)))"
    if "inv ushow db" "c \<in> set (?mine db)" for db c
  proof -
    have sc: "in_scope db t (Some (co_id c))" using that(2) by (auto simp: in_scope_def)
    have "filter (\<lambda>p. ep_consumer_id p = Some (co_id c)) (t_endpoints db) =
        filter (\<lambda>p. ep_consumer_id p = Some (co_id c)) (filter (\<lambda>p. ep_tenant_id p = t) (t_endpoints db))"
      by (rule filter_within) (rule consumer_owner(1) [OF that(1) sc])
    then show "rows_affected (\<lambda>e. ep_consumer_id e = Some (co_id c)) (t_endpoints db) =
        length (filter (\<lambda>e. ep_consumer_id e = Some (co_id c)) (map strip_endpoint (filter (\<lambda>p. ep_tenant_id p = t) (t_endpoints db))))"
      by (simp add: rows_affected_def filter_map comp_def)
    have "filter (\<lambda>e. ev_consumer_id e = Some (co_id c)) (t_events db) =
        filter (\<lambda>e. ev_consumer_id e = Some (co_id c)) (filter (\<lambda>e. ev_tenant_id e = t) (t_events db))"
      by (rule filter_within) (rule consumer_owner(2) [OF that(1) sc])
    then show "rows_affected (\<lambda>e. ev_consumer_id e = Some (co_id c)) (t_events db) =
        length (filter (\<lambda>e. ev_consumer_id e = Some (co_id c)) (filter (\<lambda>e. ev_tenant_id e = t) (t_events db)))"
      by (simp add: rows_affected_def)
  qed
  show ?thesis
    unfolding list_consumers_def
    by (intro twin_read [OF assms] map_cong)
      (use counts [OF v(7)] counts [OF v(8)] v in \<open>auto simp: v\<close>)
qed

section \<open>Writing statements\<close>

lemma filter_update_where:
  "(\<And>x. Q (f x) = Q x) \<Longrightarrow> filter Q (update_where P f xs) = update_where P f (filter Q xs)"
  by (induction xs) (auto simp: update_where_def)

lemma owns_after_rewrite:
  assumes "t_deliveries db' = update_where P f (t_deliveries db)" "\<And>d. dl_identity (f d) = dl_identity d"
  shows "owns_delivery t db' i = owns_delivery t db i"
proof -
  have "dl_id (f d) = dl_id d" "dl_tenant_id (f d) = dl_tenant_id d" for d
    using assms(2) [of d] by (simp_all add: dl_identity_def)
  then have "\<And>d. dl_id (if P d then f d else d) = dl_id d \<and> dl_tenant_id (if P d then f d else d) = dl_tenant_id d" by simp
  then show ?thesis unfolding owns_delivery_def assms(1) set_update_where by (simp only: bex_simps)
qed

lemma replay_alike:
  assumes "looks_same t ushow db1 db2"
  shows "twin_results t ushow (\<lambda>_ _ _. True) (reset_for_replay now i db1) (reset_for_replay now i db2)"
proof -
  note v = looks_sameD [OF assms]
  let ?r = "\<lambda>db. db\<lparr>t_deliveries := update_where (\<lambda>d. dl_id d = i) (replay_row now) (t_deliveries db)\<rparr>"
  have st: "inv ushow (?r db)" if "inv ushow db" for db
    by (rule step_inv [OF db_step.replay that]) (simp add: reset_for_replay_def Let_def)
  have dl: "filter (\<lambda>d. dl_tenant_id d = t) (t_deliveries (?r db)) =
      update_where (\<lambda>d. dl_id d = i) (replay_row now) (filter (\<lambda>d. dl_tenant_id d = t) (t_deliveries db))" for db
    by (simp add: filter_update_where replay_row_def)
  have ow: "owns_delivery t (?r db) = owns_delivery t db" for db
    by (rule ext, rule owns_after_rewrite [where P = "\<lambda>d. dl_id d = i" and f = "replay_row now"]) simp_all
  have "tenant_view t (?r db1) = tenant_view t (?r db2)"
    using v(1-6) unfolding tenant_view_def by (simp add: dl [simplified] ow)
  then have "looks_same t ushow (?r db1) (?r db2)" using st v(7,8) by (simp add: looks_same_def)
  then show ?thesis by (simp add: reset_for_replay_def twin_results_def Let_def)
qed

lemma update_where_map: "map g (update_where P f xs) = update_where P' f' (map g xs)"
  if "\<And>x. P' (g x) = P x" "\<And>x. g (f x) = f' (g x)"
  using that by (induction xs) (auto simp: update_where_def)

lemma patch_alike:
  assumes "looks_same t ushow db1 db2"
  shows "twin_results t ushow (\<lambda>x y _. map_option strip_endpoint x = map_option strip_endpoint y)
    (update_endpoint now i t url dis tys db1) (update_endpoint now i t url dis tys db2)"
proof -
  note v = looks_sameD [OF assms]
  let ?P = "\<lambda>e. ep_id e = i \<and> ep_tenant_id e = t" and ?f = "patch_endpoint now url dis tys"
  let ?r = "\<lambda>db. db\<lparr>t_endpoints := update_where ?P ?f (t_endpoints db)\<rparr>"
  have st: "inv ushow (?r db)" if "inv ushow db" for db
    by (rule step_inv [OF db_step.update_endpoint that]) (simp add: update_endpoint_def Let_def)
  have strip: "strip_endpoint (?f p) = ?f (strip_endpoint p)" for p
    by (simp add: strip_endpoint_def patch_endpoint_def)
  have eps: "map strip_endpoint (filter (\<lambda>p. ep_tenant_id p = t) (update_where ?P ?f (t_endpoints db))) =
      update_where ?P ?f (map strip_endpoint (filter (\<lambda>p. ep_tenant_id p = t) (t_endpoints db)))" for db
    by (subst filter_update_where) (simp add: patch_endpoint_def, rule update_where_map, simp_all add: strip)
  have ow: "owns_delivery t (?r db) = owns_delivery t db" for db by (rule ext) (simp add: owns_delivery_def)
  have "tenant_view t (?r db1) = tenant_view t (?r db2)"
    using v(1-6) unfolding tenant_view_def by (simp add: eps ow)
  then have same: "looks_same t ushow (?r db1) (?r db2)" using st v(7,8) by (simp add: looks_same_def)
  have fnd: "map_option strip_endpoint (map_option ?f (List.find ?P (t_endpoints db))) =
      map_option ?f (List.find ?P (map strip_endpoint (filter (\<lambda>p. ep_tenant_id p = t) (t_endpoints db))))" for db
  proof -
    have "List.find ?P (filter (\<lambda>p. ep_tenant_id p = t) (t_endpoints db)) = List.find ?P (t_endpoints db)"
      by (rule find_filter) simp
    then show ?thesis by (simp add: find_map option.map_comp comp_def strip)
  qed
  show ?thesis
    unfolding update_endpoint_def Let_def by (intro twin_read [OF same]) (simp_all only: fnd v(4))
qed

section \<open>Requests\<close>

lemma await_found: "await (ok_or_not_found what x) k = (case x of Some y \<Rightarrow> k y | None \<Rightarrow> err (NotFound what))"
  by (rule ext) (simp add: await_def ok_or_not_found_def ok_def err_def split: option.split)

lemma indist_mono: "indist t ushow J2 Q m1 m2 \<Longrightarrow> (\<And>db. J db \<Longrightarrow> J2 db) \<Longrightarrow> indist t ushow J Q m1 m2"
  unfolding indist_def alike_def by blast

text \<open>A lookup by id that keeps the row only when it is the tenant's.\<close>

lemma indist_own:
  assumes "\<And>z. k z = (case own tenant t z of Some r \<Rightarrow> h r | None \<Rightarrow> err e)"
    and "\<And>r. indist t ushow J Q (h r) (h r)" "own tenant t x = own tenant t y"
  shows "indist t ushow (\<lambda>db. own tenant t x \<noteq> None \<longrightarrow> J db) Q (k x) (k y)"
proof (cases "own tenant t x")
  case None
  then show ?thesis using assms(1,3) by (simp add: indist_err)
next
  case (Some r)
  then show ?thesis using assms(1-3) by (auto intro: indist_mono)
qed

lemma indist_resolve:
  assumes "\<And>c. indist t ushow (\<lambda>db. in_scope db t (Some (co_id c))) Q (k c) (k c)"
  shows "indist t ushow (\<lambda>_. True) Q (await (resolve_consumer t uid) k) (await (resolve_consumer t uid) k)"
  unfolding resolve_consumer_def await_assoc await_found
proof (rule indist_await_sql [OF lasting_rules(1)])
  fix x y :: "consumer option"
  assume "x = y"
  then show "indist t ushow (\<lambda>db. \<forall>c. x = Some c \<longrightarrow> in_scope db t (Some (co_id c))) Q
      (case x of Some y \<Rightarrow> k y | None \<Rightarrow> err (NotFound (''consumer '' @ uid)))
      (case y of Some y \<Rightarrow> k y | None \<Rightarrow> err (NotFound (''consumer '' @ uid)))"
    using assms by (auto split: option.split intro: indist_err indist_mono)
qed (rule reads_alike(7))

lemma get_message_indist: "indist t ushow (\<lambda>_. True) (=) (get_message A t i) (get_message A t i)"
  unfolding get_message_def await_found
proof (rule indist_respond [where P = "(=)"], rule indist_await_sql [OF lasting_rules(1)], rule reads_alike(5), assumption)
  fix x y :: "event option"
  assume o: "own ev_tenant_id t x = own ev_tenant_id t y"
  let ?h = "\<lambda>ev. await (sql (\<lambda>a. deliveries_for_event i)) (\<lambda>ds. ok (ev, ds))"
  have "indist t ushow (\<lambda>db. owns_event t db i) (=) (?h ev) (?h ev)" for ev
    by (rule indist_await_sql [where P = "(=)" and J' = "\<lambda>_ _ _. True", OF lasting_rules(2)])
      (use hanging_reads_alike(1) in \<open>auto intro!: indist_ok\<close>)
  then show "indist t ushow (\<lambda>db. own ev_tenant_id t x \<noteq> None \<longrightarrow> owns_event t db i) (=)
      (case x of None \<Rightarrow> err (NotFound (''event '' @ ad_ushow A i)) | Some ev \<Rightarrow>
         if ev_tenant_id ev \<noteq> t then err (NotFound (''event '' @ ad_ushow A i)) else ?h ev)
      (case y of None \<Rightarrow> err (NotFound (''event '' @ ad_ushow A i)) | Some ev \<Rightarrow>
         if ev_tenant_id ev \<noteq> t then err (NotFound (''event '' @ ad_ushow A i)) else ?h ev)"
    by (rule indist_own [OF _ _ o, rotated]) (auto simp: own_def split: option.split)
qed auto

lemma get_delivery_indist: "indist t ushow (\<lambda>_. True) (=) (get_delivery_detail A t i) (get_delivery_detail A t i)"
  unfolding get_delivery_detail_def await_found own_def [symmetric]
proof (rule indist_respond [where P = "(=)"], rule indist_await_sql [OF lasting_rules(1)], rule reads_alike(6), assumption)
  fix x y :: "delivery option"
  assume o: "own dl_tenant_id t x = own dl_tenant_id t y"
  let ?h = "\<lambda>d. await (sql (\<lambda>a. attempts_for_delivery i)) (\<lambda>as. ok (d, as))"
  have "indist t ushow (\<lambda>db. owns_delivery t db i) (=) (?h d) (?h d)" for d
    by (rule indist_await_sql [where P = "(=)" and J' = "\<lambda>_ _ _. True", OF lasting_rules(3)])
      (use hanging_reads_alike(2) in \<open>auto intro!: indist_ok\<close>)
  then show "indist t ushow (\<lambda>db. own dl_tenant_id t x \<noteq> None \<longrightarrow> owns_delivery t db i) (=)
      (case own dl_tenant_id t x of None \<Rightarrow> err (NotFound (''delivery '' @ ad_ushow A i)) | Some d \<Rightarrow> ?h d)
      (case own dl_tenant_id t y of None \<Rightarrow> err (NotFound (''delivery '' @ ad_ushow A i)) | Some d \<Rightarrow> ?h d)"
    by (rule indist_own [OF _ _ o, rotated]) (auto split: option.split)
qed auto

lemma replay_indist: "indist t ushow (\<lambda>_. True) (=) (replay_delivery A t i) (replay_delivery A t i)"
  unfolding replay_delivery_def require_delivery_def await_assoc await_found
proof (rule indist_respond [where P = "(=)"], rule indist_await_sql [OF lasting_rules(1)], rule reads_alike(6), assumption)
  fix x y :: "delivery option"
  assume o: "own dl_tenant_id t x = own dl_tenant_id t y"
  let ?h = "await (sql (\<lambda>a. reset_for_replay (an_now a) i)) (\<lambda>_. ok ())"
  have "indist t ushow (\<lambda>db. owns_delivery t db i) (=) ?h ?h"
    by (rule indist_await_sql [where P = "\<lambda>_ _. True" and J' = "\<lambda>_ _ _. True", OF lasting_rules(3)])
      (use replay_alike in \<open>auto simp: twin_answers_def intro!: indist_ok\<close>)
  then show "indist t ushow (\<lambda>db. own dl_tenant_id t x \<noteq> None \<longrightarrow> owns_delivery t db i) (=)
      (case x of None \<Rightarrow> err (NotFound (''delivery '' @ ad_ushow A i)) | Some d \<Rightarrow>
         if dl_tenant_id d \<noteq> t then err (NotFound (''delivery '' @ ad_ushow A i)) else ?h)
      (case y of None \<Rightarrow> err (NotFound (''delivery '' @ ad_ushow A i)) | Some d \<Rightarrow>
         if dl_tenant_id d \<noteq> t then err (NotFound (''delivery '' @ ad_ushow A i)) else ?h)"
    by (rule indist_own [OF _ _ o, rotated]) (auto simp: own_def split: option.split)
qed auto

lemma endpoint_indist: "indist t ushow (\<lambda>_. True) (=) (get_endpoint_handler A t i) (get_endpoint_handler A t i)"
  unfolding get_endpoint_handler_def
proof (rule indist_respond [where P = "\<lambda>x y. strip_endpoint x = strip_endpoint y"])
  show "indist t ushow (\<lambda>_. True) (\<lambda>x y. strip_endpoint x = strip_endpoint y)
      (await (sql (\<lambda>a. get_endpoint i)) (\<lambda>found. ok_or_not_found (''endpoint '' @ ad_ushow A i)
         (Option.bind found (\<lambda>e. if ep_tenant_id e = t then Some e else None))))
      (await (sql (\<lambda>a. get_endpoint i)) (\<lambda>found. ok_or_not_found (''endpoint '' @ ad_ushow A i)
         (Option.bind found (\<lambda>e. if ep_tenant_id e = t then Some e else None))))"
    unfolding own_def [symmetric]
    by (rule indist_await_sql [where J' = "\<lambda>_ _ _. True" and
          P = "\<lambda>x y. map_option strip_endpoint (own ep_tenant_id t x) = map_option strip_endpoint (own ep_tenant_id t y)",
          OF lasting_rules(1)])
      (use reads_alike(4) in \<open>auto simp: ok_or_not_found_def split: option.split intro!: indist_ok indist_err\<close>)
qed (metis strip_json(1))

lemma update_indist:
  "indist t ushow (\<lambda>_. True) (=) (update_endpoint_handler A t i url dis tys) (update_endpoint_handler A t i url dis tys)"
  unfolding update_endpoint_handler_def
proof (rule indist_respond [where P = "\<lambda>x y. strip_endpoint x = strip_endpoint y"])
  show "indist t ushow (\<lambda>_. True) (\<lambda>x y. strip_endpoint x = strip_endpoint y)
      (await (sql (\<lambda>a. update_endpoint (an_now a) i t url dis tys)) (ok_or_not_found (''endpoint '' @ ad_ushow A i)))
      (await (sql (\<lambda>a. update_endpoint (an_now a) i t url dis tys)) (ok_or_not_found (''endpoint '' @ ad_ushow A i)))"
    by (rule indist_await_sql [where J' = "\<lambda>_ _ _. True" and
          P = "\<lambda>x y. map_option strip_endpoint x = map_option strip_endpoint y", OF lasting_rules(1)])
      (use patch_alike in \<open>auto simp: ok_or_not_found_def twin_answers_def split: option.split intro!: indist_ok indist_err\<close>)
qed (metis strip_json(1))

lemma endpoints_response_strip: "map strip_endpoint x = map strip_endpoint y \<Longrightarrow> endpoints_response A x = endpoints_response A y"
proof -
  assume "map strip_endpoint x = map strip_endpoint y"
  then have "map (endpoint_json A) (map strip_endpoint x) = map (endpoint_json A) (map strip_endpoint y)" by simp
  then show ?thesis by (simp add: endpoints_response_def comp_def)
qed

lemma sources_response_strip: "map strip_source x = map strip_source y \<Longrightarrow> map (source_json A) x = map (source_json A) y"
proof -
  assume "map strip_source x = map strip_source y"
  then have "map (source_json A) (map strip_source x) = map (source_json A) (map strip_source y)" by simp
  then show ?thesis by (simp add: comp_def)
qed

text \<open>The requests that create nothing.\<close>

fun creates_nothing :: "v1_call \<Rightarrow> bool" where
  "creates_nothing (CreateMessage _ _) = False"
| "creates_nothing (CreateEndpoint _ _ _) = False"
| "creates_nothing (CreateConsumer _ _) = False"
| "creates_nothing (CreateConsumerEndpoint _ _ _ _) = False"
| "creates_nothing (CreateConsumerMessage _ _ _) = False"
| "creates_nothing (CreateInboundSource _ _ _) = False"
| "creates_nothing _ = True"

lemma v1_indist:
  assumes "creates_nothing c"
  shows "indist t ushow (\<lambda>_. True) (=) (v1_handler A c t) (v1_handler A c t)"
proof (cases c)
  case (ListMessages l f)
  show ?thesis
    unfolding ListMessages v1_handler.simps list_messages_def
    by (rule indist_respond [OF indist_sql [where Q = "(=)", OF lasting_rules(1)]]) (auto intro: reads_alike)
next
  case ListEndpoints
  show ?thesis
    unfolding ListEndpoints v1_handler.simps list_endpoints_handler_def
    by (rule indist_respond [OF indist_sql [where Q = "\<lambda>x y. map strip_endpoint x = map strip_endpoint y", OF lasting_rules(1)]])
      (auto intro: reads_alike endpoints_response_strip)
next
  case ListConsumers
  show ?thesis
    unfolding ListConsumers v1_handler.simps list_consumers_handler_def
    by (rule indist_respond [OF indist_sql [where Q = "(=)", OF lasting_rules(1)]]) (auto intro: list_consumers_alike)
next
  case (GetConsumer uid)
  have "indist t ushow (\<lambda>_. True) (=) (await (resolve_consumer t uid) ok) (await (resolve_consumer t uid) ok)"
    by (rule indist_resolve) (rule indist_ok, simp)
  moreover have "await m ok = m" for m :: "consumer io" by (rule ext) (simp add: await_def ok_def split: prod.split sum.split)
  ultimately show ?thesis
    unfolding GetConsumer v1_handler.simps get_consumer_handler_def by (intro indist_respond [where P = "(=)"]) auto
next
  case (ListConsumerEndpoints uid)
  have "indist t ushow (\<lambda>db. in_scope db t (Some c)) (\<lambda>x y. map strip_endpoint x = map strip_endpoint y)
      (sql (\<lambda>a. list_endpoints_for_consumer c)) (sql (\<lambda>a. list_endpoints_for_consumer c))" for c
    by (rule indist_sql [OF lasting_rules(4)]) (rule hanging_reads_alike(3))
  then show ?thesis
    unfolding ListConsumerEndpoints v1_handler.simps list_consumer_endpoints_handler_def
    by (intro indist_respond [where P = "\<lambda>x y. map strip_endpoint x = map strip_endpoint y"] indist_resolve)
      (auto intro: endpoints_response_strip)
next
  case (ListConsumerMessages uid l f)
  have "indist t ushow (\<lambda>db. in_scope db t (Some c)) (=)
      (sql (\<lambda>a. list_events_for_consumer c l f)) (sql (\<lambda>a. list_events_for_consumer c l f))" for c l f
    by (rule indist_sql [OF lasting_rules(4)]) (rule hanging_reads_alike(4))
  then show ?thesis
    unfolding ListConsumerMessages v1_handler.simps list_consumer_messages_handler_def
    by (intro indist_respond [where P = "(=)"] indist_resolve) auto
next
  case ListInboundSources
  show ?thesis
    unfolding ListInboundSources v1_handler.simps list_inbound_sources_handler_def
    by (rule indist_respond [OF indist_sql [where Q = "\<lambda>x y. map strip_source x = map strip_source y", OF lasting_rules(1)]])
      (auto intro: reads_alike dest: sources_response_strip [of _ _ A])
qed (use assms get_message_indist get_delivery_indist replay_indist endpoint_indist update_indist in auto)

text \<open>C3. Tenants cannot see each other, and secrets are never shown again: take two servers with
  databases that satisfy the invariant and agree on the rows of a tenant except for signing secrets, and
  whose concurrent activity looks the same to that tenant. Then every listing, lookup, replay
  and endpoint update of the tenant gets the same response from both, whatever rows the other
  tenants have there, and the databases agree on the tenant's rows afterwards.\<close>

theorem tenants_cannot_see_each_other:
  assumes "creates_nothing c" "alike t (ad_ushow A) (\<lambda>_. True) w1 w2"
  shows "fst (v1_handler A c t w1) = fst (v1_handler A c t w2) \<and>
    tenant_view t (w_db (snd (v1_handler A c t w1))) = tenant_view t (w_db (snd (v1_handler A c t w2)))"
proof -
  have "rel_sum (=) (=) (fst (v1_handler A c t w1)) (fst (v1_handler A c t w2))"
    and "alike t (ad_ushow A) (\<lambda>_. True) (snd (v1_handler A c t w1)) (snd (v1_handler A c t w2))"
    using v1_indist [OF assms(1)] assms(2) unfolding indist_def by blast+
  then show ?thesis by (simp add: sum.rel_eq alike_def looks_same_def)
qed

text \<open>The same endpoint with another secret, next to an endpoint of another tenant.\<close>

definition db_other :: db where
  "db_other = db_a\<lparr>t_endpoints := [sample_endpoint\<lparr>ep_secret := ''other''\<rparr>,
     sample_endpoint\<lparr>ep_id := 8, ep_tenant_id := ''t2''\<rparr>]\<rparr>"

theorem tenants_cannot_see_each_other_witness:
  "fst (v1_handler api0 ListEndpoints ''t1'' (quiet_world 5 (Response 200 None) db_a)) =
   fst (v1_handler api0 ListEndpoints ''t1'' (quiet_world 5 (Response 200 None) db_other))"
proof -
  have "inv ushow0 db_a" "inv ushow0 db_other"
    by (simp_all add: inv_def db_other_def db_a_eq empty_db_def keys_ok_def sample_endpoint_def)
  then have "looks_same ''t1'' ushow0 db_a db_other"
    by (simp add: looks_same_def tenant_view_def db_other_def db_a_eq empty_db_def sample_endpoint_def strip_endpoint_def
        owns_delivery_def)
  then have "alike ''t1'' (ad_ushow api0) (\<lambda>_. True) (quiet_world 5 (Response 200 None) db_a) (quiet_world 5 (Response 200 None) db_other)"
    by (simp add: alike_def quiet_world_def quiet_def twin_answers_def)
  then show ?thesis using tenants_cannot_see_each_other [of ListEndpoints] by simp
qed

section \<open>Integrity\<close>

text \<open>The rows that are not the tenant's, and the histories of deliveries.\<close>

record foreign_rows =
  fr_events :: "event list"
  fr_deliveries :: "delivery list"
  fr_endpoints :: "endpoint list"
  fr_consumers :: "consumer list"
  fr_sources :: "inbound_source list"
  fr_histories :: "delivery_attempt list \<times> dead_letter list \<times> inbound_event list \<times> api_key list"

definition foreign_view :: "string \<Rightarrow> db \<Rightarrow> foreign_rows" where
  "foreign_view t db =
     \<lparr>fr_events = filter (\<lambda>e. ev_tenant_id e \<noteq> t) (t_events db),
      fr_deliveries = filter (\<lambda>d. dl_tenant_id d \<noteq> t) (t_deliveries db),
      fr_endpoints = filter (\<lambda>p. ep_tenant_id p \<noteq> t) (t_endpoints db),
      fr_consumers = filter (\<lambda>c. co_tenant_id c \<noteq> t) (t_consumers db),
      fr_sources = filter (\<lambda>s. is_tenant_id s \<noteq> t) (t_sources db),
      fr_histories = (t_attempts db, t_dead_letters db, t_inbound db, t_api_keys db)\<rparr>"

definition own_step :: "string \<Rightarrow> db \<Rightarrow> db \<Rightarrow> bool" where
  "own_step t db db' \<longleftrightarrow> keys_ok db' \<and> extends db db' \<and> foreign_view t db' = foreign_view t db"

lemma own_steps:
  "rtranclp (own_step t) db db' \<Longrightarrow> keys_ok db \<Longrightarrow> keys_ok db' \<and> extends db db' \<and> foreign_view t db' = foreign_view t db"
  by (induction rule: rtranclp_induct) (auto simp: own_step_def intro: extends_trans)

lemma kept_keys: "kept_by (own_step t) keys_ok"
  using own_steps by (auto simp: kept_by_def)

lemma kept_owner: "kept_by (own_step t) (\<lambda>db. keys_ok db \<and> owns_delivery t db i)"
  using own_steps lasting_rules(3) unfolding kept_by_def lasting_def by blast

lemma update_where_foreign:
  assumes "\<And>r. r \<in> set rows \<Longrightarrow> P r \<Longrightarrow> tenant r = t" "\<And>r. tenant (f r) = tenant r"
  shows "filter (\<lambda>r. tenant r \<noteq> t) (update_where P f rows) = filter (\<lambda>r. tenant r \<noteq> t) rows"
  using assms by (induction rows) (auto simp: update_where_def)

lemma own_writes:
  assumes "keys_ok db"
  shows "owns_delivery t db i \<Longrightarrow> reset_for_replay now i db = Inr (b, db') \<Longrightarrow> own_step t db db'"
    "update_endpoint now i t url dis tys db = Inr (p, db') \<Longrightarrow> own_step t db db'"
    "create_consumer now fresh t uid name db = Inr (c, db') \<Longrightarrow> own_step t db db'"
    "create_endpoint now fresh t co target sec tys db = Inr (p', db') \<Longrightarrow> own_step t db db'"
    "create_inbound_source now fresh t slug prov sec db = Inr (s, db') \<Longrightarrow> own_step t db db'"
    "enqueued ushow now eid ids t co ty payload db db' \<Longrightarrow> own_step t db db'"
proof -
  show "own_step t db db'" if o: "owns_delivery t db i" and u: "reset_for_replay now i db = Inr (b, db')"
  proof -
    have "distinct (map dl_id (t_deliveries db))" using assms by (simp add: keys_ok_def)
    then have "dl_tenant_id d = t" if "d \<in> set (t_deliveries db)" "dl_id d = i" for d
      using o that distinct_keys_unique unfolding owns_delivery_def by metis
    then have "filter (\<lambda>d. dl_tenant_id d \<noteq> t) (update_where (\<lambda>d. dl_id d = i) (replay_row now) (t_deliveries db)) =
        filter (\<lambda>d. dl_tenant_id d \<noteq> t) (t_deliveries db)"
      by (intro update_where_foreign) (auto simp: replay_row_def)
    then show ?thesis
      using u reset_for_replay_keys [OF u assms] reset_for_replay_extends [OF u]
      by (auto simp: own_step_def foreign_view_def reset_for_replay_def Let_def)
  qed
  show "own_step t db db'" if u: "update_endpoint now i t url dis tys db = Inr (p, db')"
  proof -
    have "filter (\<lambda>p. ep_tenant_id p \<noteq> t) (update_where (\<lambda>e. ep_id e = i \<and> ep_tenant_id e = t) (patch_endpoint now url dis tys)
        (t_endpoints db)) = filter (\<lambda>p. ep_tenant_id p \<noteq> t) (t_endpoints db)"
      by (intro update_where_foreign) (auto simp: patch_endpoint_def)
    then show ?thesis
      using u update_endpoint_keys [OF u assms] update_endpoint_extends [OF u]
      by (auto simp: own_step_def foreign_view_def update_endpoint_def Let_def)
  qed
  show "own_step t db db'" if u: "create_consumer now fresh t uid name db = Inr (c, db')"
  proof -
    have "filter (\<lambda>c. co_tenant_id c \<noteq> t) (update_where (\<lambda>c. co_tenant_id c = t \<and> co_uid c = uid) (relabel_consumer now name)
        (t_consumers db)) = filter (\<lambda>c. co_tenant_id c \<noteq> t) (t_consumers db)"
      by (intro update_where_foreign) (auto simp: relabel_consumer_def)
    then show ?thesis
      using u create_consumer_keys [OF u assms] create_consumer_extends [OF u]
      by (auto simp: own_step_def foreign_view_def create_consumer_def unique_violation_def Let_def
          split: option.splits if_splits)
  qed
  show "own_step t db db'" if u: "create_endpoint now fresh t co target sec tys db = Inr (p', db')"
    using u create_endpoint_keys [OF u assms] create_endpoint_extends [OF u]
    by (auto simp: own_step_def foreign_view_def create_endpoint_def unique_violation_def fk_violation_def Let_def split: if_splits)
  show "own_step t db db'" if u: "create_inbound_source now fresh t slug prov sec db = Inr (s, db')"
    using u create_inbound_source_keys [OF u assms] create_inbound_source_extends [OF u]
    by (auto simp: own_step_def foreign_view_def create_inbound_source_def unique_violation_def Let_def split: if_splits)
  show "own_step t db db'" if u: "enqueued ushow now eid ids t co ty payload db db'"
    using enqueued_result [OF u] enqueued_keys [OF u assms] enqueued_extends [OF u]
    by (auto simp: own_step_def foreign_view_def new_delivery_def filter_empty_conv)
qed

lemma own_sql:
  assumes "\<And>a db x db'. keys_ok db \<Longrightarrow> f a db = Inr (x, db') \<Longrightarrow> db' = db \<or> own_step t db db'"
  shows "obeys_from keys_ok (own_step t) (sql f)"
  by (rule obeys_from_sql [OF kept_keys]) (use assms in blast)

lemma own_read:
  assumes "obeys (own_step t) m"
  shows "obeys_from keys_ok (own_step t) m"
  using assms by (rule obeys_from_weaken)

lemma own_sqls [obeys_from_intro]:
  "obeys_from keys_ok (own_step t) (sql (\<lambda>a. update_endpoint (an_now a) i t url dis tys))"
  "obeys_from keys_ok (own_step t) (sql (\<lambda>a. create_consumer (an_now a) (an_uuid a) t uid name))"
  "obeys_from keys_ok (own_step t) (sql (\<lambda>a. create_endpoint (an_now a) (an_uuid a) t co target sec tys'))"
  "obeys_from keys_ok (own_step t) (sql (\<lambda>a. create_inbound_source (an_now a) (an_uuid a) t slug prov sec))"
  by (rule own_sql, blast dest: own_writes)+

lemma own_enqueue [obeys_from_intro]: "obeys_from keys_ok (own_step t) (enqueue_message ushow t co ty p)"
proof (rule obeys_fromI)
  fix w r w'
  assume env: "env_ok (own_step t) w" and k: "keys_ok (w_db w)" and e: "enqueue_message ushow t co ty p w = (r, w')"
  have s: "rtranclp (own_step t) (w_db w) (seen (tick w))" using seen_steps [of "own_step t" "tick w"] env by simp
  then have "keys_ok (seen (tick w))" using own_steps k by blast
  then have "own_step t (seen (tick w)) db'" if "enqueued ushow now eid ids t co ty p (seen (tick w)) db'" for now eid ids db'
    using that by (rule own_writes(6))
  then show "rtranclp (own_step t) (w_db w) (w_db w') \<and> w_env w' = w_env w"
    using enqueue_message_post [OF e] s by (metis rtranclp.rtrancl_into_rtrancl)
qed

lemma own_publish [obeys_from_intro]: "obeys_from keys_ok (own_step t) (publish A t co ty p)"
  unfolding publish_def
  by (rule obeys_from_try [OF kept_keys own_enqueue]) (auto split: sum.split intro!: obeys_from_intro)

lemma own_limited [obeys_from_intro]: "obeys_from P R m \<Longrightarrow> obeys_from P R (limited A t m)"
  unfolding limited_def by (intro obeys_from_intro) (auto split: option.split intro: obeys_from_intro)

lemma own_respond [obeys_from_intro]: "kept_by R P \<Longrightarrow> obeys_from P R m \<Longrightarrow> obeys_from P R (respond m f)"
  unfolding respond_def by (rule obeys_from_try) (auto split: sum.split intro: obeys_from_intro)

lemma own_secret [obeys_from_intro]:
  "(\<And>s. obeys_from P R (k s)) \<Longrightarrow> obeys_from P R (secret_or_generated A sec k)"
  unfolding secret_or_generated_def by (auto split: option.split intro: obeys_from_intro)

text \<open>A replay relies on the delivery it looked up being the tenant's.\<close>

lemma own_replay: "obeys_from keys_ok (own_step t) (replay_delivery A t i)"
proof -
  let ?P = "\<lambda>db. keys_ok db \<and> owns_delivery t db i"
  let ?reset = "await (sql (\<lambda>a. reset_for_replay (an_now a) i)) (\<lambda>_. ok ())"
  let ?k = "\<lambda>d. if dl_tenant_id d \<noteq> t then err (NotFound (''delivery '' @ ad_ushow A i)) else ?reset"
  have "obeys_from ?P (own_step t) (sql (\<lambda>a. reset_for_replay (an_now a) i))"
    by (rule obeys_from_sql [OF kept_owner]) (blast dest: own_writes(1))
  then have reset: "obeys_from ?P (own_step t) ?reset"
    by (intro obeys_from_then kept_owner obeys_from_basic)
  have "obeys_from keys_ok (own_step t) (await (require_delivery (ad_ushow A) i) ?k)"
  proof (rule obeys_fromI)
    fix w r w'
    assume env: "env_ok (own_step t) w" and k: "keys_ok (w_db w)"
      and run: "await (require_delivery (ad_ushow A) i) ?k w = (r, w')"
    obtain x w1 where x: "require_delivery (ad_ushow A) i w = (x, w1)" by (rule prod.exhaust)
    have s1: "rtranclp (own_step t) (w_db w) (w_db w1) \<and> w_env w1 = w_env w" by (rule obeysD [OF require_obeys x env])
    then have k1: "keys_ok (w_db w1)" "env_ok (own_step t) w1" using own_steps k env env_ok_cong by blast+
    show "rtranclp (own_step t) (w_db w) (w_db w') \<and> w_env w' = w_env w"
    proof (cases "\<exists>d. x = Inr d \<and> dl_tenant_id d = t")
      case False
      then show ?thesis using run x s1 by (cases x) (auto simp: await_def err_def)
    next
      case True
      then obtain d where d: "x = Inr d" "dl_tenant_id d = t" by blast
      have "wp (require_delivery (ad_ushow A) i) (\<lambda>r w'. \<forall>d. r = Inr d \<longrightarrow> d \<in> set (t_deliveries (w_db w')) \<and> dl_id d = i) w"
        unfolding require_delivery_def
        by (rule wp_await_sql) (auto simp: get_delivery_def ok_or_not_found_def wp_rules split: option.split dest!: find_SomeD)
      from wpD [OF this x] have "owns_delivery t (w_db w1) i" using d by (auto simp: owns_delivery_def)
      with k1 have P: "?P (w_db w1)" by simp
      have "?reset w1 = (r, w')" using run x d by (simp add: await_def)
      from obeys_fromD [OF reset k1(2) P this] s1 show ?thesis by (auto intro: rtranclp_trans)
    qed
  qed
  then show ?thesis unfolding replay_delivery_def by (rule own_respond [OF kept_keys])
qed

lemma own_resolve [obeys_from_intro]: "obeys_from P R (resolve_consumer t uid)"
  by (rule obeys_from_weaken [OF resolve_obeys])

lemma own_found [obeys_from_intro]: "obeys_from P R (ok_or_not_found s x)"
  by (rule obeys_from_weaken [OF found_obeys])

lemmas write_handler_defs = create_message_def create_consumer_message_handler_def create_endpoint_handler_def
  create_consumer_endpoint_handler_def create_endpoint_for_def create_consumer_handler_def update_endpoint_handler_def
  create_inbound_source_handler_def

lemma own_v1: "obeys_from keys_ok (own_step t) (v1_handler A c t)"
proof (cases "creates_nothing c \<and> (\<nexists>i url dis tys. c = UpdateEndpoint i url dis tys)")
  case False
  then show ?thesis
    by (cases c)
      (auto simp: write_handler_defs kept_keys split: sum.split option.split intro!: obeys_from_intro)
next
  case True
  show ?thesis
  proof (cases c)
    case (ReplayDelivery i)
    then show ?thesis using own_replay by simp
  qed (use True in \<open>auto simp: handler_defs intro!: obeys_from_weaken obeys_intro\<close>)
qed

text \<open>C4. Tenants cannot touch each other: as long as nobody else changes the rows of other tenants, a
  request of a tenant, on whatever ids it names, leaves every event, delivery, endpoint,
  consumer and inbound source of every other tenant exactly as it was, and adds nothing to the
  attempts, dead letters, inbound events and API keys.\<close>

theorem tenants_cannot_touch_each_other:
  assumes "env_ok (own_step t) w" "keys_ok (w_db w)" "v1_handler A c t w = (r, w')"
  shows "foreign_view t (w_db w') = foreign_view t (w_db w)"
  using own_steps [OF _ assms(2)] obeys_fromD [OF own_v1 assms] by blast

theorem tenants_cannot_touch_each_other_witness:
  "foreign_view ''t2'' (w_db (snd (v1_handler api0 (UpdateEndpoint 7 (Some ''http://evil'') (Some True) None) ''t2'' world_k))) =
     foreign_view ''t2'' (w_db world_k)"
proof -
  have "env_ok (own_step ''t2'') world_k" by (simp add: world_k_def)
  moreover have "keys_ok (w_db world_k)" using run_keys [OF run_k] by simp
  ultimately show ?thesis by (rule tenants_cannot_touch_each_other [OF _ _ surjective_pairing])
qed

end
