(* ===== verification/Lease_Queue.thy ===== *)
theory Lease_Queue
  imports Queue
begin

text \<open>
  The contract of the queue, and that the database implements it. The abstract lease queue maps
  job ids to jobs that are ready from some time on, leased to a worker until some time, done or
  buried; its steps add ready jobs, lease available ones, let the holder of a running lease
  settle it, and put a job back. \<open>jobs\<close> reads such a queue off the deliveries table. The
  locale states what a step-by-step refinement is and what it gives; its interpretation shows
  that every transaction of the system is a step of the abstract queue.
\<close>

section \<open>Refinement of labelled steps\<close>

fun path :: "('l \<Rightarrow> 's \<Rightarrow> 's \<Rightarrow> bool) \<Rightarrow> 's \<Rightarrow> 'l list \<Rightarrow> 's \<Rightarrow> bool" where
  "path step s [] s' \<longleftrightarrow> s' = s"
| "path step s (l # ls) s' \<longleftrightarrow> (\<exists>s1. step l s s1 \<and> path step s1 ls s')"

lemma path_snoc: "path step s ls s1 \<Longrightarrow> step l s1 s' \<Longrightarrow> path step s (ls @ [l]) s'"
  by (induction ls arbitrary: s) auto

locale step_refinement =
  fixes cstep :: "'l \<Rightarrow> 'c \<Rightarrow> 'c \<Rightarrow> bool" and astep :: "'l \<Rightarrow> 'a \<Rightarrow> 'a \<Rightarrow> bool"
    and abstract :: "'c \<Rightarrow> 'a" and good :: "'c \<Rightarrow> bool"
  assumes good_step: "cstep l s s' \<Longrightarrow> good s \<Longrightarrow> good s'"
    and simulates: "cstep l s s' \<Longrightarrow> good s \<Longrightarrow> astep l (abstract s) (abstract s')"
begin

lemma paths_refine: "path cstep s ls s' \<Longrightarrow> good s \<Longrightarrow> path astep (abstract s) ls (abstract s') \<and> good s'"
  by (induction ls arbitrary: s) (auto intro: good_step simulates)

text \<open>What the abstract steps with given labels keep holds along the concrete runs.\<close>

lemma kept_along:
  assumes "\<And>l a a'. astep l a a' \<Longrightarrow> allowed l \<Longrightarrow> holds a \<Longrightarrow> holds a'"
    and "path cstep s ls s'" "good s" "list_all allowed ls" "holds (abstract s)"
  shows "holds (abstract s')"
  using assms(2-)
proof (induction ls arbitrary: s)
  case (Cons l ls)
  then obtain s1 where "cstep l s s1" "path cstep s1 ls s'" by auto
  with Cons.prems show ?case
    by (intro Cons.IH [of s1]) (auto intro: good_step assms(1) [OF simulates])
qed simp

end

section \<open>The abstract queue\<close>

datatype job = Ready timestamp | Leased string timestamp | Done | Buried

type_synonym jobs = "uuid \<rightharpoonup> job"

fun available :: "timestamp \<Rightarrow> job \<Rightarrow> bool" where
  "available now (Ready t) \<longleftrightarrow> t \<le> now"
| "available now (Leased worker u) \<longleftrightarrow> u < now"
| "available now j \<longleftrightarrow> False"

fun is_leased :: "job \<Rightarrow> bool" where
  "is_leased (Leased worker u) = True"
| "is_leased j = False"

inductive job_step :: "act \<Rightarrow> jobs \<Rightarrow> jobs \<Rightarrow> bool" where
  add: "l = Enqueue e \<or> l = Accept e \<Longrightarrow> set ids \<inter> dom q = {} \<Longrightarrow>
    job_step l q (\<lambda>i. if i \<in> set ids then Some (Ready now) else q i)"
| take: "(\<And>i. i \<in> S \<Longrightarrow> \<exists>j. q i = Some j \<and> available now j) \<Longrightarrow>
    job_step (Claim now worker) q (\<lambda>i. if i \<in> S then Some (Leased worker u) else q i)"
| settle: "q i = Some (Leased worker u) \<Longrightarrow> now < u \<Longrightarrow> \<not> is_leased j \<Longrightarrow> job_step (Release worker i) q (q(i \<mapsto> j))"
| lost: "job_step (Release worker i) q q"
| requeue: "i \<in> dom q \<Longrightarrow> job_step (Replay i) q (q(i \<mapsto> Ready now))"
| unknown: "i \<notin> dom q \<Longrightarrow> job_step (Replay i) q q"
| probe: "job_step (Probing now p) q q"
| manage: "job_step Manage q q"

section \<open>Reading the queue off the table\<close>

definition job_of :: "delivery \<Rightarrow> job" where
  "job_of d =
     (if dl_status d = ''in_progress''
      then Leased (case dl_locked_by d of Some w \<Rightarrow> w | None \<Rightarrow> '''') (case dl_locked_until d of Some u \<Rightarrow> u | None \<Rightarrow> 0)
      else if dl_status d = ''succeeded'' then Done
      else if dl_status d = ''dead'' then Buried
      else Ready (dl_next_attempt_at d))"

definition find_row :: "uuid \<Rightarrow> delivery list \<Rightarrow> delivery option" where
  "find_row i rows = List.find (\<lambda>d. dl_id d = i) rows"

definition jobs :: "db \<Rightarrow> jobs" where
  "jobs db i = map_option job_of (find_row i (t_deliveries db))"

lemma find_row_update:
  assumes "\<And>d. dl_id (f d) = dl_id d"
  shows "find_row i (update_where P f rows) = map_option (\<lambda>d. if P d then f d else d) (find_row i rows)"
  using assms by (induction rows) (auto simp: find_row_def update_where_def)

lemma find_row_append: "find_row i (xs @ ys) = (case find_row i xs of Some d \<Rightarrow> Some d | None \<Rightarrow> find_row i ys)"
  by (induction xs) (auto simp: find_row_def)

lemma find_row_SomeD: "find_row i rows = Some d \<Longrightarrow> d \<in> set rows \<and> dl_id d = i"
  by (auto simp: find_row_def find_Some_iff)

lemma find_row_None: "find_row i rows = None \<longleftrightarrow> i \<notin> dl_id ` set rows"
  by (auto simp: find_row_def find_None_iff)

lemma identity_id: "dl_identity d' = dl_identity d \<Longrightarrow> dl_id d' = dl_id d"
  by (simp add: dl_identity_def)

lemma job_of_rows [simp]:
  "job_of (claim_row now worker lock d) = Leased worker (now + seconds lock)"
  "job_of (succeeded_row now n d) = Done" "job_of (failed_row now n nxt er d) = Ready nxt"
  "job_of (deferred_row now nxt d) = Ready nxt" "job_of (dead_row now er d) = Buried"
  "job_of (replay_row now d) = Ready now" "job_of (new_delivery ushow now did e p t) = Ready now"
  by (simp_all add: job_of_def row_defs new_delivery_def)

lemma claim_row_id: "dl_id (claim_row now worker lock d) = dl_id d"
  by (simp add: claim_row_def)

lemma due_available: "due now d \<Longrightarrow> available now (job_of d)"
  by (auto simp: due_def job_of_def split: option.splits)

lemma holder_job: "lock_ok d \<Longrightarrow> holds_lease now worker d \<Longrightarrow> \<exists>u. job_of d = Leased worker u \<and> now < u"
  by (auto simp: holds_lease_def job_of_def lock_ok_def split: option.splits)

section \<open>Every transaction is a step of the queue\<close>

lemma jobs_cong: "t_deliveries db' = t_deliveries db \<Longrightarrow> jobs db' = jobs db"
  by (rule ext) (simp add: jobs_def)

lemma inv_lock_ok: "inv ushow db \<Longrightarrow> find_row i (t_deliveries db) = Some d \<Longrightarrow> lock_ok d"
  using find_row_SomeD by (fastforce simp: inv_def delivery_ok_def)

lemma enqueue_jobs:
  assumes "enqueued ushow now e ds t c ty p db db'" "keys_ok db'" "l = Enqueue x \<or> l = Accept x"
  shows "job_step l (jobs db) (jobs db')"
proof -
  let ?new = "map (\<lambda>(did, ep). new_delivery ushow now did e (ep_id ep) t) (zip ds (recipients t c ty db))"
  have res: "t_deliveries db' = t_deliveries db @ ?new" "length ds = length (recipients t c ty db)"
    using enqueued_result [OF assms(1)] by auto
  have ids: "map dl_id ?new = ds"
  proof -
    have "map dl_id ?new = map fst (zip ds (recipients t c ty db))" by (auto simp: new_delivery_def)
    then show ?thesis using res(2) by simp
  qed
  have dom_new: "dl_id ` set ?new = set ds" using arg_cong [OF ids, of set] by (simp only: set_map)
  have "distinct (map dl_id (t_deliveries db'))" using assms(2) by (simp add: keys_ok_def)
  moreover have "map dl_id (t_deliveries db') = map dl_id (t_deliveries db) @ ds"
    unfolding res(1) map_append ids by (rule refl)
  ultimately have disj: "set ds \<inter> dl_id ` set (t_deliveries db) = {}"
    by (simp only: distinct_append set_map Int_commute)
  have new: "map_option job_of (find_row i ?new) = (if i \<in> set ds then Some (Ready now) else None)" for i
  proof (cases "i \<in> set ds")
    case True
    then have "find_row i ?new \<noteq> None" by (simp only: find_row_None dom_new not_not)
    then obtain d where d: "find_row i ?new = Some d" unfolding not_None_eq ..
    then have "job_of d = Ready now" using find_row_SomeD [OF d] by auto
    with d True show ?thesis by simp
  next
    case False
    have "find_row i ?new = None" using False by (simp only: find_row_None dom_new not_False_eq_True)
    then show ?thesis using False by simp
  qed
  have after: "jobs db' = (\<lambda>i. if i \<in> set ds then Some (Ready now) else jobs db i)"
  proof (rule ext)
    fix i
    show "jobs db' i = (if i \<in> set ds then Some (Ready now) else jobs db i)"
    proof (cases "find_row i (t_deliveries db)")
      case None
      then show ?thesis using new [of i] by (simp add: jobs_def res(1) find_row_append)
    next
      case (Some d)
      then have "i \<notin> set ds" using disj find_row_SomeD [OF Some] by auto
      with Some show ?thesis by (simp add: jobs_def res(1) find_row_append)
    qed
  qed
  have "set ds \<inter> dom (jobs db) = {}"
    using disj find_row_SomeD by (fastforce simp: jobs_def)
  then show ?thesis unfolding after by (rule job_step.add [OF assms(3)])
qed

lemma lease_update_jobs:
  assumes "lease_update now did worker f db = (k, db1)" "inv ushow db"
    and "\<And>d. dl_identity (f d) = dl_identity d" "\<And>d. \<not> is_leased (job_of (f d))"
    and "t_deliveries db' = t_deliveries db1"
  shows "job_step (Release worker did) (jobs db) (jobs db')"
proof -
  have rows: "t_deliveries db' = update_where (\<lambda>d. dl_id d = did \<and> holds_lease now worker d) f (t_deliveries db)"
    using assms(1,5) by (auto simp: lease_update_def Let_def)
  have jobs': "jobs db' i = map_option (\<lambda>d. job_of (if dl_id d = did \<and> holds_lease now worker d then f d else d))
      (find_row i (t_deliveries db))" for i
    unfolding jobs_def rows by (subst find_row_update) (auto simp: identity_id [OF assms(3)] option.map_comp comp_def)
  show ?thesis
  proof (cases "\<exists>d. find_row did (t_deliveries db) = Some d \<and> holds_lease now worker d")
    case True
    then obtain d where d: "find_row did (t_deliveries db) = Some d" "holds_lease now worker d" by blast
    obtain u where u: "job_of d = Leased worker u" "now < u"
      using holder_job inv_lock_ok [OF assms(2) d(1)] d(2) by blast
    have "jobs db' = (jobs db)(did \<mapsto> job_of (f d))"
    proof (rule ext)
      fix i
      show "jobs db' i = ((jobs db)(did \<mapsto> job_of (f d))) i"
      proof (cases "i = did")
        case True
        then show ?thesis using d find_row_SomeD [OF d(1)] by (simp add: jobs')
      next
        case False
        then have "dl_id r \<noteq> did" if "find_row i (t_deliveries db) = Some r" for r using find_row_SomeD [OF that] by simp
        with False show ?thesis 
          unfolding jobs' by (cases "find_row i (t_deliveries db)") (simp_all add: jobs_def)
      qed
    qed
    then show ?thesis using job_step.settle [of "jobs db" did worker u now] d u assms(4) by (simp add: jobs_def)
  next
    case False
    have "jobs db' i = jobs db i" for i
    proof (cases "find_row i (t_deliveries db)")
      case (Some r)
      with False have "(dl_id r = did \<and> holds_lease now worker r) = False" using find_row_SomeD [OF Some] by auto
      with Some show ?thesis unfolding jobs' by (auto simp: jobs_def)
    next
      case None
      then show ?thesis unfolding jobs' by (simp add: jobs_def)
    qed
    then have "jobs db' = jobs db" by blast
    then show ?thesis by (simp add: job_step.lost)
  qed
qed

lemma claim_jobs:
  assumes "claim_due_deliveries now locked worker batch lock db = Inr (rows, db')" "inv ushow db"
  shows "job_step (Claim now worker) (jobs db) (jobs db')"
proof -
  let ?S = "set (map dl_id (claimable now locked batch (t_deliveries db)))"
  have rows: "t_deliveries db' = update_where (\<lambda>d. dl_id d \<in> ?S) (claim_row now worker lock) (t_deliveries db)"
    using assms(1) by (auto simp: claim_due_deliveries_def Let_def split: if_splits)
  have keys: "distinct (map dl_id (t_deliveries db))" using assms(2) by (simp add: inv_def keys_ok_def)
  have due: "due now d" if "dl_id d \<in> ?S" and row: "d \<in> set (t_deliveries db)" for d
  proof -
    from \<open>dl_id d \<in> ?S\<close> obtain c where "c \<in> set (claimable now locked batch (t_deliveries db))" "dl_id d = dl_id c"
      by (metis (no_types, lifting) imageE set_map)
    then show ?thesis
      using row keys distinct_keys_unique [of dl_id "t_deliveries db" c d]
      by (auto simp: claimable_def dest!: in_set_takeD)
  qed
  have "jobs db' = (\<lambda>i. if i \<in> ?S \<and> i \<in> dom (jobs db) then Some (Leased worker (now + seconds lock)) else jobs db i)"
  proof (rule ext)
    fix i
    show "jobs db' i = (if i \<in> ?S \<and> i \<in> dom (jobs db) then Some (Leased worker (now + seconds lock)) else jobs db i)"
    proof (cases "find_row i (t_deliveries db)")
      case None
      then show ?thesis unfolding jobs_def rows by (simp add: find_row_update claim_row_id dom_def jobs_def)
    next
      case (Some d)
      then have "dl_id d = i" using find_row_SomeD by blast
      with Some have "jobs db' i = Some (if i \<in> ?S then Leased worker (now + seconds lock) else job_of d)"
        unfolding jobs_def rows by (simp add: find_row_update claim_row_id)
      moreover have "jobs db i = Some (job_of d)" using Some by (simp add: jobs_def)
      ultimately show ?thesis by (simp add: dom_def)
    qed
  qed
  moreover have "\<exists>j. jobs db i = Some j \<and> available now j" if "i \<in> {i. i \<in> ?S \<and> i \<in> dom (jobs db)}" for i
  proof -
    from that obtain d where d: "find_row i (t_deliveries db) = Some d" by (auto simp: jobs_def)
    then have "due now d" using due that find_row_SomeD by blast
    then show ?thesis using due_available d by (simp add: jobs_def)
  qed
  ultimately show ?thesis
    using job_step.take [of "{i. i \<in> ?S \<and> i \<in> dom (jobs db)}" "jobs db" now worker "now + seconds lock"] by simp
qed

lemma dead_jobs:
  assumes "mark_dead_on now fresh v worker reason db = Inr (True, db1)" "inv ushow db"
    and "t_deliveries db' = t_deliveries db1"
  shows "job_step (Release worker (dl_id v)) (jobs db) (jobs db')"
proof -
  obtain k db0 where "lease_update now (dl_id v) worker (dead_row now reason) db = (k, db0)"
    "t_deliveries db1 = t_deliveries db0"
    using mark_dead_on_result [OF assms(1)] by auto
  with assms show ?thesis by (intro lease_update_jobs [of now _ worker "dead_row now reason" db k db0 ushow]) auto
qed

lemma replay_jobs:
  assumes "reset_for_replay now did db = Inr (found, db')"
  shows "job_step (Replay did) (jobs db) (jobs db')"
proof -
  have rows: "t_deliveries db' = update_where (\<lambda>d. dl_id d = did) (replay_row now) (t_deliveries db)"
    using assms by (auto simp: reset_for_replay_def Let_def)
  have jobs': "jobs db' i = map_option (\<lambda>d. if dl_id d = did then Ready now else job_of d) (find_row i (t_deliveries db))" for i
    unfolding jobs_def rows
    by (subst find_row_update) (auto simp: option.map_comp comp_def identity_id [OF identity_rows(6)] intro!: option.map_cong)
  have elsewhere: "jobs db' i = jobs db i" if "i \<noteq> did" for i
    using that find_row_SomeD [of i "t_deliveries db"] unfolding jobs'
    by (cases "find_row i (t_deliveries db)") (simp_all add: jobs_def)
  show ?thesis
  proof (cases "find_row did (t_deliveries db)")
    case None
    then have "jobs db' did = jobs db did" "did \<notin> dom (jobs db)" unfolding jobs' by (simp_all add: jobs_def dom_def)
    with elsewhere have "jobs db' = jobs db" by (metis ext)
    with \<open>did \<notin> dom (jobs db)\<close> show ?thesis by (simp add: job_step.unknown)
  next
    case (Some d)
    then have "jobs db' did = Some (Ready now)" using find_row_SomeD [OF Some] unfolding jobs' by simp
    with elsewhere have "jobs db' = (jobs db)(did \<mapsto> Ready now)" by (auto simp: fun_upd_def)
    moreover have "did \<in> dom (jobs db)" using Some by (simp add: jobs_def dom_def)
    ultimately show ?thesis by (simp add: job_step.requeue)
  qed
qed

lemma accept_jobs:
  assumes 1: "insert_inbound_event now iid sid t seid ty raw db = Inr (Some iid, db1)"
    and 2: "enqueued ushow now e ds t None ty p db1 db2"
    and 3: "link_inbound_event iid e db2 = Inr ((), db')" and k: "keys_ok db"
  shows "job_step (Accept iid) (jobs db) (jobs db')"
proof -
  have "t_deliveries db1 = t_deliveries db"
    using 1 by (auto simp: insert_inbound_event_def unique_violation_def fk_violation_def Let_def split: if_splits)
  then have q: "jobs db1 = jobs db" by (rule jobs_cong)
  have "t_deliveries db' = t_deliveries db2"
    using 3 by (auto simp: link_inbound_event_def fk_violation_def split: if_splits)
  then have q': "jobs db' = jobs db2" by (rule jobs_cong)
  have "keys_ok db2" using k 1 2 by (blast dest: keys_intro)
  from enqueue_jobs [OF 2 this] show ?thesis unfolding q q' by blast
qed

lemma manage_rows:
  "create_endpoint now fresh tenant consumer url secret tys db = Inr (p, db') \<Longrightarrow> t_deliveries db' = t_deliveries db"
  "create_consumer now fresh tenant uid name db = Inr (c, db') \<Longrightarrow> t_deliveries db' = t_deliveries db"
  "update_endpoint now pid tenant url2 dis tys2 db = Inr (po, db') \<Longrightarrow> t_deliveries db' = t_deliveries db"
  "create_inbound_source now fresh tenant slug prov secret db = Inr (s, db') \<Longrightarrow> t_deliveries db' = t_deliveries db"
  "insert_api_key now fresh tenant hash db = Inr ((), db') \<Longrightarrow> t_deliveries db' = t_deliveries db"
  "try_acquire_probe now pid lease db = Inr (won, db') \<Longrightarrow> t_deliveries db' = t_deliveries db"
  by (auto simp: create_endpoint_def create_consumer_def update_endpoint_def create_inbound_source_def
      insert_api_key_def try_acquire_probe_def unique_violation_def fk_violation_def Let_def
      split: if_splits option.splits)

lemma step_jobs: "db_step ushow a db db' \<Longrightarrow> inv ushow db \<Longrightarrow> job_step a (jobs db) (jobs db')"
proof (induction rule: db_step.induct)
  case (enqueue db tenant consumer now eid dids ty payload db')
  then have "keys_ok db'" by (auto simp: inv_def dest: keys_intro)
  with enqueue(2) show ?case by (rule enqueue_jobs) simp
next
  case (accept now iid src sid ty raw db db1 eid dids payload db2 db')
  then show ?case by (intro accept_jobs) (auto simp: inv_def)
next
  case (claim now locked worker batch lock db rows db')
  then show ?case by (rule claim_jobs)
next
  case (defers now did worker nxt db applied db')
  then obtain k where "lease_update now did worker (deferred_row now nxt) db = (k, db')"
    using defer_delivery_result by blast
  then show ?case using defers(2) by (rule lease_update_jobs) simp_all
next
  case (dead now fresh v worker reason db db')
  then show ?case by (rule dead_jobs) simp
next
  case (success fresh did n code snip t1 t2 db db1 now worker db2 u pid db')
  have q: "jobs db1 = jobs db" using record_attempt_result [OF success(1)] by (intro jobs_cong) simp
  obtain k where k: "lease_update now did worker (succeeded_row now n) db1 = (k, db2)"
    using mark_succeeded_result [OF success(3)] by blast
  have "job_step (Release worker did) (jobs db1) (jobs db')"
    by (rule lease_update_jobs [OF k record_attempt_inv [OF success(1,6)]])
      (use update_circuit_result [OF success(5)] in simp_all)
  then show ?case unfolding q .
next
  case (retry fresh did n code snip er t1 t2 db db1 now worker nxt db2 u p policy t3 pid db')
  have q: "jobs db1 = jobs db" using record_attempt_result [OF retry(1)] by (intro jobs_cong) simp
  obtain k where k: "lease_update now did worker (failed_row now n nxt er) db1 = (k, db2)"
    using mark_failed_result [OF retry(2)] by blast
  have "job_step (Release worker did) (jobs db1) (jobs db')"
    by (rule lease_update_jobs [OF k record_attempt_inv [OF retry(1,5)]])
      (use update_circuit_result [OF retry(4)] in simp_all)
  then show ?case unfolding q .
next
  case (exhaust fresh v n code snip er t1 t2 db db1 now fresh2 worker db2 u p policy t3 pid db')
  have q: "jobs db1 = jobs db" using record_attempt_result [OF exhaust(1)] by (intro jobs_cong) simp
  have "job_step (Release worker (dl_id v)) (jobs db1) (jobs db')"
    by (rule dead_jobs [OF exhaust(2) record_attempt_inv [OF exhaust(1,5)]])
      (use update_circuit_result [OF exhaust(4)] in simp)
  then show ?case unfolding q .
next
  case (probe now pid lease db won db')
  then have "jobs db' = jobs db" by (intro jobs_cong manage_rows)
  then show ?case by (simp add: job_step.probe)
next
  case (replay now did db found db')
  then show ?case by (intro replay_jobs)
qed (drule manage_rows jobs_cong, drule jobs_cong, simp add: job_step.manage)+

interpretation queue_refinement: step_refinement "db_step ushow" job_step jobs "inv ushow" for ushow
  by unfold_locales (fact step_inv, fact step_jobs)

section \<open>The refinement\<close>

lemma run_path: "run ushow as db db' \<Longrightarrow> path (db_step ushow) db as db'"
  by (induction rule: run.induct) (auto intro: path_snoc)

text \<open>C7. The database implements the abstract lease queue: every run of the system from the
  empty database, whatever its transactions and their order, is a run of the abstract queue with
  the same labels, from the empty queue to the queue the deliveries table stands for. In the
  abstract queue only available jobs are leased, only the holder of a lease that has not run out
  settles its job, and no other step touches a job but the replay that puts it back.\<close>

theorem queue_refines_lease_queue:
  assumes "run ushow as empty_db db"
  shows "path job_step Map.empty as (jobs db)"
proof -
  have "jobs empty_db = Map.empty" by (rule ext) (simp add: jobs_def find_row_def empty_db_def)
  then show ?thesis using queue_refinement.paths_refine [OF run_path [OF assms]] by simp
qed

theorem queue_refines_lease_queue_witness:
  "path job_step Map.empty [Manage, Enqueue 3, Claim 10 ''worker-0''] (jobs db_c) \<and>
   jobs db_c 1 = Some (Leased ''worker-0'' (10 + seconds 30))"
  using queue_refines_lease_queue [OF run_abc]
  by (simp add: jobs_def find_row_def db_c_eq db_b_def claim_row_id new_delivery_def)

definition finished :: "job \<Rightarrow> bool" where
  "finished j \<longleftrightarrow> j = Done \<or> j = Buried"

lemma step_keeps_finished:
  "job_step l q q' \<Longrightarrow> l \<noteq> Replay i \<Longrightarrow> q i = Some j \<Longrightarrow> finished j \<Longrightarrow> q' i = Some j"
proof (induction rule: job_step.induct)
  case (take S q now worker u)
  have "i \<notin> S" using take(1) [of i] take(3,4) by (auto simp: finished_def)
  with take(3) show ?case by simp
qed (auto simp: finished_def)

lemma finished_job: "finished (job_of d) \<longleftrightarrow> dl_status d \<in> {''succeeded'', ''dead''}"
  by (auto simp: finished_def job_of_def)

text \<open>What is finished stays finished: once a delivery has succeeded or is dead, no
  transaction of any worker or request changes its status, until the run contains a replay of
  that very delivery.\<close>

theorem finished_stays_finished:
  assumes "run ushow as0 empty_db db" "run ushow as db db'" "d \<in> set (t_deliveries db)"
    and "dl_status d \<in> {''succeeded'', ''dead''}" "Replay (dl_id d) \<notin> set as"
  shows "\<exists>d'\<in>set (t_deliveries db'). dl_id d' = dl_id d \<and> dl_status d' = dl_status d"
proof -
  have inv: "inv ushow db" using assms(1) by (rule reachable_inv)
  then have keys: "distinct (map dl_id (t_deliveries db))" by (simp add: inv_def keys_ok_def)
  obtain r where r: "find_row (dl_id d) (t_deliveries db) = Some r"
    using assms(3) find_row_None [of "dl_id d" "t_deliveries db"] by auto
  then have "r = d" using find_row_SomeD [OF r] distinct_keys_unique [OF keys _ assms(3)] by blast
  with r have now: "jobs db (dl_id d) = Some (job_of d)" by (simp add: jobs_def)
  have fin: "finished (job_of d)" using assms(4) by (simp add: finished_job)
  have "jobs db' (dl_id d) = Some (job_of d)"
  proof (rule queue_refinement.kept_along [where allowed = "\<lambda>l. l \<noteq> Replay (dl_id d)" and
        holds = "\<lambda>q. q (dl_id d) = Some (job_of d)", OF _ run_path [OF assms(2)] inv _ now])
    show "list_all (\<lambda>l. l \<noteq> Replay (dl_id d)) as" using assms(5) by (auto simp: list_all_iff)
  qed (rule step_keeps_finished [OF _ _ _ fin])
  then obtain d' where d': "find_row (dl_id d) (t_deliveries db') = Some d'" "job_of d' = job_of d"
    by (auto simp: jobs_def)
  then have "dl_status d' = dl_status d" using assms(4) by (auto simp: job_of_def split: if_splits)
  with find_row_SomeD [OF d'(1)] show ?thesis by blast
qed

definition db_dead :: db where
  "db_dead = snd (projr (mark_dead_on 12 9 (new_delivery ushow0 5 1 3 7 ''t1'') ''worker-0'' ''gone'' db_c))"

definition dead_delivery :: delivery where
  "dead_delivery = dead_row 12 ''gone'' (claim_row 10 ''worker-0'' 30 (new_delivery ushow0 5 1 3 7 ''t1''))"

lemma mark_dead_c:
  "mark_dead_on 12 9 (new_delivery ushow0 5 1 3 7 ''t1'') ''worker-0'' ''gone'' db_c = Inr (True, db_dead)"
  "t_deliveries db_dead = [dead_delivery]"
  by (simp_all add: db_dead_def dead_delivery_def db_c_eq db_b_def db_a_eq empty_db_def mark_dead_on_def lease_update_def
      holds_lease_def claim_row_def new_delivery_def seconds_def dead_row_def Let_def)

lemma run_dead: "run ushow0 ([Manage, Enqueue 3, Claim 10 ''worker-0''] @ [Release ''worker-0'' 1]) empty_db db_dead"
  using run.snoc [OF run_abc db_step.dead [OF mark_dead_c(1)]] by (simp add: new_delivery_def)

theorem finished_stays_finished_witness:
  "\<exists>db'. run ushow0 [Claim 99000000 ''worker-1''] db_dead db' \<and>
     (\<exists>d'\<in>set (t_deliveries db'). dl_id d' = 1 \<and> dl_status d' = ''dead'')"
proof -
  obtain rows db' where "claim_due_deliveries 99000000 (\<lambda>_. False) ''worker-1'' 32 30 db_dead = Inr (rows, db')"
    by (simp add: claim_due_deliveries_def Let_def)
  then have later: "run ushow0 [Claim 99000000 ''worker-1''] db_dead db'"
    using run.snoc [OF run.nil db_step.claim] by fastforce
  have d: "dead_delivery \<in> set (t_deliveries db_dead)" by (simp add: mark_dead_c)
  have "dl_id dead_delivery = 1" "dl_status dead_delivery = ''dead''"
    by (simp_all add: dead_delivery_def dead_row_def claim_row_def new_delivery_def)
  with finished_stays_finished [OF run_dead later d] later show ?thesis by auto
qed

end
