(* ===== verification/Progress.thy ===== *)
theory Progress
  imports Dispatcher
begin

text \<open>
  Progress of the dispatcher. The other theories show what no fault and no interleaving can
  break; here nothing goes wrong for a while: no connection fault, no other activity, no
  shutdown, receivers that answer 2xx with a body the database can store, fresh ids, and clocks
  within the lease. Then a turn of the worker loop claims, sends and settles: every delivery it
  claimed, if it can be sent, has succeeded, with one request each and a recorded 2xx attempt.
\<close>

section \<open>A calm environment\<close>

definition calm_answer :: "timestamp \<Rightarrow> answer \<Rightarrow> bool" where
  "calm_answer until a \<longleftrightarrow>
     an_fault a = No_fault \<and> an_others a = id \<and> an_now a < until \<and> \<not> an_flag a \<and> an_locked a = (\<lambda>_. False) \<and>
     (case an_http a of
        Response code text \<Rightarrow> is_success code \<and> text_ok (truncate_bytes (coalesce text '''') response_snippet_len)
      | Send_error e \<Rightarrow> False)"

text \<open>The interactions from the present one up to the horizon are calm, and their ids are new.\<close>

definition calm :: "timestamp \<Rightarrow> nat \<Rightarrow> world \<Rightarrow> bool" where
  "calm until horizon w \<longleftrightarrow>
     (\<forall>n\<in>{w_pos w..<horizon}. calm_answer until (w_env w n)) \<and>
     distinct (map (\<lambda>n. an_uuid (w_env w n)) [w_pos w..<horizon]) \<and>
     (\<forall>n\<in>{w_pos w..<horizon}. \<not> has_key da_id (an_uuid (w_env w n)) (t_attempts (w_db w)))"

lemma calm_fields:
  assumes "calm until N w" "w_pos w \<le> n" "n < N"
  shows "an_fault (w_env w n) = No_fault" "an_others (w_env w n) = id" "an_now (w_env w n) < until"
    "\<not> an_flag (w_env w n)" "an_locked (w_env w n) = (\<lambda>_. False)"
    "\<exists>code text. an_http (w_env w n) = Response code text \<and> is_success code \<and>
       text_ok (truncate_bytes (coalesce text '''') response_snippet_len)"
    "\<not> has_key da_id (an_uuid (w_env w n)) (t_attempts (w_db w))"
proof -
  have c: "calm_answer until (w_env w n)" using assms by (simp add: calm_def)
  then show "an_fault (w_env w n) = No_fault" "an_others (w_env w n) = id" "an_now (w_env w n) < until"
    "\<not> an_flag (w_env w n)" "an_locked (w_env w n) = (\<lambda>_. False)" by (simp_all add: calm_answer_def)
  from c show "\<exists>code text. an_http (w_env w n) = Response code text \<and> is_success code \<and>
       text_ok (truncate_bytes (coalesce text '''') response_snippet_len)"
    by (cases "an_http (w_env w n)") (simp_all add: calm_answer_def)
  show "\<not> has_key da_id (an_uuid (w_env w n)) (t_attempts (w_db w))" using assms unfolding calm_def by simp
qed

section \<open>One delivery\<close>

text \<open>The delivery can be sent: its endpoint is enabled with a closed breaker, its event is stored,
  and the payload can be serialised and signed.\<close>

definition sendable :: "deps \<Rightarrow> db \<Rightarrow> delivery \<Rightarrow> bool" where
  "sendable D db v \<longleftrightarrow>
     (\<exists>p\<in>set (t_endpoints db). \<exists>e\<in>set (t_events db). \<exists>body. ep_id p = dl_endpoint_id v \<and> \<not> ep_disabled p \<and>
        ep_circuit_state p \<notin> {''open'', ''half_open''} \<and> ev_id e = dl_event_id v \<and>
        dp_to_vec D (ev_payload e) = Inr body \<and>
        (\<forall>ts. \<exists>h. signature_headers_for (dp_crypto D) (ep_secret p) (dp_ushow D (dl_id v)) ts body = Inr h))"

definition kept_lease :: "string \<Rightarrow> timestamp \<Rightarrow> db \<Rightarrow> delivery \<Rightarrow> bool" where
  "kept_lease worker until db v \<longleftrightarrow>
     v \<in> set (t_deliveries db) \<and> dl_locked_by v = Some worker \<and> dl_locked_until v = Some until"

text \<open>What a successful attempt changes.\<close>

definition delivered :: "delivery \<Rightarrow> delivery_attempt \<Rightarrow> timestamp \<Rightarrow> db \<Rightarrow> db" where
  "delivered v a now db =
     db\<lparr>t_attempts := t_attempts db @ [a],
        t_deliveries := update_where (\<lambda>d. dl_id d = dl_id v) (succeeded_row now (da_attempt_number a)) (t_deliveries db),
        t_endpoints := update_where (\<lambda>p. ep_id p = dl_endpoint_id v) (set_circuit now ''closed'' None 0) (t_endpoints db)\<rparr>"

definition good_attempt :: "delivery \<Rightarrow> delivery_attempt \<Rightarrow> bool" where
  "good_attempt v a \<longleftrightarrow> da_delivery_id a = dl_id v \<and> (\<exists>c. da_status_code a = Some c \<and> is_success c)"

lemma mark_succeeded_held:
  assumes "kept_lease worker until db v" "distinct (map dl_id (t_deliveries db))" "now < until"
  shows "mark_succeeded now (dl_id v) worker n db =
    Inr (True, db\<lparr>t_deliveries := update_where (\<lambda>d. dl_id d = dl_id v) (succeeded_row now n) (t_deliveries db)\<rparr>)"
proof -
  have held: "holds_lease now worker v" using assms(1,3) by (simp add: kept_lease_def holds_lease_def)
  have v: "v \<in> set (t_deliveries db)" using assms(1) by (simp add: kept_lease_def)
  have "rows_affected (\<lambda>d. dl_id d = dl_id v \<and> holds_lease now worker d) (t_deliveries db) = 1"
    using rows_affected_key_eq1 [OF assms(2) v, of "dl_id v" "holds_lease now worker"] held by simp
  moreover have "dl_id d = dl_id v \<and> holds_lease now worker d \<longleftrightarrow> dl_id d = dl_id v" if "d \<in> set (t_deliveries db)" for d
    using distinct_keys_unique [OF assms(2) that v] held by blast
  then have "update_where (\<lambda>d. dl_id d = dl_id v \<and> holds_lease now worker d) f (t_deliveries db) =
      update_where (\<lambda>d. dl_id d = dl_id v) f (t_deliveries db)" for f
    by (simp add: update_where_def)
  ultimately show ?thesis by (simp add: mark_succeeded_def lease_update_def Let_def)
qed

lemma succeed_delivers:
  assumes "calm until N w" "w_env w1 = w_env w" "w_pos w \<le> w_pos w1" "w_pos w1 + 5 \<le> N" "w_db w1 = w_db w"
    and "kept_lease worker until (w_db w) v" "keys_ok (w_db w)" "is_success code" "ep_id p = dl_endpoint_id v" "text_ok snip"
    and "\<And>a now w'. good_attempt v a \<Longrightarrow> w_db w' = delivered v a now (w_db w) \<Longrightarrow> w_env w' = w_env w \<Longrightarrow>
      w_pos w' = w_pos w1 + 5 \<Longrightarrow> w_sent w' = w_sent w1 \<Longrightarrow> da_id a = an_uuid (w_env w (Suc (w_pos w1))) \<Longrightarrow> Q (Inr ()) w'"
  shows "wp (succeed_delivery worker v p n code snip t1 t2) Q w1"
proof -
  let ?t = "an_now (answer_now w1)" and ?fresh = "an_uuid (w_env w (Suc (w_pos w1)))"
  let ?a = "\<lparr>da_id = ?fresh, da_delivery_id = dl_id v, da_attempt_number = n, da_status_code = Some code,
    da_response_snippet = Some snip, da_error = None, da_started_at = t1, da_finished_at = t2\<rparr>"
  have env: "w_env w1 = w_env w" by (rule assms(2))
  have calm: "an_fault (w_env w n) = No_fault" "an_others (w_env w n) = id" "an_now (w_env w n) < until"
    if "w_pos w1 \<le> n" "n < w_pos w1 + 5" for n
    using calm_fields [OF assms(1)] that assms(3,4) by simp_all
  have lt: "?t < until" using calm(3) by (simp add: answer_now_def env)
  have keys: "distinct (map dl_id (t_deliveries (w_db w)))" using assms(7) by (simp add: keys_ok_def)
  have "\<not> has_key da_id ?fresh (t_attempts (w_db w))" using assms(1,3,4) by (simp add: calm_def)
  moreover have "has_key dl_id (dl_id v) (t_deliveries (w_db w))" using assms(6) by (auto simp: kept_lease_def)
  ultimately have rec: "record_attempt ?fresh (dl_id v) n (Some code) (Some snip) None t1 t2 (w_db w) =
      Inr ((), (w_db w)\<lparr>t_attempts := t_attempts (w_db w) @ [?a]\<rparr>)"
    using assms(10) by (simp add: record_attempt_def text_ok_opt_def Let_def)
  let ?d1 = "(w_db w)\<lparr>t_attempts := t_attempts (w_db w) @ [?a]\<rparr>"
  have mark: "mark_succeeded ?t (dl_id v) worker n ?d1 = Inr (True, ?d1\<lparr>t_deliveries :=
      update_where (\<lambda>d. dl_id d = dl_id v) (succeeded_row ?t n) (t_deliveries ?d1)\<rparr>)"
    by (rule mark_succeeded_held [of _ until]) (use assms(6) keys lt in \<open>simp_all add: kept_lease_def\<close>)
  have circ: "update_circuit ?t (ep_id p) (cu_state on_success) (cu_open_until on_success) (cu_consecutive_failures on_success)
      (?d1\<lparr>t_deliveries := update_where (\<lambda>d. dl_id d = dl_id v) (succeeded_row ?t n) (t_deliveries ?d1)\<rparr>) =
      Inr ((), delivered v ?a ?t (w_db w))"
    by (simp add: update_circuit_def on_success_def delivered_def assms(9))
  let ?w' = "w1\<lparr>w_pos := w_pos w1 + 5, w_db := delivered v ?a ?t (w_db w), w_tx := None\<rparr>"
  have "succeed_delivery worker v p n code snip t1 t2 w1 = (Inr (), ?w')"
    using rec mark circ calm(1,2) assms(5)
    by (simp add: succeed_delivery_def with_tx_def await_def tsql_def commit_def ok_def seen_def answer_now_def tick_def
        Let_def env)
  then show ?thesis using assms(2,8) assms(11) [of ?a ?w' ?t] by (simp add: wp_def good_attempt_def)
qed

text \<open>The part of \<open>process_one\<close> before the attempt is settled: six interactions.\<close>

lemma process_one_delivers:
  assumes "calm until N w" "w_pos w + 11 \<le> N" "keys_ok (w_db w)" "kept_lease worker until (w_db w) v" "sendable D (w_db w) v"
  shows "\<exists>a now rq w'. process_one D cfg worker v w = (Inr (), w') \<and> good_attempt v a \<and>
    w_db w' = delivered v a now (w_db w) \<and> w_env w' = w_env w \<and> w_pos w' = w_pos w + 11 \<and>
    w_sent w' = w_sent w @ [rq] \<and> da_id a = an_uuid (w_env w (w_pos w + 7))"
proof -
  obtain p e body where p: "p \<in> set (t_endpoints (w_db w))" "ep_id p = dl_endpoint_id v" "\<not> ep_disabled p"
      "ep_circuit_state p \<notin> {''open'', ''half_open''}"
    and e: "e \<in> set (t_events (w_db w))" "ev_id e = dl_event_id v" "dp_to_vec D (ev_payload e) = Inr body"
    and sign: "\<And>ts. \<exists>h. signature_headers_for (dp_crypto D) (ep_secret p) (dp_ushow D (dl_id v)) ts body = Inr h"
    using assms(5) unfolding sendable_def by blast
  have "distinct (map ep_id (t_endpoints (w_db w)))" "distinct (map ev_id (t_events (w_db w)))"
    using assms(3) by (simp_all add: keys_ok_def)
  then have found: "get_endpoint (dl_endpoint_id v) (w_db w) = Inr (Some p, w_db w)"
    "get_event (dl_event_id v) (w_db w) = Inr (Some e, w_db w)"
    using find_key_eq [of ep_id "t_endpoints (w_db w)" p] find_key_eq [of ev_id "t_events (w_db w)" e] p e
    by (simp_all add: get_endpoint_def get_event_def)
  have allow: "gate_at p t = Allow" for t using p(4) by (simp add: gate_at_def)
  obtain h where h: "signature_headers_for (dp_crypto D) (ep_secret p) (dp_ushow D (dl_id v))
      (an_now (answer_now w) div 1000000) body = Inr h" using sign by blast
  have calm: "an_fault (w_env w n) = No_fault" "an_others (w_env w n) = id" if "w_pos w \<le> n" "n < w_pos w + 11" for n
    using calm_fields [OF assms(1)] that assms(2) by simp_all
  obtain code got where reply: "an_http (w_env w (w_pos w + 4)) = Response code got" "is_success code"
      "text_ok (truncate_bytes (case got of Some t \<Rightarrow> t | None \<Rightarrow> '''') response_snippet_len)"
    using calm_fields(6) [OF assms(1), of "w_pos w + 4"] assms(2) by (auto simp: coalesce_def)
  let ?rq = "webhook_request v p e h body"
  let ?w1 = "w\<lparr>w_sent := w_sent w @ [?rq], w_pos := w_pos w + 6\<rparr>"
  let ?s = "succeed_delivery worker v p (i32_wrap (dl_attempt_count v + 1)) code
      (truncate_bytes (case got of Some t \<Rightarrow> t | None \<Rightarrow> '''') response_snippet_len)
      (an_now (w_env w (w_pos w + 3))) (an_now (w_env w (w_pos w + 5)))"
  have "process_one D cfg worker v w = ?s ?w1"
    using found allow h calm reply p(3) e(3)
    by (simp add: process_one_def send_delivery_def attempt_delivery_def utc_now_def http_send_def await_def sql_def
        seen_def answer_now_def tick_def Let_def numeral_eq_Suc)
  moreover have "wp ?s (\<lambda>r w'. r = Inr () \<and> (\<exists>a now. good_attempt v a \<and> w_db w' = delivered v a now (w_db w) \<and>
      w_env w' = w_env w \<and> w_pos w' = w_pos w + 11 \<and> w_sent w' = w_sent w @ [?rq] \<and>
      da_id a = an_uuid (w_env w (w_pos w + 7)))) ?w1"
    by (rule succeed_delivers [OF assms(1)]) (use assms reply p(2) in \<open>auto simp: add.commute\<close>)
  ultimately show ?thesis by (auto simp: wp_def split: prod.splits)
qed

section \<open>A batch\<close>

lemma calm_after:
  assumes "calm until N w" "w_env w' = w_env w" "w_pos w + k = w_pos w'"
    and "t_attempts (w_db w') = t_attempts (w_db w) \<or>
      (\<exists>a m. t_attempts (w_db w') = t_attempts (w_db w) @ [a] \<and> da_id a = an_uuid (w_env w m) \<and> w_pos w \<le> m \<and> m < w_pos w')"
  shows "calm until N w'"
proof -
  have sub: "n \<in> {w_pos w..<N}" if "n \<in> {w_pos w'..<N}" for n using that assms(3) by simp
  have "distinct (map (\<lambda>n. an_uuid (w_env w n)) [w_pos w'..<N])"
  proof -
    have "[w_pos w'..<N] = drop k [w_pos w..<N]" using assms(3) by (simp add: drop_upt)
    moreover have "distinct (map (\<lambda>n. an_uuid (w_env w n)) [w_pos w..<N])" using assms(1) by (simp add: calm_def)
    ultimately show ?thesis by (metis distinct_drop drop_map)
  qed
  moreover have "\<not> has_key da_id (an_uuid (w_env w n)) (t_attempts (w_db w'))" if "n \<in> {w_pos w'..<N}" for n
  proof -
    have inj: "inj_on (\<lambda>n. an_uuid (w_env w n)) {w_pos w..<N}" using assms(1) by (simp add: calm_def distinct_map)
    have other: "an_uuid (w_env w n) \<noteq> an_uuid (w_env w m)" if "w_pos w \<le> m" "m < w_pos w'" for m
      using inj_onD [OF inj, of n m] \<open>n \<in> {w_pos w'..<N}\<close> that by fastforce
    have "\<not> has_key da_id (an_uuid (w_env w n)) (t_attempts (w_db w))"
      using assms(1) sub [OF that] unfolding calm_def by blast
    with assms(4) show ?thesis
    proof (elim disjE exE conjE)
      fix a m
      assume "t_attempts (w_db w') = t_attempts (w_db w) @ [a]" "da_id a = an_uuid (w_env w m)" "w_pos w \<le> m" "m < w_pos w'"
      with other [of m] \<open>\<not> has_key da_id (an_uuid (w_env w n)) (t_attempts (w_db w))\<close> show ?thesis by simp
    qed simp
  qed
  ultimately show ?thesis using assms(1,2) sub unfolding calm_def by simp
qed

lemma delivered_keys: "keys_ok db \<Longrightarrow> \<not> has_key da_id (da_id a) (t_attempts db) \<Longrightarrow> keys_ok (delivered v a now db)"
proof -
  assume k: "keys_ok db" and fresh: "\<not> has_key da_id (da_id a) (t_attempts db)"
  let ?d1 = "db\<lparr>t_attempts := t_attempts db @ [a]\<rparr>"
  let ?d2 = "?d1\<lparr>t_deliveries := update_where (\<lambda>d. dl_id d = dl_id v) (succeeded_row now (da_attempt_number a)) (t_deliveries ?d1)\<rparr>"
  have "keys_ok ?d1" using k fresh by (auto simp: keys_ok_def)
  then have "keys_ok ?d2" by (rule keys_ok_deliveries) (simp add: succeeded_w.keys_update_where)
  then have "keys_ok (?d2\<lparr>t_endpoints := update_where (\<lambda>p. ep_id p = dl_endpoint_id v) (set_circuit now ''closed'' None 0)
      (t_endpoints ?d2)\<rparr>)" by (rule keys_ok_endpoints) (simp add: update_where_def ep_identity_def set_circuit_def)
  then show ?thesis by (simp add: delivered_def)
qed

lemma leased_after: "kept_lease worker until db u \<Longrightarrow> dl_id u \<noteq> dl_id v \<Longrightarrow> kept_lease worker until (delivered v a now db) u"
  by (auto simp: kept_lease_def delivered_def intro: kept_if_not_touched)

lemma sendable_after: "sendable D db u \<Longrightarrow> sendable D (delivered v a now db) u"
proof -
  assume "sendable D db u"
  then obtain p e body where p: "p \<in> set (t_endpoints db)" "ep_id p = dl_endpoint_id u" "\<not> ep_disabled p"
      "ep_circuit_state p \<notin> {''open'', ''half_open''}"
    and rest: "e \<in> set (t_events db)" "ev_id e = dl_event_id u" "dp_to_vec D (ev_payload e) = Inr body"
    "\<forall>ts. \<exists>h. signature_headers_for (dp_crypto D) (ep_secret p) (dp_ushow D (dl_id u)) ts body = Inr h"
    unfolding sendable_def by blast
  define p' where "p' = (if ep_id p = dl_endpoint_id v then set_circuit now ''closed'' None 0 p else p)"
  have "p' \<in> set (t_endpoints (delivered v a now db))" using p(1) by (auto simp: p'_def delivered_def set_update_where)
  moreover have "ep_id p' = ep_id p" "ep_disabled p' = ep_disabled p" "ep_secret p' = ep_secret p"
    "ep_circuit_state p' \<notin> {''open'', ''half_open''}" using p(4) by (simp_all add: p'_def set_circuit_def)
  moreover have "t_events (delivered v a now db) = t_events db" by (simp add: delivered_def)
  ultimately show ?thesis unfolding sendable_def using p rest by (intro bexI [of _ p'] bexI [of _ e] exI [of _ body]) auto
qed

text \<open>What a batch leaves behind: the deliveries of the batch have succeeded on record, the others
  are as they were, and no attempt is lost.\<close>

definition all_delivered :: "delivery list \<Rightarrow> db \<Rightarrow> db \<Rightarrow> bool" where
  "all_delivered vs db db' \<longleftrightarrow>
     prefix (t_attempts db) (t_attempts db') \<and>
     map dl_identity (t_deliveries db') = map dl_identity (t_deliveries db) \<and>
     (\<forall>d\<in>set (t_deliveries db). dl_id d \<notin> dl_id ` set vs \<longrightarrow> d \<in> set (t_deliveries db')) \<and>
     (\<forall>d\<in>set (t_deliveries db'). dl_id d \<in> dl_id ` set vs \<longrightarrow> dl_status d = ''succeeded'') \<and>
     (\<forall>v\<in>set vs. \<exists>a\<in>set (t_attempts db'). good_attempt v a)"

lemma all_delivered_step:
  assumes "good_attempt v a" "all_delivered vs (delivered v a now db) db'" "distinct (map dl_id (t_deliveries db))"
    and "dl_id v \<notin> dl_id ` set vs"
  shows "all_delivered (v # vs) db db'"
proof -
  let ?d1 = "delivered v a now db"
  have ids: "map dl_identity (t_deliveries ?d1) = map dl_identity (t_deliveries db)"
    by (simp add: delivered_def succeeded_w.keys_update_where)
  have same: "map dl_id (t_deliveries db') = map dl_id (t_deliveries db)"
    using assms(2) ids dl_keys_same [of "t_deliveries db'" "t_deliveries db"] by (simp add: all_delivered_def)
  have v_done: "dl_status d = ''succeeded''" if d: "d \<in> set (t_deliveries db')" "dl_id d = dl_id v" for d
  proof -
    obtain d0 where "d0 \<in> set (t_deliveries db)" "dl_id d0 = dl_id v" using d same by (metis image_eqI imageE list.set_map)
    then have s: "succeeded_row now (da_attempt_number a) d0 \<in> set (t_deliveries ?d1)"
      by (force simp: delivered_def set_update_where)
    have id0: "dl_id (succeeded_row now (da_attempt_number a) d0) = dl_id v" using \<open>dl_id d0 = dl_id v\<close> by (simp add: succeeded_row_def)
    have "succeeded_row now (da_attempt_number a) d0 \<in> set (t_deliveries db')"
      using assms(2,4) s id0 unfolding all_delivered_def by metis
    then have "d = succeeded_row now (da_attempt_number a) d0"
      using distinct_keys_unique [of dl_id "t_deliveries db'"] same assms(3) d id0 by metis
    then show ?thesis by (simp add: succeeded_row_def)
  qed
  have "t_attempts ?d1 = t_attempts db @ [a]" by (simp add: delivered_def)
  then have att: "prefix (t_attempts db) (t_attempts db')" "a \<in> set (t_attempts db')"
    using assms(2) unfolding all_delivered_def by (auto dest: append_prefixD set_mono_prefix)
  have others: "d \<in> set (t_deliveries db')" if "d \<in> set (t_deliveries db)" "dl_id d \<notin> dl_id ` set (v # vs)" for d
  proof -
    have "d \<in> set (t_deliveries ?d1)" using that by (simp add: delivered_def) (rule kept_if_not_touched, auto)
    then show ?thesis using assms(2) that(2) unfolding all_delivered_def by auto
  qed
  show ?thesis
    using assms(1,2) ids v_done att others unfolding all_delivered_def by (simp, blast)
qed

lemma process_batch_delivers:
  assumes "calm until N w" "w_pos w + 12 * length vs \<le> N" "keys_ok (w_db w)" "distinct (map dl_id vs)"
    and "\<And>v. v \<in> set vs \<Longrightarrow> kept_lease worker until (w_db w) v" "\<And>v. v \<in> set vs \<Longrightarrow> sendable D (w_db w) v"
  shows "\<exists>w'. process_batch D cfg worker vs w = (Inr (), w') \<and> all_delivered vs (w_db w) (w_db w') \<and>
    length (w_sent w') = length (w_sent w) + length vs"
  using assms
proof (induction vs arbitrary: w)
  case Nil
  then show ?case by (simp add: ok_def all_delivered_def)
next
  case (Cons v vs)
  have go: "\<not> an_flag (answer_now w)" using calm_fields(4) [OF Cons.prems(1)] Cons.prems(2) by (simp add: answer_now_def)
  have c1: "calm until N (tick w)" by (rule calm_after [OF Cons.prems(1), of _ 1]) auto
  obtain a now rq w1 where one: "process_one D cfg worker v (tick w) = (Inr (), w1)" and a: "good_attempt v a"
    and db: "w_db w1 = delivered v a now (w_db w)" and env: "w_env w1 = w_env w" and pos: "w_pos w1 = w_pos w + 12"
    and sent: "w_sent w1 = w_sent w @ [rq]" and fresh: "da_id a = an_uuid (w_env w (Suc (w_pos w) + 7))"
    using process_one_delivers [OF c1, of worker v D cfg] Cons.prems by auto
  have "calm until N w1"
    by (rule calm_after [OF Cons.prems(1) env, of 12]) (use pos db fresh in \<open>auto simp: delivered_def\<close>)
  moreover have "\<not> has_key da_id (da_id a) (t_attempts (w_db w))"
    using calm_fields(7) [OF Cons.prems(1)] Cons.prems(2) fresh by simp
  then have "keys_ok (w_db w1)" unfolding db by (rule delivered_keys [OF Cons.prems(3)])
  moreover have "kept_lease worker until (w_db w1) u" "sendable D (w_db w1) u" if "u \<in> set vs" for u
  proof -
    have "dl_id u \<noteq> dl_id v" using that Cons.prems(4) by (metis distinct.simps(2) image_eqI list.set_map list.simps(9))
    then show "kept_lease worker until (w_db w1) u" "sendable D (w_db w1) u"
      unfolding db using that Cons.prems(5,6) by (auto intro: leased_after sendable_after)
  qed
  ultimately obtain w' where rest: "process_batch D cfg worker vs w1 = (Inr (), w')" "all_delivered vs (w_db w1) (w_db w')"
    "length (w_sent w') = length (w_sent w1) + length vs"
    using Cons.IH [of w1] Cons.prems(2,4) pos by auto
  have "process_batch D cfg worker (v # vs) w = (Inr (), w')"
    using go one rest(1) by (simp add: read_flag_def try_await_def)
  moreover have "all_delivered (v # vs) (w_db w) (w_db w')"
    by (rule all_delivered_step [OF a rest(2) [unfolded db]]) (use Cons.prems(3,4) in \<open>auto simp: keys_ok_def\<close>)
  ultimately show ?case using rest(3) sent by simp
qed

section \<open>A turn of the worker\<close>

lemma turn_delivers:
  fixes w :: world and cfg :: dispatcher_config
  defines "t \<equiv> an_now (w_env w (Suc (w_pos w)))"
  defines "picked \<equiv> claimable t (\<lambda>_. False) (dc_batch_size cfg) (t_deliveries (w_db w))"
  assumes "keys_ok (w_db w)" "0 \<le> dc_batch_size cfg"
    and "calm (t + seconds (dc_lock_secs cfg)) N w" "w_pos w + 2 + 12 * length picked \<le> N"
    and "\<And>d. d \<in> set picked \<Longrightarrow> sendable D (w_db w) d"
  shows "\<exists>w'. worker_turn D cfg worker w = (Inr True, w') \<and>
    map dl_identity (t_deliveries (w_db w')) = map dl_identity (t_deliveries (w_db w)) \<and>
    length (w_sent w') = length (w_sent w) + length picked \<and>
    (\<forall>d\<in>set picked. (\<exists>d'\<in>set (t_deliveries (w_db w')). dl_id d' = dl_id d \<and> dl_status d' = ''succeeded'') \<and>
       (\<exists>a\<in>set (t_attempts (w_db w')). \<exists>c. da_delivery_id a = dl_id d \<and> da_status_code a = Some c \<and> is_success c)) \<and>
    (\<forall>d\<in>set (t_deliveries (w_db w)) - set picked. d \<in> set (t_deliveries (w_db w')))"
proof -
  let ?until = "t + seconds (dc_lock_secs cfg)" and ?rows = "t_deliveries (w_db w)"
  let ?cl = "claim_row t worker (dc_lock_secs cfg)"
  define vs where "vs = map ?cl (filter (\<lambda>d. d \<in> set picked) ?rows)"
  define db1 where "db1 = (w_db w)\<lparr>t_deliveries := map (\<lambda>d. if d \<in> set picked then ?cl d else d) ?rows\<rparr>"
  have claim: "claim_due_deliveries t (\<lambda>_. False) worker (dc_batch_size cfg) (dc_lock_secs cfg) (w_db w) = Inr (vs, db1)"
    unfolding vs_def db1_def picked_def by (rule claim_eq [OF assms(3,4)])
  have dist: "distinct (map dl_id ?rows)" using assms(3) by (simp add: keys_ok_def)
  have sub: "set picked \<subseteq> set ?rows" unfolding picked_def using set_claimable by fastforce
  have "distinct picked" unfolding picked_def claimable_def using dist by (simp add: distinct_map)
  then have len: "length vs = length picked"
    unfolding vs_def using length_filter_subset [of ?rows picked] dist sub by (simp add: distinct_map)
  have keys1: "keys_ok db1" by (rule claim_keys [OF claim assms(3)])
  have ids: "map dl_id vs = map dl_id (filter (\<lambda>d. d \<in> set picked) ?rows)" by (simp add: vs_def claim_row_def comp_def)
  have flag: "\<not> an_flag (answer_now w)" and a1: "an_fault (w_env w (Suc (w_pos w))) = No_fault"
    "an_others (w_env w (Suc (w_pos w))) = id" "an_locked (w_env w (Suc (w_pos w))) = (\<lambda>_. False)"
    using calm_fields [OF assms(5)] assms(6) by (simp_all add: answer_now_def)
  let ?w1 = "w\<lparr>w_pos := Suc (Suc (w_pos w)), w_db := db1\<rparr>"
  have att: "t_attempts db1 = t_attempts (w_db w)" by (simp add: db1_def)
  have "\<exists>w'. process_batch D cfg worker vs ?w1 = (Inr (), w') \<and> all_delivered vs (w_db ?w1) (w_db w') \<and>
      length (w_sent w') = length (w_sent ?w1) + length vs"
  proof (rule process_batch_delivers)
    show "calm ?until N ?w1" by (rule calm_after [OF assms(5), of _ 2]) (simp_all add: att)
    show "distinct (map dl_id vs)" unfolding ids using dist by (simp add: distinct_map inj_on_def)
    show "kept_lease worker ?until (w_db ?w1) v" if "v \<in> set vs" for v
      using that by (auto simp: vs_def kept_lease_def db1_def claim_row_def)
    show "sendable D (w_db ?w1) v" if "v \<in> set vs" for v
    proof -
      from that obtain d where "v = ?cl d" "d \<in> set picked" by (auto simp: vs_def)
      then show ?thesis using assms(7) by (simp add: sendable_def db1_def claim_row_def)
    qed
  qed (use assms(6) len keys1 in simp_all)
  then obtain w' where batch: "process_batch D cfg worker vs ?w1 = (Inr (), w')" "all_delivered vs db1 (w_db w')"
    "length (w_sent w') = length (w_sent w) + length vs" by auto
  have post: "\<exists>d'\<in>set (t_deliveries (w_db w')). dl_id d' = dl_id d \<and> dl_status d' = ''succeeded''"
    "\<exists>a\<in>set (t_attempts (w_db w')). \<exists>c. da_delivery_id a = dl_id d \<and> da_status_code a = Some c \<and> is_success c"
    if "d \<in> set picked" for d
  proof -
    have v: "?cl d \<in> set vs" "dl_id (?cl d) = dl_id d" using that sub by (auto simp: vs_def claim_row_def)
    have "dl_id d \<in> set (map dl_id (t_deliveries db1))" using that sub by (force simp: db1_def claim_row_def)
    then have "dl_id d \<in> set (map dl_id (t_deliveries (w_db w')))"
      using batch(2) dl_keys_same [of "t_deliveries (w_db w')" "t_deliveries db1"] by (simp add: all_delivered_def)
    then obtain d' where d': "d' \<in> set (t_deliveries (w_db w'))" "dl_id d' = dl_id d" by auto
    then have "dl_id d' \<in> dl_id ` set vs" using v by (metis image_eqI)
    then show "\<exists>d'\<in>set (t_deliveries (w_db w')). dl_id d' = dl_id d \<and> dl_status d' = ''succeeded''"
      using batch(2) d' unfolding all_delivered_def by blast
    show "\<exists>a\<in>set (t_attempts (w_db w')). \<exists>c. da_delivery_id a = dl_id d \<and> da_status_code a = Some c \<and> is_success c"
      using batch(2) v unfolding all_delivered_def good_attempt_def by metis
  qed
  have kept: "d \<in> set (t_deliveries (w_db w'))" if "d \<in> set ?rows - set picked" for d
  proof -
    have "dl_id d \<noteq> dl_id c" if "c \<in> set picked" for c
      using distinct_keys_unique [OF dist] that sub \<open>d \<in> set ?rows - set picked\<close> by blast
    moreover have "dl_id ` set vs \<subseteq> dl_id ` set picked" using arg_cong [OF ids, of set] by (auto simp only: set_map set_filter)
    ultimately have "dl_id d \<notin> dl_id ` set vs" by blast
    moreover have "d \<in> set (t_deliveries db1)" using that by (force simp: db1_def)
    ultimately show ?thesis using batch(2) unfolding all_delivered_def by blast
  qed
  have "map dl_identity (t_deliveries db1) = map dl_identity ?rows" by (simp add: db1_def dl_identity_def claim_row_def)
  then have same: "map dl_identity (t_deliveries (w_db w')) = map dl_identity ?rows"
    using batch(2) unfolding all_delivered_def by metis
  have turn: "worker_turn D cfg worker w = (if vs = [] then pause (ok True) else await (process_batch D cfg worker vs) (\<lambda>_. ok True)) ?w1"
    using flag a1 claim by (simp add: worker_turn_def read_flag_def try_await_def sql_def seen_def answer_now_def tick_def
      Let_def t_def)
  show ?thesis
  proof (cases "vs = []")
    case True
    with batch(1) have "w' = ?w1" by (simp add: ok_def)
    then have "worker_turn D cfg worker w = (Inr True, tick w')" using True turn by (simp add: pause_def ok_def)
    then show ?thesis using post kept same batch(3) len by (intro exI [of _ "tick w'"]) simp
  next
    case False
    then have "worker_turn D cfg worker w = (Inr True, w')" using batch(1) turn by (simp add: await_def ok_def)
    then show ?thesis using post kept same batch(3) len by (intro exI [of _ w']) simp
  qed
qed


text \<open>With room for all that is due, a calm turn delivers all of it; the rows keep what they are about.\<close>

lemma all_due_delivered:
  fixes w :: world and cfg :: dispatcher_config
  defines "t \<equiv> an_now (w_env w (Suc (w_pos w)))"
  assumes keys: "keys_ok (w_db w)" and calm: "calm (t + seconds (dc_lock_secs cfg)) N w"
    and time: "w_pos w + 2 + 12 * rows_affected (due t) (t_deliveries (w_db w)) \<le> N"
    and room: "int (rows_affected (due t) (t_deliveries (w_db w))) \<le> dc_batch_size cfg"
    and send: "\<And>d. d \<in> set (t_deliveries (w_db w)) \<Longrightarrow> due t d \<Longrightarrow> sendable D (w_db w) d"
  obtains w' where "worker_turn D cfg worker w = (Inr True, w')"
    "\<And>d. d \<in> set (t_deliveries (w_db w)) \<Longrightarrow> due t d \<Longrightarrow> \<exists>d'\<in>set (t_deliveries (w_db w')).
       dl_identity d' = dl_identity d \<and> dl_status d' = ''succeeded'' \<and>
       (\<exists>a\<in>set (t_attempts (w_db w')). \<exists>c. da_delivery_id a = dl_id d \<and> da_status_code a = Some c \<and> is_success c)"
proof -
  let ?rows = "t_deliveries (w_db w)"
  define picked where "picked = claimable t (\<lambda>_. False) (dc_batch_size cfg) ?rows"
  have "length (filter (due t) ?rows) \<le> nat (dc_batch_size cfg)" using room by (simp add: rows_affected_def)
  then have set: "set picked = {d \<in> set ?rows. due t d}" and len: "length picked = rows_affected (due t) ?rows"
    by (simp_all add: picked_def claimable_def rows_affected_def)
  have "0 \<le> dc_batch_size cfg" using room by linarith
  moreover have "sendable D (w_db w) d" if "d \<in> set picked" for d using that send unfolding set by blast
  ultimately obtain w' where turn: "worker_turn D cfg worker w = (Inr True, w')"
    and same: "map dl_identity (t_deliveries (w_db w')) = map dl_identity ?rows"
    and won: "\<And>d. d \<in> set picked \<Longrightarrow> (\<exists>d'\<in>set (t_deliveries (w_db w')). dl_id d' = dl_id d \<and> dl_status d' = ''succeeded'') \<and>
       (\<exists>a\<in>set (t_attempts (w_db w')). \<exists>c. da_delivery_id a = dl_id d \<and> da_status_code a = Some c \<and> is_success c)"
    using turn_delivers [OF keys, of cfg N D worker] calm time len unfolding t_def picked_def by metis
  have "distinct (map dl_id (t_deliveries (w_db w')))"
    using keys dl_keys_same [OF same] by (simp add: keys_ok_def)
  then have unique: "x = y" if "x \<in> set (t_deliveries (w_db w'))" "y \<in> set (t_deliveries (w_db w'))" "dl_id x = dl_id y" for x y
    using distinct_keys_unique that by metis
  show ?thesis
  proof (rule that [OF turn])
    fix d
    assume d: "d \<in> set ?rows" "due t d"
    then obtain d' where d': "d' \<in> set (t_deliveries (w_db w'))" "dl_id d' = dl_id d" "dl_status d' = ''succeeded''"
      using won [of d] set by blast
    obtain x where x: "x \<in> set (t_deliveries (w_db w'))" "dl_identity x = dl_identity d"
      using prefix_map_member [of dl_identity ?rows "t_deliveries (w_db w')" d] same d(1) by auto
    then have "x = d'" using unique [OF x(1) d'(1)] d'(2) by (simp add: dl_identity_def)
    then show "\<exists>d'\<in>set (t_deliveries (w_db w')). dl_identity d' = dl_identity d \<and> dl_status d' = ''succeeded'' \<and>
       (\<exists>a\<in>set (t_attempts (w_db w')). \<exists>c. da_delivery_id a = dl_id d \<and> da_status_code a = Some c \<and> is_success c)"
      using x d'(3) won [of d] d set by blast
  qed
qed

lemma calm_quiet:
  assumes "now < until" "is_success code" "t_attempts db = []" "N < 1000"
    and "text_ok (truncate_bytes (coalesce body '''') response_snippet_len)"
  shows "calm until N (quiet_world now (Response code body) db)"
proof -
  have "inj_on (\<lambda>n. word_of_nat (Suc n) :: uuid) {0..<N}"
    using assms(4) by (auto simp: inj_on_def word_of_nat_eq_iff take_bit_nat_eq_self)
  then show ?thesis
    using assms by (auto simp: calm_def calm_answer_def quiet_world_def quiet_def distinct_map)
qed


end
