(* ===== verification/Bench.thy ===== *)
theory Bench
  imports Ratelimit Rust_Std "HOL-Library.AList"
begin

text \<open>
  The two programs the repository measures itself with, \<open>crates/dropless/examples\<close>: the load
  generator of the zero-loss benchmark, which sends messages, receives their webhooks and reports
  drops, duplicates and latencies, and the receiver of the kill test, which writes the id of every
  webhook to a file. An \<open>Instant\<close> is its number of nanoseconds, an \<open>f64\<close> the real number it
  denotes with the rounding \<open>rnd\<close> after every operation, a \<open>HashMap\<close> an association list with
  distinct keys, and what the tasks of a run did is the list of what they completed, in that order.
  The theorems: what the reported counts say about a run, and that the reported percentiles are
  ordered.
\<close>

section \<open>Settings\<close>

definition bench_env :: "(string \<rightharpoonup> string) \<Rightarrow> string \<Rightarrow> string \<Rightarrow> string" where
  "bench_env vars key fallback = (case vars key of Some v \<Rightarrow> v | None \<Rightarrow> fallback)"

text \<open>\<open>str::parse\<close> for \<open>u64\<close> and \<open>usize\<close>: an optional plus sign, decimal digits, no overflow.\<close>

definition parse_u64 :: "string \<Rightarrow> nat option" where
  "parse_u64 s =
     (let digits = (case s of c # cs \<Rightarrow> if c = CHR ''+'' then cs else s | [] \<Rightarrow> s)
      in Option.bind (parse_digits digits) (\<lambda>n. if n < 2 ^ 64 then Some n else None))"

record bench_settings =
  bs_base :: string
  bs_key :: string
  bs_recv_addr :: string
  bs_n :: nat
  bs_concurrency :: nat
  bs_pace_ms :: nat
  bs_timeout_secs :: nat

text \<open>A value that does not parse ends the program (\<open>expect\<close>).\<close>

definition bench_settings_from :: "(string \<rightharpoonup> string) \<Rightarrow> bench_settings option" where
  "bench_settings_from vars =
     Option.bind (parse_u64 (bench_env vars ''BENCH_N'' ''5000'')) (\<lambda>n.
     Option.bind (parse_u64 (bench_env vars ''BENCH_CONCURRENCY'' ''64'')) (\<lambda>concurrency.
     Option.bind (parse_u64 (bench_env vars ''BENCH_PACE_MS'' ''0'')) (\<lambda>pace_ms.
     Option.bind (parse_u64 (bench_env vars ''BENCH_TIMEOUT_SECS'' ''120'')) (\<lambda>timeout_secs.
       Some \<lparr>bs_base = bench_env vars ''BENCH_BASE_URL'' ''http://127.0.0.1:8090'',
         bs_key = bench_env vars ''BENCH_API_KEY'' ''benchkey'',
         bs_recv_addr = bench_env vars ''BENCH_RECV_ADDR'' ''127.0.0.1:9090'',
         bs_n = n, bs_concurrency = concurrency, bs_pace_ms = pace_ms, bs_timeout_secs = timeout_secs\<rparr>))))"

section \<open>The receivers\<close>

record recv_state =
  rv_received :: "(string \<times> nat) list"
  rv_total :: u64

definition recv_start :: recv_state where
  "recv_start = \<lparr>rv_received = [], rv_total = 0\<rparr>"

text \<open>One webhook: the moment it is handled and its \<open>webhook-id\<close>, if it has a readable one.\<close>

type_synonym receipt = "nat \<times> string option"

definition receive :: "recv_state \<Rightarrow> receipt \<Rightarrow> recv_state" where
  "receive state req =
     (case req of (now, webhook_id) \<Rightarrow>
        let counted = state\<lparr>rv_total := rv_total state + 1\<rparr> in
        case webhook_id of
          None \<Rightarrow> counted
        | Some wid \<Rightarrow>
            if wid \<in> fst ` set (rv_received counted) then counted
            else counted\<lparr>rv_received := rv_received counted @ [(wid, now)]\<rparr>)"

text \<open>The receiver of the kill test appends a line to its file; the wait before it is not modelled.\<close>

definition mock_receive :: "string list \<Rightarrow> string option \<Rightarrow> string list" where
  "mock_receive file webhook_id = file @ [case webhook_id of Some wid \<Rightarrow> wid | None \<Rightarrow> ''MISSING'']"

definition mock_delay_ms :: "(string \<rightharpoonup> string) \<Rightarrow> nat" where
  "mock_delay_ms vars = (case Option.bind (vars ''MOCK_DELAY_MS'') parse_u64 of Some n \<Rightarrow> n | None \<Rightarrow> 0)"

section \<open>Numbers\<close>

definition ms :: "(real \<Rightarrow> real) \<Rightarrow> nat \<Rightarrow> real" where
  "ms rnd d = rnd (as_secs_f64 rnd d * 1000)"

text \<open>\<open>f64::round\<close>: to the nearest integer, halves away from zero.\<close>

definition f64_round :: "real \<Rightarrow> int" where
  "f64_round x = (if x < 0 then - \<lfloor>- x + 1 / 2\<rfloor> else \<lfloor>x + 1 / 2\<rfloor>)"

text \<open>Nearest rank; \<open>as usize\<close> takes a negative number to 0 and one too large to the largest.\<close>

definition pct :: "(real \<Rightarrow> real) \<Rightarrow> real list \<Rightarrow> real \<Rightarrow> real" where
  "pct rnd sorted_values p =
     (if sorted_values = [] then 0
      else let rank = min (nat (f64_round (rnd (rnd (p / 100) * rnd (rnd (real (length sorted_values)) - 1))))) (2 ^ 64 - 1)
           in sorted_values ! min rank (length sorted_values - 1))"

definition round_places :: "(real \<Rightarrow> real) \<Rightarrow> real \<Rightarrow> nat \<Rightarrow> real" where
  "round_places rnd x places = (let f = rnd (10 ^ places) in rnd (real_of_int (f64_round (rnd (x * f))) / f))"

section \<open>Sending\<close>

datatype send_result = Acked "string option" | Refused nat | Send_error

record loadgen =
  lg_sent :: "(string \<times> nat) list"
  lg_ack_lat_ms :: "real list"
  lg_send_fail :: u64

definition loadgen_start :: loadgen where
  "loadgen_start = \<lparr>lg_sent = [], lg_ack_lat_ms = [], lg_send_fail = 0\<rparr>"

text \<open>The end of one send: a success whose body names a first delivery is an acknowledged one (\<open>Acked (Some _)\<close>),
  a success without one, another status and an error are failures.\<close>

definition record_send :: "(real \<Rightarrow> real) \<Rightarrow> loadgen \<Rightarrow> nat \<times> nat \<times> send_result \<Rightarrow> loadgen" where
  "record_send rnd lg completion =
     (case completion of (send_t, ack_t, resp) \<Rightarrow>
        case resp of
          Acked (Some did) \<Rightarrow> lg\<lparr>lg_sent := AList.update did send_t (lg_sent lg),
              lg_ack_lat_ms := lg_ack_lat_ms lg @ [ms rnd (ack_t - send_t)]\<rparr>
        | Acked None \<Rightarrow> lg\<lparr>lg_send_fail := lg_send_fail lg + 1\<rparr>
        | Refused status \<Rightarrow> lg\<lparr>lg_send_fail := lg_send_fail lg + 1\<rparr>
        | Send_error \<Rightarrow> lg\<lparr>lg_send_fail := lg_send_fail lg + 1\<rparr>)"

text \<open>The wait for the webhooks looks every 50 ms whether as many ids as were acknowledged have
  arrived, or the time is up.\<close>

definition drained :: "recv_state \<Rightarrow> nat \<Rightarrow> nat \<Rightarrow> nat \<Rightarrow> bool" where
  "drained state sent_count now deadline \<longleftrightarrow> length (rv_received state) \<ge> sent_count \<or> now \<ge> deadline"

section \<open>The report\<close>

record latency =
  lt_p50 :: real
  lt_p95 :: real
  lt_p99 :: real
  lt_max :: real

definition latency_summary :: "(real \<Rightarrow> real) \<Rightarrow> real list \<Rightarrow> latency" where
  "latency_summary rnd values =
     (let v = sort values in
      \<lparr>lt_p50 = round_places rnd (pct rnd v 50) 2, lt_p95 = round_places rnd (pct rnd v 95) 2,
       lt_p99 = round_places rnd (pct rnd v 99) 2,
       lt_max = round_places rnd (if v = [] then 0 else last v) 2\<rparr>)"

record bench_report =
  br_requested :: nat
  br_concurrency :: nat
  br_sent_acked :: nat
  br_send_failures :: nat
  br_delivered_unique :: nat
  br_delivered_total :: nat
  br_dropped :: nat
  br_duplicates :: nat
  br_ingest_throughput :: real
  br_delivery_throughput :: real
  br_send_wall_s :: real
  br_delivery_wall_s :: real
  br_ack_latency :: latency
  br_e2e_latency :: latency

definition e2e_latencies :: "(real \<Rightarrow> real) \<Rightarrow> (string \<times> nat) list \<Rightarrow> (string \<times> nat) list \<Rightarrow> real list" where
  "e2e_latencies rnd recv_map sent_map =
     concat (map (\<lambda>(wid, rt). case map_of sent_map wid of Some st \<Rightarrow> [ms rnd (rt - st)] | None \<Rightarrow> []) recv_map)"

definition last_recv :: "nat \<Rightarrow> (string \<times> nat) list \<Rightarrow> nat" where
  "last_recv t0 recv_map = foldl (\<lambda>latest (wid, rt). if rt > latest then rt else latest) t0 recv_map"

definition bench_metrics :: "(real \<Rightarrow> real) \<Rightarrow> bench_settings \<Rightarrow> nat \<Rightarrow> nat \<Rightarrow> loadgen \<Rightarrow> recv_state \<Rightarrow> bench_report" where
  "bench_metrics rnd cfg t0 send_done lg state =
     (let sent_count = length (lg_sent lg);
          unique = length (rv_received state);
          total_recv = unat (rv_total state);
          send_secs = max (as_secs_f64 rnd (send_done - t0)) (1 / 10 ^ 6);
          deliver_secs = max (as_secs_f64 rnd (last_recv t0 (rv_received state) - t0)) (1 / 10 ^ 6)
      in \<lparr>br_requested = bs_n cfg, br_concurrency = bs_concurrency cfg,
          br_sent_acked = sent_count, br_send_failures = unat (lg_send_fail lg),
          br_delivered_unique = unique, br_delivered_total = total_recv,
          br_dropped = sent_count - unique, br_duplicates = total_recv - unique,
          br_ingest_throughput = round_places rnd (rnd (rnd (real sent_count) / send_secs)) 0,
          br_delivery_throughput = round_places rnd (rnd (rnd (real unique) / deliver_secs)) 0,
          br_send_wall_s = round_places rnd send_secs 3, br_delivery_wall_s = round_places rnd deliver_secs 3,
          br_ack_latency = latency_summary rnd (lg_ack_lat_ms lg),
          br_e2e_latency = latency_summary rnd (e2e_latencies rnd (rv_received state) (lg_sent lg))\<rparr>)"

section \<open>The counts\<close>

definition received_ids :: "receipt list \<Rightarrow> string set" where
  "received_ids reqs = {wid. \<exists>now. (now, Some wid) \<in> set reqs}"

definition acked_ids :: "(nat \<times> nat \<times> send_result) list \<Rightarrow> string set" where
  "acked_ids completions = {did. \<exists>s a. (s, a, Acked (Some did)) \<in> set completions}"

lemma receive_step:
  "fst ` set (rv_received (receive st r)) = fst ` set (rv_received st) \<union> set_option (snd r)"
  "distinct (map fst (rv_received st)) \<Longrightarrow> distinct (map fst (rv_received (receive st r)))"
  "rv_total (receive st r) = rv_total st + 1"
  by (auto simp: receive_def Let_def split: prod.splits option.splits)

lemma received_snoc: "received_ids (reqs @ [r]) = received_ids reqs \<union> set_option (snd r)"
  by (cases r) (auto simp: received_ids_def)

lemma receive_all:
  "fst ` set (rv_received (foldl receive recv_start reqs)) = received_ids reqs"
  "distinct (map fst (rv_received (foldl receive recv_start reqs)))"
  "rv_total (foldl receive recv_start reqs) = of_nat (length reqs)"
  by (induction reqs rule: rev_induct)
    (auto simp: recv_start_def received_ids_def [of "[]"] receive_step received_snoc)

lemma unique_received: "length (rv_received (foldl receive recv_start reqs)) = card (received_ids reqs)"
  using receive_all [of reqs] distinct_card [of "map fst (rv_received (foldl receive recv_start reqs))"] by simp

fun acked_id :: "send_result \<Rightarrow> string option" where
  "acked_id (Acked did) = did"
| "acked_id _ = None"

lemma send_step:
  "fst ` set (lg_sent (record_send rnd lg c)) = fst ` set (lg_sent lg) \<union> set_option (acked_id (snd (snd c)))"
  "distinct (map fst (lg_sent lg)) \<Longrightarrow> distinct (map fst (lg_sent (record_send rnd lg c)))"
  "of_nat (length (lg_ack_lat_ms (record_send rnd lg c))) + lg_send_fail (record_send rnd lg c) =
     of_nat (length (lg_ack_lat_ms lg)) + lg_send_fail lg + 1"
  by (auto simp: record_send_def dom_update distinct_update split: prod.splits send_result.splits option.splits)

lemma acked_snoc: "acked_ids (cs @ [c]) = acked_ids cs \<union> set_option (acked_id (snd (snd c)))"
  by (cases c; cases "snd (snd c)") (auto simp: acked_ids_def)

lemma send_all:
  "fst ` set (lg_sent (foldl (record_send rnd) loadgen_start cs)) = acked_ids cs"
  "distinct (map fst (lg_sent (foldl (record_send rnd) loadgen_start cs)))"
  by (induction cs rule: rev_induct)
    (auto simp: loadgen_start_def acked_ids_def [of "[]"] send_step acked_snoc)

lemma sends_accounted:
  "of_nat (length (lg_ack_lat_ms (foldl (record_send rnd) loadgen_start cs))) +
     lg_send_fail (foldl (record_send rnd) loadgen_start cs) = of_nat (length cs)"
  by (induction cs rule: rev_induct) (auto simp: loadgen_start_def send_step)

lemma unique_acked: "length (lg_sent (foldl (record_send rnd) loadgen_start cs)) = card (acked_ids cs)"
  using send_all [of rnd cs] distinct_card [of "map fst (lg_sent (foldl (record_send rnd) loadgen_start cs))"] by simp

lemma finite_ids: "finite (received_ids reqs)" "finite (acked_ids cs)"
  using receive_all [of reqs] send_all [of "\<lambda>x. x" cs] by (metis List.finite_set finite_imageI)+

lemma card_minus_le:
  assumes "finite A" "finite B"
  shows "card A - card B \<le> card (A - B)" "B \<subseteq> A \<Longrightarrow> card A - card B = card (A - B)"
  using assms diff_card_le_card_Diff [of B A] by (auto simp: card_Diff_subset)

text \<open>What the load generator reports of a run. For every order in which webhooks came in and sends
  completed (fewer than \<open>2^64\<close> webhooks), the report counts every webhook, each id once, as duplicates exactly
  the webhooks that were not the first of their id, and as acknowledged the ids it was told. Its
  number of drops never exceeds the number of acknowledged ids that did not arrive, and is that
  number if every id that arrived was acknowledged: an id whose acknowledgement was lost hides a drop.
\<close>

theorem bench_counts_the_run:
  assumes "length reqs < 2 ^ 64"
    and "rep = bench_metrics rnd cfg t0 send_done (foldl (record_send rnd) loadgen_start cs) (foldl receive recv_start reqs)"
  shows "br_delivered_total rep = length reqs \<and> br_delivered_unique rep = card (received_ids reqs) \<and>
    br_duplicates rep = length reqs - card (received_ids reqs) \<and> br_sent_acked rep = card (acked_ids cs) \<and>
    br_dropped rep \<le> card (acked_ids cs - received_ids reqs) \<and>
    (received_ids reqs \<subseteq> acked_ids cs \<longrightarrow> br_dropped rep = card (acked_ids cs - received_ids reqs))"
proof -
  have "unat (of_nat (length reqs) :: u64) = length reqs" using assms(1) by (simp add: unat_of_nat take_bit_nat_eq_self)
  then show ?thesis
    by (simp add: assms(2) bench_metrics_def Let_def unique_received unique_acked receive_all card_minus_le finite_ids)
qed

definition bench_two :: bench_settings where
  "bench_two = \<lparr>bs_base = ''http://127.0.0.1:8090'', bs_key = ''benchkey'', bs_recv_addr = ''127.0.0.1:9090'',
     bs_n = 3, bs_concurrency = 1, bs_pace_ms = 0, bs_timeout_secs = 1\<rparr>"

text \<open>Two ids acknowledged; one of them arrives twice, and a third id whose acknowledgement was
  lost: one duplicate, one acknowledged id missing, and no drop reported.\<close>

theorem bench_counts_the_run_witness:
  "\<exists>rep. rep = bench_metrics exact bench_two 0 9
       (foldl (record_send exact) loadgen_start [(1, 2, Acked (Some ''a'')), (1, 3, Acked (Some ''b'')), (1, 4, Send_error)])
       (foldl receive recv_start [(5, Some ''a''), (6, Some ''c''), (7, Some ''a'')]) \<and>
     br_delivered_total rep = 3 \<and> br_duplicates rep = 1 \<and> br_dropped rep = 0 \<and> br_sent_acked rep = 2"
proof -
  have ids: "received_ids [(5, Some ''a''), (6, Some ''c''), (7, Some ''a'')] = {''a'', ''c''}"
    "acked_ids [(1, 2, Acked (Some ''a'')), (1, 3, Acked (Some ''b'')), (1, 4, Send_error)] = {''a'', ''b''}"
    by (auto simp: received_ids_def acked_ids_def)
  show ?thesis
    using bench_counts_the_run [OF _ refl, of "[(5, Some ''a''), (6, Some ''c''), (7, Some ''a'')]" exact bench_two 0 9
        "[(1, 2, Acked (Some ''a'')), (1, 3, Acked (Some ''b'')), (1, 4, Send_error)]"]
    unfolding ids by (simp del: foldl_Cons) (simp add: bench_metrics_def Let_def unique_received unique_acked ids del: foldl_Cons)
qed

section \<open>The percentiles\<close>

lemma f64_round_mono: "x \<le> y \<Longrightarrow> f64_round x \<le> f64_round y"
proof -
  assume xy: "x \<le> y"
  consider "0 \<le> x" | "x < 0" "0 \<le> y" | "y < 0" using xy by linarith
  then show ?thesis
  proof cases
    case 1 then show ?thesis using xy by (simp add: f64_round_def floor_mono)
  next
    case 2
    then have "f64_round x \<le> 0" "0 \<le> f64_round y" by (simp_all add: f64_round_def)
    then show ?thesis by linarith
  next
    case 3 then show ?thesis using xy by (simp add: f64_round_def floor_mono)
  qed
qed

lemma round_places_mono:
  assumes "mono rnd" "rnd 0 = 0" "x \<le> y"
  shows "round_places rnd x n \<le> round_places rnd y n"
proof -
  have f: "0 \<le> rnd (10 ^ n)" using monoD [OF assms(1), of 0 "10 ^ n"] assms(2) by simp
  then have "f64_round (rnd (x * rnd (10 ^ n))) \<le> f64_round (rnd (y * rnd (10 ^ n)))"
    using assms(3) by (intro f64_round_mono monoD [OF assms(1)] mult_right_mono)
  then show ?thesis unfolding round_places_def Let_def
    by (intro monoD [OF assms(1)] divide_right_mono f) simp
qed

lemma pct_mono:
  assumes "mono rnd" "rnd 0 = 0" "rnd 1 = 1" "p \<le> q"
  shows "pct rnd (sort xs) p \<le> pct rnd (sort xs) q"
proof (cases "xs = []")
  case False
  let ?n = "rnd (rnd (real (length (sort xs))) - 1)"
  have "1 \<le> real (length xs)" using False by (simp add: Suc_le_eq)
  then have "1 \<le> rnd (real (length xs))" using monoD [OF assms(1), of 1 "real (length xs)"] assms(3) by simp
  then have "0 \<le> ?n" using monoD [OF assms(1), of 0 "rnd (real (length xs)) - 1"] assms(2) by simp
  moreover have "rnd (p / 100) \<le> rnd (q / 100)" using assms(1,4) by (intro monoD [of rnd]) simp_all
  ultimately have "rnd (rnd (p / 100) * ?n) \<le> rnd (rnd (q / 100) * ?n)"
    by (simp add: monoD [OF assms(1)] mult_right_mono)
  then have "min (min (nat (f64_round (rnd (rnd (p / 100) * ?n)))) (2 ^ 64 - 1)) (length (sort xs) - 1)
      \<le> min (min (nat (f64_round (rnd (rnd (q / 100) * ?n)))) (2 ^ 64 - 1)) (length (sort xs) - 1)"
    by (intro min.mono nat_mono f64_round_mono) simp_all
  moreover have "min k (length (sort xs) - 1) < length (sort xs)" for k
    using False length_greater_0_conv [of "sort xs"] by (simp add: min_less_iff_disj)
  ultimately have "sort xs ! min (min (nat (f64_round (rnd (rnd (p / 100) * ?n)))) (2 ^ 64 - 1)) (length (sort xs) - 1)
      \<le> sort xs ! min (min (nat (f64_round (rnd (rnd (q / 100) * ?n)))) (2 ^ 64 - 1)) (length (sort xs) - 1)"
    by (intro sorted_nth_mono) simp_all
  moreover have "sort xs \<noteq> []" using False by (metis length_0_conv length_sort)
  ultimately show ?thesis by (simp only: pct_def Let_def if_False)
qed (simp add: pct_def)

lemma pct_le_max: "pct rnd (sort xs) p \<le> (if sort xs = [] then 0 else last (sort xs))"
proof (cases "xs = []")
  case False
  then have "sort xs ! min i (length xs - 1) \<le> sort xs ! (length xs - 1)" for i
    by (intro sorted_nth_mono) simp_all
  then show ?thesis using False by (auto simp: pct_def Let_def last_conv_nth)
qed (simp add: pct_def)

text \<open>
  The latencies of a report are ordered: for whatever was measured, the empty run included, the
  median is at most the 95th percentile, that at most the 99th, and that at most the maximum, also
  after the rounding to two places; for every rounding of the arithmetic that is monotone and exact
  on 0 and 1.
\<close>

theorem reported_latencies_are_ordered:
  assumes "mono rnd" "rnd 0 = 0" "rnd 1 = 1"
  shows "lt_p50 (latency_summary rnd xs) \<le> lt_p95 (latency_summary rnd xs) \<and>
    lt_p95 (latency_summary rnd xs) \<le> lt_p99 (latency_summary rnd xs) \<and>
    lt_p99 (latency_summary rnd xs) \<le> lt_max (latency_summary rnd xs)"
  unfolding latency_summary_def Let_def latency.select_convs
  by (intro conjI round_places_mono [OF assms(1,2)] pct_mono [OF assms] pct_le_max) simp_all

theorem reported_latencies_are_ordered_witness:
  "lt_p50 (latency_summary exact [3, 1, 2]) \<le> lt_max (latency_summary exact [3, 1, 2])"
  using reported_latencies_are_ordered [of exact "[3, 1, 2]"] exact_mono by (simp add: exact_id)

end
