(* ===== verification/Load_Run.thy ===== *)
theory Load_Run
  imports Bench Api "HOL-Library.Multiset"
begin

text \<open>
  The sending side of the load generator (\<open>examples/bench_loadgen.rs\<close>) as a state machine: the
  loop takes a permit of the semaphore and spawns the task of the next message, the task posts the
  body of its message, and it completes with some response and gives its permit back; the tasks
  interleave in any order. With it, how a response is read, and that the
  ids the generator compares are the same: the first delivery id of the API's answer to a message
  is the \<open>webhook-id\<close> the dispatcher sends with that delivery.
\<close>

section \<open>One send\<close>

definition send_body :: "nat \<Rightarrow> json" where
  "send_body i = JObject [(''event_type'', JString ''bench''), (''payload'', JObject [(''n'', JNumber (show_nat i))])]"

text \<open>\<open>v.get("delivery_ids").and_then(|d| d.get(0)).and_then(|x| x.as_str())\<close>\<close>

definition first_delivery_id :: "json \<Rightarrow> string option" where
  "first_delivery_id v =
     (case v of
        JObject kvs \<Rightarrow>
          (case map_of kvs ''delivery_ids'' of
             Some (JArray (JString s # rest)) \<Rightarrow> Some s
           | _ \<Rightarrow> None)
      | _ \<Rightarrow> None)"

text \<open>The response to a send: none, a status, and the body if it is JSON.\<close>

definition send_result_of :: "(int \<times> json option) option \<Rightarrow> send_result" where
  "send_result_of resp =
     (case resp of
        None \<Rightarrow> send_result.Send_error
      | Some (status, body) \<Rightarrow>
          if 200 \<le> status \<and> status < 300 then Acked (Option.bind body first_delivery_id) else Refused (nat status))"

section \<open>The loop\<close>

text \<open>A task of message \<open>i\<close>: spawned, or with its request sent at an instant.\<close>

datatype load_task = Spawned nat | Posted nat nat

fun task_message :: "load_task \<Rightarrow> nat" where
  "task_message (Spawned i) = i"
| "task_message (Posted i send_t) = i"

fun is_posted :: "load_task \<Rightarrow> bool" where
  "is_posted (Spawned i) = False"
| "is_posted (Posted i send_t) = True"

text \<open>The next message of the loop, the free permits, the tasks, the bodies posted so far, the counters,
  and the completed sends with the number of their message.\<close>

record load_run =
  ld_next :: nat
  ld_permits :: nat
  ld_flight :: "load_task list"
  ld_posted :: "json list"
  ld_counters :: loadgen
  ld_done :: "(nat \<times> nat \<times> nat \<times> send_result) list"

definition load_start :: "nat \<Rightarrow> load_run" where
  "load_start concurrency =
     \<lparr>ld_next = 0, ld_permits = concurrency, ld_flight = [], ld_posted = [], ld_counters = loadgen_start, ld_done = []\<rparr>"

inductive load_step :: "(real \<Rightarrow> real) \<Rightarrow> nat \<Rightarrow> load_run \<Rightarrow> load_run \<Rightarrow> bool" for rnd n where
  spawn: "ld_next s < n \<Longrightarrow> 0 < ld_permits s \<Longrightarrow>
    load_step rnd n s (s\<lparr>ld_next := Suc (ld_next s), ld_permits := ld_permits s - 1,
      ld_flight := ld_flight s @ [Spawned (ld_next s)]\<rparr>)"
| post: "ld_flight s = xs @ Spawned i # ys \<Longrightarrow>
    load_step rnd n s (s\<lparr>ld_flight := xs @ Posted i send_t # ys, ld_posted := ld_posted s @ [send_body i]\<rparr>)"
| complete: "ld_flight s = xs @ Posted i send_t # ys \<Longrightarrow> c = (send_t, ack_t, send_result_of resp) \<Longrightarrow>
    load_step rnd n s (s\<lparr>ld_flight := xs @ ys, ld_permits := Suc (ld_permits s),
      ld_counters := record_send rnd (ld_counters s) c, ld_done := ld_done s @ [(i, c)]\<rparr>)"

text \<open>The messages of the tasks and of the completed sends are those the loop has taken, once each; the
  bodies posted are those of the tasks that have posted and of the completed sends.\<close>

definition load_inv :: "(real \<Rightarrow> real) \<Rightarrow> nat \<Rightarrow> nat \<Rightarrow> load_run \<Rightarrow> bool" where
  "load_inv rnd n concurrency s \<longleftrightarrow>
     ld_permits s + length (ld_flight s) = concurrency \<and> ld_next s \<le> n \<and>
     mset (map fst (ld_done s)) + mset (map task_message (ld_flight s)) = mset [0..<ld_next s] \<and>
     mset (ld_posted s) =
       image_mset send_body (mset (map fst (ld_done s)) + mset (map task_message (filter is_posted (ld_flight s)))) \<and>
     ld_counters s = foldl (record_send rnd) loadgen_start (map snd (ld_done s))"

lemma load_inv_start: "load_inv rnd n concurrency (load_start concurrency)"
  by (simp add: load_inv_def load_start_def)

lemma load_inv_step:
  assumes "load_step rnd n s s'" "load_inv rnd n concurrency s"
  shows "load_inv rnd n concurrency s'"
    "ld_next s' + length (ld_posted s') + length (ld_done s') = Suc (ld_next s + length (ld_posted s) + length (ld_done s))"
  using assms by (induction rule: load_step.induct) (auto simp: load_inv_def)

lemma load_inv_run:
  "(load_step rnd n ^^ k) (load_start concurrency) s \<Longrightarrow>
   load_inv rnd n concurrency s \<and> ld_next s + length (ld_posted s) + length (ld_done s) = k"
proof (induction k arbitrary: s)
  case 0
  then show ?case using load_inv_start by (auto simp: load_start_def)
next
  case (Suc k)
  then obtain s0 where "(load_step rnd n ^^ k) (load_start concurrency) s0" "load_step rnd n s0 s" by auto
  with Suc.IH [of s0] load_inv_step [of rnd n s0 s concurrency] show ?case by simp
qed

lemma load_inv_counts:
  assumes "load_inv rnd n concurrency s"
  shows "length (ld_done s) + length (ld_flight s) = ld_next s"
    "length (ld_posted s) = length (ld_done s) + length (filter is_posted (ld_flight s))"
proof -
  have "size (mset (map fst (ld_done s)) + mset (map task_message (ld_flight s))) = size (mset [0..<ld_next s])"
    using assms by (simp only: load_inv_def)
  then show "length (ld_done s) + length (ld_flight s) = ld_next s" by simp
  have "size (mset (ld_posted s)) =
      size (image_mset send_body (mset (map fst (ld_done s)) + mset (map task_message (filter is_posted (ld_flight s)))))"
    using assms by (simp only: load_inv_def)
  then show "length (ld_posted s) = length (ld_done s) + length (filter is_posted (ld_flight s))"
    by (simp only: size_image_mset size_union size_mset length_map)
qed

lemma load_blocked:
  assumes "load_inv rnd n concurrency s" "\<And>s'. \<not> load_step rnd n s s'"
  shows "ld_flight s = [] \<and> (ld_next s = n \<or> concurrency = 0)"
proof
  show f: "ld_flight s = []"
  proof (cases "ld_flight s")
    case (Cons task rest)
    show ?thesis
    proof (cases task)
      case (Spawned i)
      with Cons have "ld_flight s = [] @ Spawned i # rest" by simp
      from load_step.post [OF this] assms(2) show ?thesis by blast
    next
      case (Posted i t)
      with Cons have "ld_flight s = [] @ Posted i t # rest" by simp
      from load_step.complete [OF this refl] assms(2) show ?thesis by blast
    qed
  qed
  show "ld_next s = n \<or> concurrency = 0"
  proof -
    have "\<not> (ld_next s < n \<and> 0 < ld_permits s)" using assms(2) load_step.spawn [of s n rnd] by blast
    then show ?thesis using assms(1) f by (auto simp: load_inv_def)
  qed
qed

lemma send_body_inject: "send_body i = send_body j \<longleftrightarrow> i = j"
  using show_nat_inj by (auto simp: send_body_def)

text \<open>C40. The load generator keeps to its concurrency, sends every message once and accounts for each.
  After any number of steps of any interleaving there are at most \<open>concurrency\<close> tasks in flight, at
  most three steps per message were made, and no body was posted twice; and when nothing more can
  happen, with a concurrency of at least one, the bodies that were posted are those of the messages
  \<open>0\<close> to \<open>n - 1\<close>, once each, the sends that completed are those of the same messages, once each, and
  each is counted once, as acknowledged with its latency or as a failure. (A concurrency of zero
  never sends anything.)\<close>

theorem load_run_accounts:
  assumes "(load_step rnd n ^^ k) (load_start concurrency) s"
  shows "length (ld_flight s) \<le> concurrency \<and> k \<le> 3 * n \<and> distinct (ld_posted s) \<and>
    ((\<forall>s'. \<not> load_step rnd n s s') \<and> 0 < concurrency \<longrightarrow>
       mset (ld_posted s) = mset (map send_body [0..<n]) \<and> mset (map fst (ld_done s)) = mset [0..<n] \<and> ld_flight s = [] \<and>
       ld_counters s = foldl (record_send rnd) loadgen_start (map snd (ld_done s)) \<and>
       of_nat (length (lg_ack_lat_ms (ld_counters s))) + lg_send_fail (ld_counters s) = of_nat n)"
proof (intro conjI impI)
  have i: "load_inv rnd n concurrency s" and k: "ld_next s + length (ld_posted s) + length (ld_done s) = k"
    using load_inv_run [OF assms] by auto
  note c = load_inv_counts [OF i]
  show "length (ld_flight s) \<le> concurrency" using i by (auto simp: load_inv_def)
  have "length (filter is_posted (ld_flight s)) \<le> length (ld_flight s)" by simp
  moreover have "ld_next s \<le> n" using i by (simp add: load_inv_def)
  ultimately show "k \<le> 3 * n" using k c by linarith
  have "mset (map fst (ld_done s)) + mset (map task_message (filter is_posted (ld_flight s))) \<subseteq># mset [0..<ld_next s]"
  proof -
    have "mset (map task_message (filter is_posted (ld_flight s))) \<subseteq># mset (map task_message (ld_flight s))"
      by (simp add: image_mset_subseteq_mono multiset_filter_subset)
    then show ?thesis using i unfolding load_inv_def by (metis subset_mset.add_left_mono)
  qed
  then obtain zs where zs: "mset [0..<ld_next s] =
      mset (map fst (ld_done s)) + mset (map task_message (filter is_posted (ld_flight s))) + mset zs"
    by (metis ex_mset mset_subset_eq_exists_conv)
  define xs where "xs = map fst (ld_done s) @ map task_message (filter is_posted (ld_flight s))"
  have "mset (xs @ zs) = mset [0..<ld_next s]" by (simp only: zs xs_def mset_append)
  then have "distinct (xs @ zs)" by (metis distinct_upt mset_eq_imp_distinct_iff)
  then have xs: "mset (map fst (ld_done s)) + mset (map task_message (filter is_posted (ld_flight s))) = mset xs" "distinct xs"
    by (simp_all only: xs_def mset_append distinct_append)
  then have "mset (ld_posted s) = mset (map send_body xs)" using i by (simp add: load_inv_def)
  moreover have "distinct (map send_body xs)" using xs(2) by (simp add: distinct_map inj_on_def send_body_inject)
  ultimately show "distinct (ld_posted s)" by (metis mset_eq_imp_distinct_iff)
  assume "(\<forall>s'. \<not> load_step rnd n s s') \<and> 0 < concurrency"
  then have f: "ld_flight s = []" "ld_next s = n" using load_blocked [OF i] by auto
  then show "ld_flight s = []" "mset (map fst (ld_done s)) = mset [0..<n]" "mset (ld_posted s) = mset (map send_body [0..<n])"
    "ld_counters s = foldl (record_send rnd) loadgen_start (map snd (ld_done s))"
    using i by (simp_all add: load_inv_def)
  then show "of_nat (length (lg_ack_lat_ms (ld_counters s))) + lg_send_fail (ld_counters s) = of_nat n"
    using sends_accounted [of rnd "map snd (ld_done s)"] c(1) f by auto
qed

text \<open>One message: it is sent, and its response names the delivery \<open>a\<close>.\<close>

definition one_sent :: load_run where
  "one_sent = \<lparr>ld_next = 1, ld_permits = 1, ld_flight = [], ld_posted = [send_body 0],
     ld_counters = record_send exact loadgen_start (5, 9, Acked (Some ''a'')),
     ld_done = [(0, 5, 9, Acked (Some ''a''))]\<rparr>"

lemma one_sent_run: "(load_step exact 1 ^^ 3) (load_start 1) one_sent"
proof -
  let ?s1 = "(load_start 1)\<lparr>ld_next := 1, ld_permits := 0, ld_flight := [Spawned 0]\<rparr>"
  let ?s2 = "?s1\<lparr>ld_flight := [Posted 0 5], ld_posted := [send_body 0]\<rparr>"
  have "load_step exact 1 (load_start 1) ?s1"
    using load_step.spawn [of "load_start 1" 1 exact] by (simp add: load_start_def)
  moreover have "load_step exact 1 ?s1 ?s2"
    using load_step.post [of ?s1 "[]" 0 "[]" exact 1 5] by (simp add: load_start_def)
  moreover have "load_step exact 1 ?s2 one_sent"
    using load_step.complete [of ?s2 "[]" 0 5 "[]" "(5, 9, Acked (Some ''a''))" 9
        "Some (201, Some (JObject [(''delivery_ids'', JArray [JString ''a''])]))" exact 1]
    by (simp add: load_start_def one_sent_def send_result_of_def first_delivery_id_def)
  ultimately show ?thesis by (auto simp: numeral_3_eq_3)
qed

lemma one_sent_stuck: "\<not> load_step exact 1 one_sent s'"
  by (auto simp: one_sent_def elim: load_step.cases)

theorem load_run_accounts_witness:
  "mset (ld_posted one_sent) = {#send_body 0#} \<and> length (ld_done one_sent) = 1 \<and> ld_flight one_sent = []"
  using load_run_accounts [OF one_sent_run] one_sent_stuck by (simp add: one_sent_def)

section \<open>The ids agree\<close>

lemma signed_id: "signature_headers_for X sec mid ts body = Inr h \<Longrightarrow> sh_id h = mid"
  unfolding signature_headers_for_def by (cases "sign X sec mid ts body") auto

text \<open>The id the generator takes from the answer to a message is the \<open>webhook-id\<close> of every genuine
  request for that delivery.\<close>

lemma bench_ids_agree:
  assumes "en_delivery_ids q = did # rest" "rs_body (created_response A q) = Json j"
    and "genuine D v ep now events rq" "dl_id v = did" "dp_ushow D = ad_ushow A"
  shows "first_delivery_id j = map_of (rq_headers rq) ''webhook-id''"
  using assms by (auto simp: created_response_def respond_with_def first_delivery_id_def jid_def genuine_def
      webhook_request_def dest: signed_id)

end
