(* ===== verification/Unit_Tests.thy ===== *)
theory Unit_Tests
  imports Dispatcher Ratelimit Inbound
begin

text \<open>
  The unit tests of the crates, as lemmas on the model: what the authors assert of \<open>retry.rs\<close>,
  \<open>circuit.rs\<close>, \<open>model.rs\<close>, \<open>inbound.rs\<close>, \<open>ratelimit.rs\<close> and \<open>dispatcher.rs\<close> on their inputs holds
  of the definitions here, evaluated by the simplifier; where a test samples (a loop over attempts,
  a random backoff), the lemma is for all values. Left out are the known-answer tests of HMAC-SHA256
  and SHA-256, which are parameters of the model.
\<close>

section \<open>retry.rs\<close>

lemma test_ceiling_grows_then_caps:
  fixes p
  defines "p \<equiv> \<lparr>rp_base = from_secs 1, rp_max_delay = from_secs 60, rp_max_attempts = 100\<rparr>"
  shows "ceiling_delay p 1 = from_secs 1" "ceiling_delay p 2 = from_secs 2" "ceiling_delay p 3 = from_secs 4"
    "ceiling_delay p 40 = from_secs 60"
  by (simp_all add: p_def ceiling_delay_def backoff_exp_def i32_saturating_sub_def int_width_defs duration_defs
      u64_checked_shl_def u64_saturating_mul_def Let_def)

lemma test_exhaustion_respects_max_attempts:
  fixes p
  defines "p \<equiv> retry_policy_default\<lparr>rp_max_attempts := 3\<rparr>"
  shows "\<not> is_exhausted p 2" "is_exhausted p 3" "is_exhausted p 4"
  by (simp_all add: p_def is_exhausted_def)

section \<open>circuit.rs\<close>

definition test_endpoint :: "string \<Rightarrow> int \<Rightarrow> timestamp option \<Rightarrow> endpoint" where
  "test_endpoint state failures open_until = sample_endpoint\<lparr>ep_circuit_state := state,
     ep_consecutive_failures := failures, ep_circuit_open_until := open_until\<rparr>"

lemma test_closed_endpoint_is_allowed: "gate_at (test_endpoint ''closed'' 0 None) now = Allow"
  by (simp add: test_endpoint_def gate_at_def)

lemma test_open_endpoint_skips_until_window:
  fixes now :: timestamp
  defines "until \<equiv> now + 30 * 1000000"
  shows "gate_at (test_endpoint ''open'' 5 (Some until)) now = Skip until"
    "gate_at (test_endpoint ''open'' 5 (Some until)) until = Probe"
  by (simp_all add: test_endpoint_def gate_at_def skip_or_probe_def until_def)

lemma test_half_open_skips_during_probe_then_reprobes:
  fixes now :: timestamp
  defines "until \<equiv> now + 30 * 1000000"
  shows "gate_at (test_endpoint ''half_open'' 5 (Some until)) now = Skip until"
    "gate_at (test_endpoint ''half_open'' 5 (Some until)) until = Probe"
  by (simp_all add: test_endpoint_def gate_at_def skip_or_probe_def until_def)

lemma test_failures_trip_open_at_threshold:
  fixes now :: timestamp
  defines "upd \<equiv> on_failure (test_endpoint ''closed'' (cp_failure_threshold circuit_policy_default - 1) None)
      circuit_policy_default now"
  shows "cu_state upd = ''open''" "cu_open_until upd \<noteq> None"
  by (simp_all add: upd_def on_failure_def test_endpoint_def circuit_policy_default_def i32_saturating_add_def
      int_width_defs Let_def)

lemma test_success_resets: "cu_state on_success = ''closed''" "cu_consecutive_failures on_success = 0"
  by (simp_all add: on_success_def)

section \<open>model.rs\<close>

lemma test_status_roundtrips_through_string: "status_from_str dbg (status_as_str s) = Inr s"
  by (cases s) (simp_all add: status_from_str_def)

lemma test_unknown_status_is_invalid: "\<exists>e. status_from_str dbg ''nope'' = Inl e"
  by (simp add: status_from_str_def)

definition test_subscriber :: "string list option \<Rightarrow> endpoint" where
  "test_subscriber event_types = sample_endpoint\<lparr>ep_event_types := event_types\<rparr>"

lemma test_endpoint_subscription_matching:
  "subscribes_to (test_subscriber None) ''anything''"
  "subscribes_to (test_subscriber (Some [])) ''anything''"
  "subscribes_to (test_subscriber (Some [''payment.succeeded''])) ''payment.succeeded''"
  "\<not> subscribes_to (test_subscriber (Some [''payment.succeeded''])) ''payment.failed''"
  "subscribes_to (test_subscriber (Some [''payment.*''])) ''payment.failed''"
  "\<not> subscribes_to (test_subscriber (Some [''payment.*''])) ''order.created''"
  "subscribes_to (test_subscriber (Some [''*''])) ''whatever''"
  "subscribes_to (test_subscriber (Some [''order.created'', ''payment.*''])) ''order.created''"
  "subscribes_to (test_subscriber (Some [''order.created'', ''payment.*''])) ''payment.refunded''"
  "\<not> subscribes_to (test_subscriber (Some [''order.created'', ''payment.*''])) ''user.created''"
  by code_simp+

section \<open>inbound.rs\<close>

lemma test_provider_roundtrips:
  "provider_from_str dbg (provider_as_str p) = Inr p" "\<exists>e. provider_from_str dbg ''nope'' = Inl e"
  by (cases p) (simp_all add: provider_from_str_def)

section \<open>ratelimit.rs\<close>

lemma test_disabled_allows_everything:
  "\<not> limiter_enabled (limiter_new 0 0)" "check_at rnd (limiter_new 0 0) key now = (None, limiter_new 0 0)"
  by (simp_all add: limiter_enabled_def limiter_new_def check_at_def)

text \<open>The answers to a sequence of requests.\<close>

fun answers :: "limiter \<Rightarrow> (string \<times> nat) list \<Rightarrow> int option list" where
  "answers l [] = []"
| "answers l ((key, t) # reqs) = (case check_at exact l key t of (r, l') \<Rightarrow> r # answers l' reqs)"

lemmas limiter_run = limiter_new_def check_at_def refill_def bucket_of_def exact_id as_secs_exact Let_def

lemma test_burst_then_throttle_then_refill:
  "answers (limiter_new 10 5) [(''t'', t0), (''t'', t0), (''t'', t0), (''t'', t0), (''t'', t0), (''t'', t0), (''t'', t0 + 10 ^ 9)] =
     [None, None, None, None, None, Some 1, None]"
  by (simp add: limiter_run ceiling_eq_iff)

lemma test_tenants_are_isolated:
  "answers (limiter_new 1 1) [(''a'', t0), (''a'', t0), (''b'', t0)] = [None, Some 1, None]"
  by (simp add: limiter_run)

section \<open>dispatcher.rs\<close>

lemma test_truncate_respects_char_boundaries:
  "truncate_bytes ''hello'' 10 = ''hello''" "truncate_bytes ''hello'' 3 = ''hel''"
  "truncate_bytes [char_of (0xE2 :: nat), char_of (0x9C :: nat), char_of (0x93 :: nat)] 2 = []"
  by code_simp+

end
