(* ===== verification/Spec2Isabelle.thy ===== *)
theory Spec2Isabelle
  imports Cli Serve Http Worker_Control Isolation Lease_Queue Progress Load_Run Unit_Tests
begin

text \<open>
  A verification of Dropless, a self-hosted webhook engine in Rust
  (\<open>src/crates/dropless-core\<close> and \<open>src/crates/dropless\<close>). A producer posts a message; the
  outbox stores the event with one delivery per subscribed endpoint in one transaction; workers
  claim due deliveries under a lease, sign and send them, and settle each attempt in a
  transaction guarded by the lease; providers post inbound webhooks, which are verified, stored
  once and bridged into the same queue. Postgres is the only shared state.

  \<^bold>\<open>The library.\<close> Each theory names the file it models and keeps the names of the code.

  \<^item> \<open>Prelude\<close>, \<open>Rust_Std\<close>: shared types, keyed rows (locale \<open>keyed_update\<close>), \<open>i32\<close>,
    \<open>i64\<close> and \<open>u64\<close> arithmetic, the functions of \<open>str\<close> that are used, lossy UTF-8 decoding.
  \<^item> \<open>Model\<close> (\<open>error.rs\<close>, \<open>model.rs\<close>), \<open>Retry\<close>, \<open>Circuit\<close>, \<open>Signing\<close>, \<open>Inbound\<close>: the pure
    parts, one theory per file. \<open>Ratelimit\<close>, \<open>Notify\<close>: the token bucket, and the coalesced waker
    as a step relation with one rule per atomic access.
  \<^item> \<open>Store\<close> (\<open>store.rs\<close> over \<open>migrations/*.sql\<close>): the tables as a record of row lists, every
    statement as a function to an error or a result and the new database; primary, unique and
    foreign keys are checked in the order of the insertion, and the attempt row, whose snippet is
    what a receiver answered, is refused when its texts hold a NUL byte, as Postgres does.
  \<^item> \<open>Effects\<close>: the asynchronous code as functions on a world: the committed database, the open
    transaction, the requests sent, the rate limiter, and a stream of answers from outside (what
    other tasks committed meanwhile, connection faults before or after the effect, clocks, ids,
    random draws, row locks, HTTP replies, the shutdown flag). Weakest preconditions, and
    \<open>obeys\<close>: in an environment that takes only permitted steps, the program takes only those.
  \<^item> \<open>Outbox\<close>, \<open>Inbox\<close>, \<open>Dispatcher\<close>, \<open>Config\<close>, \<open>Responses\<close>, \<open>Gateway\<close>, \<open>Api\<close>, \<open>Cli\<close>: the
    programs of \<open>outbox.rs\<close>, \<open>inbox.rs\<close>, \<open>dispatcher.rs\<close>, \<open>config.rs\<close>, \<open>api.rs\<close> and the
    commands of \<open>main.rs\<close>, statement by statement with their early returns.
  \<^item> \<open>Http\<close>: from the raw request to the handler: the route tables of \<open>router\<close>, the extractors and
    the structs of bodies and queries.
  \<^item> \<open>Serve\<close>: \<open>serve\<close> of \<open>main.rs\<close> with \<open>spawn_workers\<close>, as the sequence of what a process does
    from its arguments to its drain, cut short by the first failure; the host is a parameter.
  \<^item> \<open>Shutdown\<close>: the \<open>watch\<close> channel and the loops that wait on it (\<open>shutdown_when\<close>,
    \<open>listen_loop\<close>, the control of \<open>run_worker\<close>) as transition functions over the places where they
    look or wait, with the locale \<open>heedful\<close> of the discipline they share. \<open>Worker_Control\<close>: the
    loop of \<open>Dispatcher\<close> run with a log of what it observes, which is a walk through this control.
  \<^item> \<open>Bench\<close>, \<open>Load_Run\<close>: the load generator and the mock receiver of \<open>crates/dropless/examples\<close>.
    \<open>Unit_Tests\<close>: the unit tests of the crates as lemmas on the model.
  \<^item> \<open>Ledger\<close>, \<open>Lease\<close>, \<open>Transactions\<close>, \<open>Queue\<close>, \<open>Columns\<close>, \<open>Lease_Queue\<close>, \<open>Isolation\<close>: what
    holds of them together. \<open>Transactions\<close> has the labelled step relation \<open>db_step\<close> of
    everything the system commits and its invariant \<open>inv\<close>.

  \<^bold>\<open>How the theorems fit together.\<close> \<open>db_step\<close> is written over the statements of \<open>Store\<close>. That
  workers, API requests, inbound webhooks and commands commit only such steps, under any faults
  and any interleaving, is proved of the programs (\<open>Dispatcher\<close>, \<open>Api\<close>, \<open>Cli.command_obeys\<close>), so
  what \<open>Queue\<close>, \<open>Columns\<close> and \<open>Lease_Queue\<close> show of all runs holds of the running system:
  nothing is lost, scopes never cross, leases exclude, finished deliveries stay finished and
  unfinished ones come due, columns stay typed, and the deliveries table refines an abstract
  lease queue (locale \<open>step_refinement\<close>). \<open>Outbox\<close>, \<open>Inbox\<close> and \<open>Dispatcher\<close> say what each
  transaction achieves on every branch; \<open>Gateway\<close> and \<open>Api\<close> what may be stored and answered for
  whom; \<open>Isolation\<close> that tenants neither see nor touch each other (non-interference);
  \<open>Progress\<close> that a worker left in peace delivers all it claims that can be sent. \<open>Http\<close> carries what is shown of
  the router over to raw requests: each operation is reached by its URL, and nothing else gets past
  the authentication. \<open>Worker_Control\<close> ties the loop with its effects to its control. \<open>Serve\<close> and \<open>Shutdown\<close> are about
  the process: nothing starts before the database is ready, no loop misses the shutdown signal
  wherever it is when the signal comes, and a process that ends has waited for what it started.
  This theory puts them together: what was acknowledged is never dropped, and in a calm
  environment, to endpoints that are enabled with a closed breaker, it is delivered.

  \<^bold>\<open>Bounds.\<close> \<open>run_worker\<close> has a number of turns as fuel; a worker of the program runs until
  shutdown, so the safety theorems are for every number of turns, and
  \<open>worker_stops_after_shutdown\<close> shows that enough turns give a result once the flag is set, and
  how many. \<open>Shutdown\<close> needs no fuel: its runs are finite sequences of steps of any length, and
  what bounds them after the signal is a rank of the places. Every other loop is structural or has a termination proof. Integers of the pure
  parts keep their width; a timestamp is an unbounded number of microseconds.

  \<^bold>\<open>Assumptions.\<close> Transactions are serialised at their commit, and a statement sees the
  database as the other tasks left it; \<open>SKIP LOCKED\<close> rows are chosen by the environment; rows
  that tie in an \<open>ORDER BY\<close> keep their order. HMAC, SHA-256, base64, JSON parsing, the text of
  UUIDs and times, the collation, the rounding of \<open>f64\<close> and header decoding are parameters
  (\<open>crypto\<close>, \<open>deps\<close>, \<open>api_deps\<close>); a theorem that needs a law of them states it.

  \<^bold>\<open>Not modelled.\<close> The inside of sockets and signal handlers, argument parsing, the migration
  runner (its SQL is reflected in the checks of \<open>Store\<close>), logging, percent-decoding and JSON syntax
  (parameters), the HTML pages, the TypeScript client and the integration test: input and output
  without logic of their own, or code outside the engine. In \<open>Dispatcher\<close> an early wake-up is a
  pause that ends early; how long a wait takes, the detached task that issues a \<open>NOTIFY\<close> and the
  way of a notification through Postgres are not followed. Texts of requests are stored as they
  are: that Postgres refuses a NUL in them is one of the faults a statement may have.
\<close>

section \<open>What was acknowledged is never dropped\<close>

text \<open>The outcome of a delivery, in a given database: it succeeded and a 2xx answer is recorded,
  it is dead and its dead letter is stored, or it comes due.\<close>

definition accounted_for :: "db \<Rightarrow> delivery \<Rightarrow> bool" where
  "accounted_for db d \<longleftrightarrow>
     dl_status d = ''succeeded'' \<and> (\<exists>a\<in>set (t_attempts db). da_delivery_id a = dl_id d \<and>
       (\<exists>c. da_status_code a = Some c \<and> is_success c)) \<or>
     dl_status d = ''dead'' \<and> (\<exists>l\<in>set (t_dead_letters db). dd_delivery_id l = dl_id d) \<or>
     (\<exists>t. \<forall>now>t. due now d)"

lemma reachable_accounted_for:
  assumes "run ushow as empty_db db" "d \<in> set (t_deliveries db)"
  shows "accounted_for db d"
proof -
  have "evidence db d" using reachable_delivery_ok [OF assms] by (simp add: delivery_ok_def)
  then show ?thesis using becomes_due [OF assms] unfolding accounted_for_def evidence_def by blast
qed

lemma run_append: "run ushow as db db1 \<Longrightarrow> run ushow bs db1 db2 \<Longrightarrow> run ushow (as @ bs) db db2"
  by (rotate_tac, induction rule: run.induct) (auto intro: run.snoc simp flip: append_assoc)

lemma request_reaches:
  assumes "env_ok (any_step (ad_ushow A)) w" "run (ad_ushow A) as empty_db (w_db w)" "router A S hs c w = (r, w')"
  shows "\<exists>cs. run (ad_ushow A) cs empty_db (w_db w')"
proof -
  have "rtranclp (any_step (ad_ushow A)) empty_db (w_db w')"
    using obeysD [OF router_obeys assms(3,1)] run_any_steps [OF assms(2)] by (blast intro: rtranclp_trans)
  then show ?thesis using any_steps_run by blast
qed

text \<open>The event and the deliveries an acknowledged message stored.\<close>

lemma acknowledged_deliveries:
  assumes "router A S hs (V1 (CreateMessage ty payload)) w = (Inr (Some resp), w')" "rs_status resp = 201"
  shows "\<exists>token (q :: enqueued_result) now. \<exists>k\<in>set (t_api_keys (seen w)). bearer_token A hs = Some token \<and>
    ak_key_hash k = hash_key A token \<and> resp = created_response A q \<and>
    (\<exists>e\<in>set (t_events (w_db w')). ev_id e = en_event_id q \<and> ev_tenant_id e = ak_tenant_id k \<and> ev_payload e = payload) \<and>
    (\<forall>p\<in>set (recipients (ak_tenant_id k) None ty (w_db w')). \<exists>i\<in>set (en_delivery_ids q).
       new_delivery (ad_ushow A) now i (en_event_id q) (ep_id p) (ak_tenant_id k) \<in> set (t_deliveries (w_db w')))"
proof -
  obtain token k now db0 and q :: enqueued_result where k: "bearer_token A hs = Some token" "k \<in> set (t_api_keys (seen w))"
    "ak_key_hash k = hash_key A token" and q: "resp = created_response A q"
    "enqueued (ad_ushow A) now (en_event_id q) (en_delivery_ids q) (ak_tenant_id k) None ty payload db0 (w_db w')"
    using message_created [OF assms] by blast
  note res = enqueued_result [OF q(2)]
  have "\<exists>i\<in>set (en_delivery_ids q).
      new_delivery (ad_ushow A) now i (en_event_id q) (ep_id p) (ak_tenant_id k) \<in> set (t_deliveries (w_db w'))"
    if "p \<in> set (recipients (ak_tenant_id k) None ty (w_db w'))" for p
  proof -
    have "p \<in> set (recipients (ak_tenant_id k) None ty db0)" using that res by (simp add: recipients_iff)
    then obtain i where "(i, p) \<in> set (zip (en_delivery_ids q) (recipients (ak_tenant_id k) None ty db0))"
      using res by (metis in_set_impl_in_set_zip2)
    then show ?thesis using res by (force dest: set_zip_leftD)
  qed
  moreover have "\<exists>e\<in>set (t_events (w_db w')). ev_id e = en_event_id q \<and> ev_tenant_id e = ak_tenant_id k \<and> ev_payload e = payload"
    using res by simp
  ultimately show ?thesis using k q(1) by blast
qed

text \<open>C1. What the API acknowledged is never dropped. After \<open>POST /v1/messages\<close> answered 201 with an
  event id, whatever requests, workers and commands do afterwards, in any order and under any
  faults: the event is stored with its payload for the tenant that owns the presented key, and
  for every endpoint that was subscribed when the message was accepted there is a delivery of
  that event, with one of the returned ids, that succeeded with a recorded 2xx answer, is dead
  with a stored dead letter, or comes due again.\<close>

theorem acknowledged_is_never_dropped:
  assumes "env_ok (any_step (ad_ushow A)) w" "run (ad_ushow A) as empty_db (w_db w)"
    and "router A S hs (V1 (CreateMessage ty payload)) w = (Inr (Some resp), w')" "rs_status resp = 201"
    and "run (ad_ushow A) bs (w_db w') db"
  shows "\<exists>token (q :: enqueued_result). \<exists>k\<in>set (t_api_keys (seen w)). bearer_token A hs = Some token \<and>
    ak_key_hash k = hash_key A token \<and> resp = created_response A q \<and>
    (\<exists>e\<in>set (t_events db). ev_id e = en_event_id q \<and> ev_tenant_id e = ak_tenant_id k \<and> ev_payload e = payload) \<and>
    (\<forall>p\<in>set (recipients (ak_tenant_id k) None ty (w_db w')). \<exists>d\<in>set (t_deliveries db).
       dl_event_id d = en_event_id q \<and> dl_endpoint_id d = ep_id p \<and> dl_id d \<in> set (en_delivery_ids q) \<and>
       accounted_for db d)"
proof -
  obtain token now k and q :: enqueued_result where k: "k \<in> set (t_api_keys (seen w))" "bearer_token A hs = Some token"
    "ak_key_hash k = hash_key A token" "resp = created_response A q"
    and e: "\<exists>e\<in>set (t_events (w_db w')). ev_id e = en_event_id q \<and> ev_tenant_id e = ak_tenant_id k \<and> ev_payload e = payload"
    and new: "\<And>p. p \<in> set (recipients (ak_tenant_id k) None ty (w_db w')) \<Longrightarrow> \<exists>i\<in>set (en_delivery_ids q).
       new_delivery (ad_ushow A) now i (en_event_id q) (ep_id p) (ak_tenant_id k) \<in> set (t_deliveries (w_db w'))"
    using acknowledged_deliveries [OF assms(3,4)] by blast
  from request_reaches [OF assms(1-3)] obtain cs where "run (ad_ushow A) cs empty_db (w_db w')" ..
  from run_append [OF this assms(5)] have reach: "run (ad_ushow A) (cs @ bs) empty_db db" .
  have ext: "extends (w_db w') db" by (rule run_extends [OF assms(5)])
  have "\<exists>d\<in>set (t_deliveries db). dl_event_id d = en_event_id q \<and> dl_endpoint_id d = ep_id p \<and>
      dl_id d \<in> set (en_delivery_ids q) \<and> accounted_for db d"
    if "p \<in> set (recipients (ak_tenant_id k) None ty (w_db w'))" for p
  proof -
    from new [OF that] obtain i d where i: "i \<in> set (en_delivery_ids q)" and d: "d \<in> set (t_deliveries db)"
      "dl_identity d = dl_identity (new_delivery (ad_ushow A) now i (en_event_id q) (ep_id p) (ak_tenant_id k))"
      using extends_delivery [OF ext] by blast
    then show ?thesis using reachable_accounted_for [OF reach]
      by (intro bexI [of _ d]) (auto simp: dl_identity_def new_delivery_def)
  qed
  then show ?thesis using k e extends_events [OF ext] by blast
qed

text \<open>The database after the sample request.\<close>

lemma posted_tables:
  "t_deliveries (w_db (snd posted)) = [new_delivery ushow0 5 7 3 7 ''t1'']" "t_events (w_db (snd posted)) = [event0]"
  "t_endpoints (w_db (snd posted)) = [sample_endpoint]" "t_attempts (w_db (snd posted)) = []"
  by (simp_all add: posted_def auth_def world_k_def run_defs tenant_for_api_key_def create_message_def limited_def
      check_at_def limiter_new_def publish_def enqueue_message_def insert_event_def has_key_opt_def db_a_eq empty_db_def
      active_endpoints_for_scope_def subscribes_to_def sample_endpoint_def insert_delivery_def created_response_def
      respond_with_def event0_def)

theorem acknowledged_is_never_dropped_witness:
  "\<exists>d\<in>set (t_deliveries (w_db (snd posted))). dl_endpoint_id d = 7 \<and> accounted_for (w_db (snd posted)) d"
proof -
  obtain resp where r: "posted = (Inr (Some resp), snd posted)" "rs_status resp = 201" using posted_201 by blast
  have env: "env_ok (any_step (ad_ushow api0)) world_k" by (simp add: world_k_def)
  have run: "run (ad_ushow api0) [Manage, Manage] empty_db (w_db world_k)" using run_k by simp
  have p: "sample_endpoint \<in> set (recipients ''t1'' None ''pay.ok'' (w_db (snd posted)))"
    by (simp add: recipients_iff posted_tables sample_endpoint_def subscribes_to_def)
  from acknowledged_is_never_dropped [OF env run r(1) [unfolded posted_def] r(2) run.nil]
  obtain k and q :: enqueued_result where k: "k \<in> set (t_api_keys (seen world_k))" and
    d: "\<And>p. p \<in> set (recipients (ak_tenant_id k) None ''pay.ok'' (w_db (snd posted))) \<Longrightarrow>
      \<exists>d\<in>set (t_deliveries (w_db (snd posted))). dl_endpoint_id d = ep_id p \<and> accounted_for (w_db (snd posted)) d"
    unfolding posted_def by blast
  have "ak_tenant_id k = ''t1''" using k by simp
  with d [of sample_endpoint] p show ?thesis by (simp add: sample_endpoint_def)
qed

section \<open>What was acknowledged is delivered when nothing goes wrong\<close>

text \<open>C2. End to end, when nothing goes wrong. On a database the system reached, a message is posted
  and answered 201; then a worker takes a turn on the database the request left, with a clock that is not before the creation of the rows
  and a batch that has room for what is due. During the turn the connection holds, nobody else
  writes, no row is locked, no shutdown comes, the clocks stay within the lease, ids are fresh and
  the receivers answer 2xx with a body that has no NUL byte in the part that is stored (\<open>calm\<close>). If every due delivery
  can be sent (\<open>sendable\<close>: its endpoint is enabled and has a closed breaker, its event is stored,
  its payload can be serialised and signed), then after this one turn every endpoint that was
  subscribed when the message was accepted has its delivery of the event, succeeded, with a recorded
  2xx attempt.\<close>

theorem posted_then_delivered:
  fixes w2 :: world and cfg :: dispatcher_config
  defines "t \<equiv> an_now (w_env w2 (Suc (w_pos w2)))"
  assumes "env_ok (any_step (ad_ushow A)) w" "run (ad_ushow A) as empty_db (w_db w)"
    and "router A S hs (V1 (CreateMessage ty payload)) w = (Inr (Some resp), w')" "rs_status resp = 201"
    and "w_db w2 = w_db w'" "\<And>d. d \<in> set (t_deliveries (w_db w2)) \<Longrightarrow> dl_created_at d \<le> t"
    and "calm (t + seconds (dc_lock_secs cfg)) N w2" "w_pos w2 + 2 + 12 * rows_affected (due t) (t_deliveries (w_db w2)) \<le> N"
    and "int (rows_affected (due t) (t_deliveries (w_db w2))) \<le> dc_batch_size cfg"
    and "\<And>d. d \<in> set (t_deliveries (w_db w2)) \<Longrightarrow> due t d \<Longrightarrow> sendable D (w_db w2) d"
  shows "\<exists>token (q :: enqueued_result) w3. \<exists>k\<in>set (t_api_keys (seen w)). bearer_token A hs = Some token \<and>
    ak_key_hash k = hash_key A token \<and> resp = created_response A q \<and> worker_turn D cfg worker w2 = (Inr True, w3) \<and>
    (\<forall>p\<in>set (recipients (ak_tenant_id k) None ty (w_db w')). \<exists>d\<in>set (t_deliveries (w_db w3)).
       dl_event_id d = en_event_id q \<and> dl_endpoint_id d = ep_id p \<and> dl_id d \<in> set (en_delivery_ids q) \<and>
       dl_status d = ''succeeded'' \<and>
       (\<exists>a\<in>set (t_attempts (w_db w3)). \<exists>c. da_delivery_id a = dl_id d \<and> da_status_code a = Some c \<and> is_success c))"
proof -
  let ?rows = "t_deliveries (w_db w2)"
  from request_reaches [OF assms(2-4)] obtain cs where "run (ad_ushow A) cs empty_db (w_db w')" ..
  then have "keys_ok (w_db w2)" using run_keys assms(6) by fastforce
  then obtain w3 where turn: "worker_turn D cfg worker w2 = (Inr True, w3)"
    and won: "\<And>d. d \<in> set ?rows \<Longrightarrow> due t d \<Longrightarrow> \<exists>d'\<in>set (t_deliveries (w_db w3)).
       dl_identity d' = dl_identity d \<and> dl_status d' = ''succeeded'' \<and>
       (\<exists>a\<in>set (t_attempts (w_db w3)). \<exists>c. da_delivery_id a = dl_id d \<and> da_status_code a = Some c \<and> is_success c)"
    using all_due_delivered [of w2 cfg N D worker] assms(8-11) unfolding t_def by blast
  obtain token now k and q :: enqueued_result where k: "k \<in> set (t_api_keys (seen w))" "bearer_token A hs = Some token"
    "ak_key_hash k = hash_key A token" "resp = created_response A q"
    and new: "\<And>p. p \<in> set (recipients (ak_tenant_id k) None ty (w_db w')) \<Longrightarrow> \<exists>i\<in>set (en_delivery_ids q).
       new_delivery (ad_ushow A) now i (en_event_id q) (ep_id p) (ak_tenant_id k) \<in> set (t_deliveries (w_db w'))"
    using acknowledged_deliveries [OF assms(4,5)] by blast
  have "\<exists>d\<in>set (t_deliveries (w_db w3)). dl_event_id d = en_event_id q \<and> dl_endpoint_id d = ep_id p \<and>
      dl_id d \<in> set (en_delivery_ids q) \<and> dl_status d = ''succeeded'' \<and>
      (\<exists>a\<in>set (t_attempts (w_db w3)). \<exists>c. da_delivery_id a = dl_id d \<and> da_status_code a = Some c \<and> is_success c)"
    if "p \<in> set (recipients (ak_tenant_id k) None ty (w_db w'))" for p
  proof -
    from new [OF that] assms(6) obtain i where i: "i \<in> set (en_delivery_ids q)"
      "new_delivery (ad_ushow A) now i (en_event_id q) (ep_id p) (ak_tenant_id k) \<in> set ?rows" by auto
    have "due t (new_delivery (ad_ushow A) now i (en_event_id q) (ep_id p) (ak_tenant_id k))"
      using assms(7) [OF i(2)] by (simp add: due_def new_delivery_def)
    from won [OF i(2) this] i(1) show ?thesis by (auto simp: dl_identity_def new_delivery_def)
  qed
  then show ?thesis using k turn by blast
qed

theorem posted_then_delivered_witness:
  "\<exists>w3. worker_turn deps0 dispatcher_config_default ''worker-0'' (quiet_world 11 (Response 200 None) (w_db (snd posted))) =
     (Inr True, w3) \<and> (\<exists>d\<in>set (t_deliveries (w_db w3)). dl_endpoint_id d = 7 \<and> dl_status d = ''succeeded'')"
proof -
  let ?w2 = "quiet_world 11 (Response 200 None) (w_db (snd posted))" and ?cfg = dispatcher_config_default
  let ?d = "new_delivery ushow0 5 7 3 7 ''t1''"
  obtain resp where r: "posted = (Inr (Some resp), snd posted)" "rs_status resp = 201" using posted_201 by blast
  have env: "env_ok (any_step (ad_ushow api0)) world_k" by (simp add: world_k_def)
  have run: "run (ad_ushow api0) [Manage, Manage] empty_db (w_db world_k)" using run_k by simp
  have w2: "an_now (w_env ?w2 n) = 11" "w_db ?w2 = w_db (snd posted)" "w_pos ?w2 = 0" for n
    by (simp_all add: quiet_world_def quiet_def)
  have count: "rows_affected (due 11) (t_deliveries (w_db (snd posted))) = 1"
    by (simp add: posted_tables rows_affected_def due_def new_delivery_def)
  have calm: "calm (11 + seconds (dc_lock_secs ?cfg)) 14 ?w2"
    by (rule calm_quiet) (simp_all add: coalesce_def truncate_bytes_def text_ok_def posted_tables seconds_def dispatcher_config_default_def is_success_def)
  have send: "sendable deps0 (w_db (snd posted)) ?d"
    using sign0 by (simp add: sendable_def posted_tables new_delivery_def event0_def deps0_def)
  obtain k w3 where k: "k \<in> set (t_api_keys (seen world_k))" and turn: "worker_turn deps0 ?cfg ''worker-0'' ?w2 = (Inr True, w3)"
    and won: "\<And>p. p \<in> set (recipients (ak_tenant_id k) None ''pay.ok'' (w_db (snd posted))) \<Longrightarrow>
      \<exists>d\<in>set (t_deliveries (w_db w3)). dl_endpoint_id d = ep_id p \<and> dl_status d = ''succeeded''"
    using posted_then_delivered [OF env run r(1) [unfolded posted_def] r(2), of ?w2 ?cfg 14 deps0 "''worker-0''",
        unfolded w2 posted_def [symmetric] count] calm send
    by (fastforce simp: posted_tables new_delivery_def dispatcher_config_default_def)
  have "ak_tenant_id k = ''t1''" using k by simp
  then have "sample_endpoint \<in> set (recipients (ak_tenant_id k) None ''pay.ok'' (w_db (snd posted)))"
    by (simp add: recipients_iff posted_tables sample_endpoint_def subscribes_to_def)
  from won [OF this] turn show ?thesis by simp
qed

end
